(* ===== verification/Kurios_Prelude.thy ===== *)
theory Kurios_Prelude
  imports Main "HOL-Library.Word"
begin

text \<open>
  Shared vocabulary of the development: the integer types of
  \<^verbatim>\<open>kernel/include/types.h\<close>, its alignment macros and error numbers, flag tests on
  machine words, and the generic facts about lists, options and words that the component
  theories use.
\<close>

unbundle bit_operations_syntax

named_theorems flag_simps \<open>rules about setting, clearing and testing flag bits\<close>
named_theorems align_simps \<open>rules about the alignment macros read as naturals\<close>

section \<open>Types and macros of types.h\<close>

type_synonym u8 = "8 word"
type_synonym u32 = "32 word"
type_synonym u64 = "64 word"
type_synonym phys_addr = u64
type_synonym virt_addr = u64

text \<open>A pointer into an object store is an object number; the null pointer is \<open>None\<close>.\<close>

type_synonym ptr = "nat option"

text \<open>A C \<open>int\<close> result: negative values are error numbers.\<close>

type_synonym errno = int

abbreviation (input) EPERM :: errno where "EPERM \<equiv> 1"
abbreviation (input) ENOENT :: errno where "ENOENT \<equiv> 2"
abbreviation (input) ESRCH :: errno where "ESRCH \<equiv> 3"
abbreviation (input) EBADF :: errno where "EBADF \<equiv> 9"
abbreviation (input) EAGAIN :: errno where "EAGAIN \<equiv> 11"
abbreviation (input) ENOMEM :: errno where "ENOMEM \<equiv> 12"
abbreviation (input) EFAULT :: errno where "EFAULT \<equiv> 14"
abbreviation (input) EEXIST :: errno where "EEXIST \<equiv> 17"
abbreviation (input) EINVAL :: errno where "EINVAL \<equiv> 22"
abbreviation (input) EMFILE :: errno where "EMFILE \<equiv> 24"
abbreviation (input) ENOSPC :: errno where "ENOSPC \<equiv> 28"
abbreviation (input) EPIPE :: errno where "EPIPE \<equiv> 32"
abbreviation (input) EMSGSIZE :: errno where "EMSGSIZE \<equiv> 90"

definition PAGE_SHIFT :: nat where
  "PAGE_SHIFT = 12"

definition PAGE_SIZE :: u64 where
  "PAGE_SIZE = 4096"

definition ALIGN_UP :: "u64 \<Rightarrow> u64 \<Rightarrow> u64" where
  "ALIGN_UP x align = (x + (align - 1)) AND NOT (align - 1)"

definition ALIGN_DOWN :: "u64 \<Rightarrow> u64 \<Rightarrow> u64" where
  "ALIGN_DOWN x align = x AND NOT (align - 1)"

definition IS_ALIGNED :: "u64 \<Rightarrow> u64 \<Rightarrow> bool" where
  "IS_ALIGNED x align \<longleftrightarrow> x AND (align - 1) = 0"

section \<open>Flag bits\<close>

text \<open>\<open>x & m\<close> as a truth value, \<open>x |= m\<close> and \<open>x &= ~m\<close>.\<close>

definition test_flag :: "'a::len word \<Rightarrow> 'a word \<Rightarrow> bool" where
  "test_flag x m \<longleftrightarrow> x AND m \<noteq> 0"

definition set_flag :: "'a::len word \<Rightarrow> 'a word \<Rightarrow> 'a word" where
  "set_flag x m = x OR m"

definition clear_flag :: "'a::len word \<Rightarrow> 'a word \<Rightarrow> 'a word" where
  "clear_flag x m = x AND NOT m"

lemma test_set_flag_same [flag_simps]: "m \<noteq> 0 \<Longrightarrow> test_flag (set_flag x m) m"
  by (simp add: test_flag_def set_flag_def ac_simps)

lemma test_clear_flag_same [flag_simps]: "\<not> test_flag (clear_flag x m) m"
  by (simp add: test_flag_def clear_flag_def and.assoc)

lemma test_set_flag_other [flag_simps]:
  "m AND m' = 0 \<Longrightarrow> test_flag (set_flag x m) m' = test_flag x m'"
  by (simp add: test_flag_def set_flag_def bit.conj_disj_distrib2)

lemma test_clear_flag_other [flag_simps]:
  "m AND m' = 0 \<Longrightarrow> test_flag (clear_flag x m) m' = test_flag x m'"
proof -
  assume "m AND m' = 0"
  then have "m' AND NOT m = m'"
    by (metis (no_types, lifting) bit.conj_disj_distrib bit.de_Morgan_disj
        or.right_neutral word_and_not word_not_not)
  then show ?thesis
    by (simp add: test_flag_def clear_flag_def and.assoc and.commute [of "NOT m"])
qed

lemma test_flag_zero [simp]: "\<not> test_flag 0 m"
  by (simp add: test_flag_def)

section \<open>Alignment\<close>

lemma and_not_mask_eq: "x AND NOT (mask n) = push_bit n (drop_bit n (x :: 'a::len word))"
  by (rule bit_word_eqI) (auto simp: bit_simps)

lemma unat_and_not_mask:
  "unat (x AND NOT (mask n) :: 'a::len word) = unat x div 2 ^ n * 2 ^ n"
proof -
  have low: "unat (take_bit n x) = unat x mod 2 ^ n"
    by (metis take_bit_eq_mod unsigned_take_bit_eq)
  have "x AND NOT (mask n) = x - take_bit n x"
    by (simp add: and_not_mask_eq bits_ident [of n x, symmetric, THEN eq_diff_eq [THEN iffD2, OF sym]])
  moreover have "take_bit n x \<le> x"
    by (simp add: word_le_nat_alt low)
  ultimately show ?thesis
    by (simp add: unat_sub low minus_mod_eq_div_mult)
qed

lemma PAGE_SIZE_mask: "PAGE_SIZE - 1 = mask 12"
  by (simp add: PAGE_SIZE_def mask_eq_decr_exp)

lemma unat_ALIGN_DOWN_page [align_simps]:
  "unat (ALIGN_DOWN x PAGE_SIZE) = unat x div 4096 * 4096"
  using unat_and_not_mask [of x 12] by (simp add: ALIGN_DOWN_def PAGE_SIZE_mask)

lemma unat_ALIGN_UP_page [align_simps]:
  assumes "unat x + 4095 < 2 ^ 64"
  shows "unat (ALIGN_UP x PAGE_SIZE) = (unat x + 4095) div 4096 * 4096"
proof -
  have "unat (x + mask 12) = unat x + 4095"
    using assms by (simp add: unat_word_ariths mask_eq_decr_exp)
  then show ?thesis
    using unat_and_not_mask [of "x + mask 12" 12] by (simp add: ALIGN_UP_def PAGE_SIZE_mask)
qed

lemma unat_ALIGN_UP_page_dvd: "4096 dvd unat (ALIGN_UP x PAGE_SIZE)"
  using unat_and_not_mask [of "x + mask 12" 12] by (simp add: ALIGN_UP_def PAGE_SIZE_mask)

lemma unat_ALIGN_DOWN_page_dvd: "4096 dvd unat (ALIGN_DOWN x PAGE_SIZE)"
  by (simp add: align_simps)

lemma IS_ALIGNED_pow2:
  "IS_ALIGNED x (2 ^ n) \<longleftrightarrow> 2 ^ n dvd unat x"
proof -
  have "x AND (2 ^ n - 1) = take_bit n x"
    by (simp add: take_bit_eq_mask mask_eq_decr_exp)
  moreover have "unat (take_bit n x) = unat x mod 2 ^ n"
    by (metis take_bit_eq_mod unsigned_take_bit_eq)
  ultimately show ?thesis
    by (simp add: IS_ALIGNED_def unat_eq_zero [symmetric] dvd_eq_mod_eq_0)
qed

section \<open>Exclusive or with one bit, on naturals\<close>

lemma xor_push_bit_even:
  fixes p :: nat
  assumes "even (p div 2 ^ k)"
  shows "p XOR push_bit k 1 = p + 2 ^ k"
proof -
  from assms have nb: "\<not> bit p k" by (simp add: bit_iff_odd)
  then have "flip_bit k p = set_bit k p" by (simp add: flip_bit_eq_if)
  with nb show ?thesis by (simp add: flip_bit_def set_bit_eq)
qed

lemma xor_push_bit_odd:
  fixes p :: nat
  assumes "odd (p div 2 ^ k)"
  shows "p XOR push_bit k 1 = p - 2 ^ k"
proof -
  let ?q = "p XOR push_bit k 1"
  from assms have "bit p k" by (simp add: bit_iff_odd)
  then have "\<not> bit ?q k" by (simp add: bit_xor_iff bit_exp_iff)
  then have "?q XOR push_bit k 1 = ?q + 2 ^ k"
    by (intro xor_push_bit_even) (simp add: bit_iff_odd)
  then show ?thesis by (simp add: xor.assoc)
qed

section \<open>Ends of a list as pointers\<close>

definition first_of :: "'a list \<Rightarrow> 'a option" where
  "first_of xs = (case xs of [] \<Rightarrow> None | x # _ \<Rightarrow> Some x)"

definition last_of :: "'a list \<Rightarrow> 'a option" where
  "last_of xs = (if xs = [] then None else Some (last xs))"

lemma first_of_simps [simp]: "first_of [] = None" "first_of (x # xs) = Some x"
  by (simp_all add: first_of_def)

lemma last_of_simps [simp]:
  "last_of [] = None" "last_of (xs @ [x]) = Some x" "last_of (x # y # xs) = last_of (y # xs)"
  by (simp_all add: last_of_def)

lemma last_of_single [simp]: "last_of [x] = Some x"
  by (simp add: last_of_def)

lemma first_of_None_iff [simp]: "first_of xs = None \<longleftrightarrow> xs = []"
  by (cases xs) simp_all

lemma last_of_None_iff [simp]: "last_of xs = None \<longleftrightarrow> xs = []"
  by (simp add: last_of_def)

lemma first_of_append: "first_of (xs @ ys) = (if xs = [] then first_of ys else first_of xs)"
  by (cases xs) simp_all

lemma last_of_append: "last_of (xs @ ys) = (if ys = [] then last_of xs else last_of ys)"
  by (simp add: last_of_def)

lemma first_of_in_set: "first_of xs = Some x \<Longrightarrow> x \<in> set xs"
  by (cases xs) simp_all

lemma last_of_in_set: "last_of xs = Some x \<Longrightarrow> x \<in> set xs"
  by (auto simp: last_of_def split: if_splits)

section \<open>Loops that update an array slot by slot\<close>

lemma fold_update_slots:
  assumes "distinct xs" and "inj g"
  shows "fold (\<lambda>i h. h(g i := f (h (g i)))) xs h = (\<lambda>q. if q \<in> g ` set xs then f (h q) else h q)"
  using assms(1)
proof (induction xs arbitrary: h)
  case Nil
  then show ?case by simp
next
  case (Cons x xs)
  have "g x \<notin> g ` set xs"
    using Cons.prems assms(2) by (auto dest: injD)
  with Cons show ?case
    by (auto simp: fun_eq_iff)
qed

end
