(* ===== verification/Dll.thy ===== *)
theory Dll
  imports Kurios_Prelude
begin

text \<open>
  Intrusive doubly linked lists.  The kernel links page descriptors, memory areas, threads and
  slabs through \<^verbatim>\<open>next\<close> and \<^verbatim>\<open>prev\<close> fields of the objects themselves.  The component
  theories keep those fields in an object store and write each linking operation the way the C
  code does; this theory says what it means that the fields spell a list of objects, and how
  the three linking patterns of the code (push at the front, append at the tail, unlink) change
  that list.
\<close>

section \<open>The list spelled by next and prev fields\<close>

text \<open>
  \<open>dll nx pv p xs\<close>: following \<open>nx\<close> from the first element of \<open>xs\<close> visits exactly \<open>xs\<close> and ends
  at the null pointer, and every \<open>pv\<close> points one element back (\<open>p\<close> for the first element).
\<close>

fun dll :: "('p \<Rightarrow> 'p option) \<Rightarrow> ('p \<Rightarrow> 'p option) \<Rightarrow> 'p option \<Rightarrow> 'p list \<Rightarrow> bool" where
  "dll nx pv p [] = True"
| "dll nx pv p (x # xs) =
     (pv x = p \<and> nx x = first_of xs \<and> x \<notin> set xs \<and> dll nx pv (Some x) xs)"

lemma dll_distinct: "dll nx pv p xs \<Longrightarrow> distinct xs"
  by (induction xs arbitrary: p) auto

lemma dll_cong:
  assumes "\<And>x. x \<in> set xs \<Longrightarrow> nx x = nx' x" "\<And>x. x \<in> set xs \<Longrightarrow> pv x = pv' x"
  shows "dll nx pv p xs = dll nx' pv' p xs"
  using assms by (induction xs arbitrary: p) auto

text \<open>A segment that does not end at null: the successor of its last element is \<open>e\<close>.\<close>

fun dseg :: "('p \<Rightarrow> 'p option) \<Rightarrow> ('p \<Rightarrow> 'p option) \<Rightarrow> 'p option \<Rightarrow> 'p list \<Rightarrow> 'p option \<Rightarrow> bool" where
  "dseg nx pv p [] e = True"
| "dseg nx pv p (x # xs) e =
     (pv x = p \<and> nx x = (if xs = [] then e else first_of xs) \<and> x \<notin> set xs \<and>
      dseg nx pv (Some x) xs e)"

lemma dseg_cong:
  assumes "\<And>x. x \<in> set xs \<Longrightarrow> nx x = nx' x" "\<And>x. x \<in> set xs \<Longrightarrow> pv x = pv' x"
  shows "dseg nx pv p xs e = dseg nx' pv' p xs e"
  using assms by (induction xs arbitrary: p) auto

lemma dll_append:
  "dll nx pv p (xs @ ys) \<longleftrightarrow>
     dseg nx pv p xs (first_of ys) \<and> dll nx pv (if xs = [] then p else last_of xs) ys \<and>
     set xs \<inter> set ys = {}"
proof (induction xs arbitrary: p)
  case Nil
  then show ?case by simp
next
  case (Cons x xs)
  show ?case
  proof (cases xs)
    case Nil
    then show ?thesis by auto
  next
    case (Cons z zs)
    then show ?thesis
      using Cons.IH [of "Some x"] by (auto simp: first_of_append)
  qed
qed

text \<open>Changing where a segment ends only concerns its last element.\<close>

lemma dseg_change_end:
  assumes "dseg nx pv p xs e" and "xs \<noteq> []"
    and "\<And>x. x \<in> set xs \<Longrightarrow> nx' x = (if Some x = last_of xs then e' else nx x)"
    and "\<And>x. x \<in> set xs \<Longrightarrow> pv' x = pv x"
  shows "dseg nx' pv' p xs e'"
  using assms
proof (induction xs arbitrary: p)
  case Nil
  then show ?case by simp
next
  case (Cons x xs)
  show ?case
  proof (cases xs)
    case Nil
    with Cons.prems show ?thesis by simp
  next
    case (Cons z zs)
    have "Some x \<noteq> last_of xs"
      using Cons.prems(1) last_of_in_set [of xs x] by auto
    moreover have "dseg nx' pv' (Some x) xs e'"
      using Cons.prems local.Cons by (intro Cons.IH) auto
    ultimately show ?thesis
      using Cons.prems local.Cons by auto
  qed
qed

text \<open>Changing what the first element's \<open>prev\<close> is only concerns that element.\<close>

lemma dll_change_start:
  assumes "dll nx pv p xs"
    and "\<And>x. x \<in> set xs \<Longrightarrow> nx' x = nx x"
    and "\<And>x. x \<in> set xs \<Longrightarrow> pv' x = (if Some x = first_of xs then p' else pv x)"
  shows "dll nx' pv' p' xs"
proof (cases xs)
  case Nil
  then show ?thesis by simp
next
  case (Cons x ys)
  with assms have "dll nx' pv' (Some x) ys = dll nx pv (Some x) ys"
    by (intro dll_cong) auto
  with assms Cons show ?thesis by auto
qed

section \<open>The linking patterns\<close>

lemma dll_push_front:
  assumes "dll nx pv None xs" and "x \<notin> set xs"
    and "\<And>y. nx' y = (if y = x then first_of xs else nx y)"
    and "\<And>y. pv' y = (if y = x then None else if first_of xs = Some y then Some x else pv y)"
  shows "dll nx' pv' None (x # xs)"
proof -
  have "dll nx' pv' (Some x) xs"
    using assms by (intro dll_change_start [OF assms(1)]) auto
  with assms show ?thesis by auto
qed

lemma dll_append_tail:
  assumes "dll nx pv None xs" and "x \<notin> set xs"
    and "\<And>y. nx' y = (if y = x then None else if last_of xs = Some y then Some x else nx y)"
    and "\<And>y. pv' y = (if y = x then last_of xs else pv y)"
  shows "dll nx' pv' None (xs @ [x])"
proof (cases "xs = []")
  case True
  with assms show ?thesis by simp
next
  case False
  have "dseg nx pv None xs None"
    using assms(1) dll_append [of nx pv None xs "[]"] by simp
  then have "dseg nx' pv' None xs (Some x)"
    using False assms by (elim dseg_change_end) auto
  with False assms show ?thesis
    by (auto simp: dll_append)
qed

lemma dll_unlink:
  assumes "dll nx pv None (xs @ x # ys)"
    and "\<And>y. y \<noteq> x \<Longrightarrow> nx' y = (if last_of xs = Some y then first_of ys else nx y)"
    and "\<And>y. y \<noteq> x \<Longrightarrow> pv' y = (if first_of ys = Some y then last_of xs else pv y)"
  shows "dll nx' pv' None (xs @ ys)"
proof -
  from assms(1) have seg: "dseg nx pv None xs (Some x)"
    and rest: "dll nx pv (Some x) ys"
    and dist: "x \<notin> set xs" "x \<notin> set ys" "set xs \<inter> set ys = {}"
    by (auto simp: dll_append split: if_splits)
  have nolast: "last_of xs \<noteq> Some y" if "y \<in> set ys" for y
    using that dist last_of_in_set by fastforce
  have nofirst: "first_of ys \<noteq> Some y" if "y \<in> set xs" for y
    using that dist first_of_in_set by fastforce
  have ys: "dll nx' pv' (last_of xs) ys"
    using assms(2,3) dist nolast
    by (intro dll_change_start [OF rest]) (metis, metis)
  show ?thesis
  proof (cases "xs = []")
    case True
    with ys show ?thesis by simp
  next
    case False
    have "dseg nx' pv' None xs (first_of ys)"
      using assms(2,3) dist nofirst False
      by (intro dseg_change_end [OF seg]) (metis, metis, metis)
    with False ys dist show ?thesis
      by (simp add: dll_append)
  qed
qed

lemma dll_insert:
  assumes "dll nx pv None (xs @ ys)" and "x \<notin> set xs" "x \<notin> set ys"
    and "\<And>y. nx' y = (if y = x then first_of ys else if last_of xs = Some y then Some x else nx y)"
    and "\<And>y. pv' y = (if y = x then last_of xs else if first_of ys = Some y then Some x else pv y)"
  shows "dll nx' pv' None (xs @ x # ys)"
proof -
  from assms(1) have seg: "dseg nx pv None xs (first_of ys)" and rest: "dll nx pv (if xs = [] then None else last_of xs) ys"
    and dist: "set xs \<inter> set ys = {}"
    by (simp_all add: dll_append)
  have nolast: "last_of xs \<noteq> Some y" if "y \<in> set ys" for y
    using that dist last_of_in_set by fastforce
  have nofirst: "first_of ys \<noteq> Some y" if "y \<in> set xs" for y
    using that dist first_of_in_set by fastforce
  have ys: "dll nx' pv' (Some x) ys"
  proof (rule dll_change_start [OF rest])
    fix y assume y: "y \<in> set ys"
    then show "nx' y = nx y" using assms(3,4) nolast by auto
    show "pv' y = (if Some y = first_of ys then Some x else pv y)" using y assms(3,5) by auto
  qed
  show ?thesis
  proof (cases "xs = []")
    case True
    then show ?thesis using ys assms(3-5) by simp
  next
    case False
    have "dseg nx' pv' None xs (Some x)"
    proof (rule dseg_change_end [OF seg False])
      fix y assume y: "y \<in> set xs"
      then show "nx' y = (if Some y = last_of xs then Some x else nx y)" using assms(2,4) by auto
      show "pv' y = pv y" using y assms(2,5) nofirst by auto
    qed
    then show ?thesis using False ys assms(2-5) dist by (auto simp: dll_append)
  qed
qed

text \<open>What the fields of a linked element say, for the code that unlinks it.\<close>

lemma dll_fields:
  assumes "dll nx pv None (xs @ x # ys)"
  shows "nx x = first_of ys" and "pv x = last_of xs"
  using assms by (auto simp: dll_append split: if_splits)

lemma dll_split:
  assumes "x \<in> set xs"
  obtains as bs where "xs = as @ x # bs"
  using assms by (metis split_list)

text \<open>A list untouched by an update stays spelled.\<close>

lemma dll_frame:
  assumes "dll nx pv p xs"
    and "\<And>y. y \<in> set xs \<Longrightarrow> nx' y = nx y" and "\<And>y. y \<in> set xs \<Longrightarrow> pv' y = pv y"
  shows "dll nx' pv' p xs"
  using assms dll_cong [of xs nx' nx pv' pv p] by simp

end
