(* ===== verification/Pmm.thy ===== *)
theory Pmm
  imports Dll
begin

text \<open>
  The physical memory manager, \<^verbatim>\<open>kernel/mm/pmm.c\<close> and \<^verbatim>\<open>pmm.h\<close>: a buddy allocator whose free
  blocks are kept in one doubly linked list per order, linked through the page descriptors.

  The state is the C state: the array of descriptors as a function from page frame numbers, the
  list heads and counters of the zone, and the global counters.  Page frame numbers are naturals
  (a 64-bit address shifted right by 12 stays below \<open>2 ^ 52\<close>), addresses and counters are
  machine words.  An access to the descriptor array at or past \<open>total_pages\<close> is the value
  \<open>None\<close>; only \<open>free_pages\<close>, whose index comes from its caller and from the buddy computation,
  can make one.
\<close>

section \<open>State\<close>

definition MAX_ORDER :: nat where
  "MAX_ORDER = 10"

abbreviation (input) PAGE_FLAG_BUDDY :: u32 where "PAGE_FLAG_BUDDY \<equiv> 1"
abbreviation (input) PAGE_FLAG_RESERVED :: u32 where "PAGE_FLAG_RESERVED \<equiv> 2"
abbreviation (input) PAGE_FLAG_KERNEL :: u32 where "PAGE_FLAG_KERNEL \<equiv> 4"
abbreviation (input) PAGE_FLAG_HEAD :: u32 where "PAGE_FLAG_HEAD \<equiv> 8"
abbreviation (input) PAGE_FLAG_TAIL :: u32 where "PAGE_FLAG_TAIL \<equiv> 16"

record page =
  pg_next :: ptr
  pg_prev :: ptr
  pg_flags :: u32
  pg_order :: nat
  pg_refcount :: u32

record zone =
  free_lists :: "nat \<Rightarrow> ptr"
  free_count :: "nat \<Rightarrow> u64"
  base_pfn :: nat
  page_count :: nat
  z_free_pages :: u64

record mem_info =
  total_pages :: nat
  mi_free_pages :: u64
  reserved_pages :: u64
  kernel_pages :: u64
  page_array :: "nat \<Rightarrow> page"
  page_array_pages :: u64
  zone_of :: zone

definition phys_to_pfn :: "u64 \<Rightarrow> nat" where
  "phys_to_pfn phys = unat (drop_bit PAGE_SHIFT phys)"

definition pfn_to_phys :: "nat \<Rightarrow> u64" where
  "pfn_to_phys pfn = push_bit PAGE_SHIFT (of_nat pfn)"

text \<open>The state \<open>pmm_init\<close> starts from, once \<open>n\<close> is the number of page frames: empty lists, and
  every descriptor reserved.\<close>

definition pmm_init_blank :: "nat \<Rightarrow> u64 \<Rightarrow> mem_info" where
  "pmm_init_blank n pa_pages =
     \<lparr>total_pages = n, mi_free_pages = 0, reserved_pages = 0, kernel_pages = 0,
      page_array = (\<lambda>_. \<lparr>pg_next = None, pg_prev = None, pg_flags = PAGE_FLAG_RESERVED,
                          pg_order = 0, pg_refcount = 0\<rparr>),
      page_array_pages = pa_pages,
      zone_of = \<lparr>free_lists = (\<lambda>_. None), free_count = (\<lambda>_. 0), base_pfn = 0,
                 page_count = n, z_free_pages = 0\<rparr>\<rparr>"

section \<open>Free lists\<close>

definition get_buddy_pfn :: "nat \<Rightarrow> nat \<Rightarrow> nat" where
  "get_buddy_pfn pfn order = pfn XOR push_bit order 1"

definition free_list_add :: "mem_info \<Rightarrow> nat \<Rightarrow> nat \<Rightarrow> mem_info" where
  "free_list_add m page order =
     (let z = zone_of m;
          head = free_lists z order;
          pa = page_array m;
          pa1 = pa(page := (pa page)\<lparr>pg_prev := None, pg_next := head, pg_order := order,
                                     pg_flags := set_flag (pg_flags (pa page)) PAGE_FLAG_BUDDY\<rparr>);
          pa2 = (case head of None \<Rightarrow> pa1
                 | Some h \<Rightarrow> pa1(h := (pa1 h)\<lparr>pg_prev := Some page\<rparr>))
      in m\<lparr>page_array := pa2,
           zone_of := z\<lparr>free_lists := (free_lists z)(order := Some page),
                        free_count := (free_count z)(order := free_count z order + 1)\<rparr>\<rparr>)"

definition free_list_remove :: "mem_info \<Rightarrow> nat \<Rightarrow> nat \<Rightarrow> mem_info" where
  "free_list_remove m page order =
     (let z = zone_of m;
          pa = page_array m;
          nxt = pg_next (pa page);
          prv = pg_prev (pa page);
          pa1 = (case prv of None \<Rightarrow> pa | Some q \<Rightarrow> pa(q := (pa q)\<lparr>pg_next := nxt\<rparr>));
          fl1 = (case prv of None \<Rightarrow> (free_lists z)(order := nxt) | Some q \<Rightarrow> free_lists z);
          pa2 = (case nxt of None \<Rightarrow> pa1 | Some q \<Rightarrow> pa1(q := (pa1 q)\<lparr>pg_prev := prv\<rparr>));
          pa3 = pa2(page := (pa2 page)\<lparr>pg_prev := None, pg_next := None,
                                       pg_flags := clear_flag (pg_flags (pa2 page)) PAGE_FLAG_BUDDY\<rparr>)
      in m\<lparr>page_array := pa3,
           zone_of := z\<lparr>free_lists := fl1,
                        free_count := (free_count z)(order := free_count z order - 1)\<rparr>\<rparr>)"

section \<open>Allocation\<close>

text \<open>The loop that looks for a non-empty list, from \<open>k\<close> upwards; its result is the value of the
  loop variable when the loop ends.\<close>

function alloc_find_order :: "zone \<Rightarrow> nat \<Rightarrow> nat" where
  "alloc_find_order z k =
     (if k \<le> MAX_ORDER then (if free_lists z k \<noteq> None then k else alloc_find_order z (Suc k)) else k)"
  by pat_completeness auto
termination
  by (relation "measure (\<lambda>(z, k). Suc MAX_ORDER - k)") auto

declare alloc_find_order.simps [simp del]

text \<open>The loop that splits a block of order \<open>cur\<close> at \<open>pfn\<close> down to \<open>order\<close>, handing the upper
  halves back to the free lists.\<close>

function alloc_split :: "mem_info \<Rightarrow> nat \<Rightarrow> nat \<Rightarrow> nat \<Rightarrow> mem_info" where
  "alloc_split m pfn order cur =
     (if order < cur then
        (let cur' = cur - 1; buddy_pfn = pfn + 2 ^ cur'
         in alloc_split (free_list_add m buddy_pfn cur') pfn order cur')
      else m)"
  by pat_completeness auto
termination
  by (relation "measure (\<lambda>(m, pfn, order, cur). cur)") auto

declare alloc_split.simps [simp del]

definition mark_tail :: "nat \<Rightarrow> (nat \<Rightarrow> page) \<Rightarrow> nat \<Rightarrow> page" where
  "mark_tail i pa = pa(i := (pa i)\<lparr>pg_flags := set_flag (pg_flags (pa i)) PAGE_FLAG_TAIL,
                                  pg_refcount := 1\<rparr>)"

definition mark_allocated :: "nat \<Rightarrow> nat \<Rightarrow> (nat \<Rightarrow> page) \<Rightarrow> nat \<Rightarrow> page" where
  "mark_allocated pfn order pa =
     fold (\<lambda>i. mark_tail (pfn + i)) [1..<2 ^ order]
       (pa(pfn := (pa pfn)\<lparr>pg_flags := set_flag (pg_flags (pa pfn)) PAGE_FLAG_HEAD,
                           pg_order := order, pg_refcount := 1\<rparr>))"

definition alloc_pages :: "mem_info \<Rightarrow> nat \<Rightarrow> u64 \<times> mem_info" where
  "alloc_pages m order =
     (if MAX_ORDER < order then (0, m)
      else
        let cur = alloc_find_order (zone_of m) order in
        if MAX_ORDER < cur then (0, m)
        else
          case free_lists (zone_of m) cur of
            None \<Rightarrow> (0, m)
          | Some block \<Rightarrow>
              let m1 = free_list_remove m block cur;
                  m2 = alloc_split m1 block order cur;
                  num_pages = 2 ^ order;
                  m3 = m2\<lparr>page_array := mark_allocated block order (page_array m2),
                          zone_of := (zone_of m2)\<lparr>z_free_pages := z_free_pages (zone_of m2) - of_nat num_pages\<rparr>,
                          mi_free_pages := mi_free_pages m2 - of_nat num_pages\<rparr>
              in (pfn_to_phys block, m3))"

section \<open>Freeing\<close>

definition clear_tail :: "nat \<Rightarrow> (nat \<Rightarrow> page) \<Rightarrow> nat \<Rightarrow> page" where
  "clear_tail i pa = pa(i := (pa i)\<lparr>pg_flags := clear_flag (pg_flags (pa i)) PAGE_FLAG_TAIL,
                                   pg_refcount := 0\<rparr>)"

definition clear_allocated :: "nat \<Rightarrow> nat \<Rightarrow> (nat \<Rightarrow> page) \<Rightarrow> nat \<Rightarrow> page" where
  "clear_allocated pfn order pa =
     fold (\<lambda>i. clear_tail (pfn + i)) [1..<2 ^ order]
       (pa(pfn := (pa pfn)\<lparr>pg_flags := clear_flag (pg_flags (pa pfn)) PAGE_FLAG_HEAD,
                           pg_refcount := 0\<rparr>))"

text \<open>The loop that merges with the buddy.  The code reads the buddy's descriptor without
  comparing its number with \<open>total_pages\<close>; a read past the array is \<open>None\<close>.\<close>

function free_merge :: "mem_info \<Rightarrow> nat \<Rightarrow> nat \<Rightarrow> (mem_info \<times> nat \<times> nat) option" where
  "free_merge m pfn order =
     (if order < MAX_ORDER then
        (let buddy_pfn = get_buddy_pfn pfn order in
         if total_pages m \<le> buddy_pfn then None
         else
           let buddy = page_array m buddy_pfn in
           if \<not> test_flag (pg_flags buddy) PAGE_FLAG_BUDDY \<or> pg_order buddy \<noteq> order
           then Some (m, pfn, order)
           else free_merge (free_list_remove m buddy_pfn order)
                  (if buddy_pfn < pfn then buddy_pfn else pfn) (Suc order))
      else Some (m, pfn, order))"
  by pat_completeness auto
termination
  by (relation "measure (\<lambda>(m, pfn, order). MAX_ORDER - order)") auto

declare free_merge.simps [simp del]

definition free_pages :: "mem_info \<Rightarrow> u64 \<Rightarrow> nat \<Rightarrow> mem_info option" where
  "free_pages m phys_addr order =
     (if MAX_ORDER < order then Some m
      else if phys_addr = 0 then Some m
      else if \<not> IS_ALIGNED phys_addr (push_bit order PAGE_SIZE) then Some m
      else
        let pfn = phys_to_pfn phys_addr;
            num_pages = 2 ^ order in
        if total_pages m < pfn + num_pages then None
        else
          case free_merge (m\<lparr>page_array := clear_allocated pfn order (page_array m)\<rparr>) pfn order of
            None \<Rightarrow> None
          | Some (m1, pfn1, order1) \<Rightarrow>
              let m2 = free_list_add m1 pfn1 order1
              in Some (m2\<lparr>zone_of := (zone_of m2)\<lparr>z_free_pages := z_free_pages (zone_of m2) + of_nat num_pages\<rparr>,
                          mi_free_pages := mi_free_pages m2 + of_nat num_pages\<rparr>))"

section \<open>Reference counts\<close>

definition phys_to_page :: "mem_info \<Rightarrow> u64 \<Rightarrow> ptr" where
  "phys_to_page m phys_addr =
     (let pfn = phys_to_pfn phys_addr in if total_pages m \<le> pfn then None else Some pfn)"

definition page_to_phys :: "nat \<Rightarrow> u64" where
  "page_to_phys page = pfn_to_phys page"

definition set_refcount :: "mem_info \<Rightarrow> nat \<Rightarrow> u32 \<Rightarrow> mem_info" where
  "set_refcount m page n =
     m\<lparr>page_array := (page_array m)(page := (page_array m page)\<lparr>pg_refcount := n\<rparr>)\<rparr>"

definition page_get :: "mem_info \<Rightarrow> ptr \<Rightarrow> mem_info" where
  "page_get m page = (case page of None \<Rightarrow> m
     | Some p \<Rightarrow> set_refcount m p (pg_refcount (page_array m p) + 1))"

definition page_put :: "mem_info \<Rightarrow> ptr \<Rightarrow> u32 \<times> mem_info" where
  "page_put m page = (case page of None \<Rightarrow> (0, m)
     | Some p \<Rightarrow>
         if pg_refcount (page_array m p) = 0 then (0, m)
         else (let n = pg_refcount (page_array m p) - 1 in (n, set_refcount m p n)))"

definition page_get_phys :: "mem_info \<Rightarrow> u64 \<Rightarrow> mem_info" where
  "page_get_phys m phys = page_get m (phys_to_page m phys)"

definition page_put_phys :: "mem_info \<Rightarrow> u64 \<Rightarrow> (u32 \<times> mem_info) option" where
  "page_put_phys m phys =
     (case phys_to_page m phys of
        None \<Rightarrow> Some (0, m)
      | Some p \<Rightarrow>
          (let (new_count, m1) = page_put m (Some p) in
           if new_count = 0
           then (case free_pages m1 phys 0 of None \<Rightarrow> None | Some m2 \<Rightarrow> Some (new_count, m2))
           else Some (new_count, m1)))"

section \<open>Representation\<close>

abbreviation nxt_at :: "mem_info \<Rightarrow> nat \<Rightarrow> ptr" where
  "nxt_at m p \<equiv> pg_next (page_array m p)"

abbreviation prv_at :: "mem_info \<Rightarrow> nat \<Rightarrow> ptr" where
  "prv_at m p \<equiv> pg_prev (page_array m p)"

abbreviation buddy_at :: "mem_info \<Rightarrow> nat \<Rightarrow> bool" where
  "buddy_at m p \<equiv> test_flag (pg_flags (page_array m p)) PAGE_FLAG_BUDDY"

text \<open>\<open>pmm_rep fl m\<close>: the free list of every order \<open>k\<close> is the list \<open>fl k\<close> of page frame numbers,
  spelled by the link fields, counted by \<open>free_count\<close>, and exactly the listed pages carry the
  buddy flag, with their order.\<close>

definition pmm_rep :: "(nat \<Rightarrow> nat list) \<Rightarrow> mem_info \<Rightarrow> bool" where
  "pmm_rep fl m \<longleftrightarrow>
     (\<forall>k. dll (nxt_at m) (prv_at m) None (fl k)) \<and>
     (\<forall>k \<le> MAX_ORDER. free_lists (zone_of m) k = first_of (fl k) \<and>
                        free_count (zone_of m) k = of_nat (length (fl k))) \<and>
     (\<forall>k > MAX_ORDER. fl k = []) \<and>
     (\<forall>k. \<forall>p \<in> set (fl k). pg_order (page_array m p) = k \<and> buddy_at m p) \<and>
     (\<forall>p < total_pages m. buddy_at m p \<longrightarrow> p \<in> set (fl (pg_order (page_array m p))))"

lemma pmm_repI:
  assumes "\<And>k. dll (nxt_at m) (prv_at m) None (fl k)"
    and "\<And>k. k \<le> MAX_ORDER \<Longrightarrow> free_lists (zone_of m) k = first_of (fl k)"
    and "\<And>k. k \<le> MAX_ORDER \<Longrightarrow> free_count (zone_of m) k = of_nat (length (fl k))"
    and "\<And>k. MAX_ORDER < k \<Longrightarrow> fl k = []"
    and "\<And>k p. p \<in> set (fl k) \<Longrightarrow> pg_order (page_array m p) = k"
    and "\<And>k p. p \<in> set (fl k) \<Longrightarrow> buddy_at m p"
    and "\<And>p. p < total_pages m \<Longrightarrow> buddy_at m p \<Longrightarrow> p \<in> set (fl (pg_order (page_array m p)))"
  shows "pmm_rep fl m"
  using assms unfolding pmm_rep_def by blast

lemma pmm_repD:
  assumes "pmm_rep fl m"
  shows "dll (nxt_at m) (prv_at m) None (fl k)"
    and "k \<le> MAX_ORDER \<Longrightarrow> free_lists (zone_of m) k = first_of (fl k)"
    and "k \<le> MAX_ORDER \<Longrightarrow> free_count (zone_of m) k = of_nat (length (fl k))"
    and "MAX_ORDER < k \<Longrightarrow> fl k = []"
    and "p \<in> set (fl k) \<Longrightarrow> pg_order (page_array m p) = k"
    and "p \<in> set (fl k) \<Longrightarrow> buddy_at m p"
    and "p < total_pages m \<Longrightarrow> buddy_at m p \<Longrightarrow> p \<in> set (fl (pg_order (page_array m p)))"
  using assms unfolding pmm_rep_def by blast+

lemma pmm_rep_distinct: "pmm_rep fl m \<Longrightarrow> distinct (fl k)"
  by (rule dll_distinct) (rule pmm_repD)

lemma pmm_rep_unique: "pmm_rep fl m \<Longrightarrow> p \<in> set (fl j) \<Longrightarrow> p \<in> set (fl k) \<Longrightarrow> j = k"
  by (metis pmm_repD(5))

lemma pmm_rep_order_le: "pmm_rep fl m \<Longrightarrow> p \<in> set (fl k) \<Longrightarrow> k \<le> MAX_ORDER"
  by (metis empty_iff empty_set linorder_not_less pmm_repD(4))

text \<open>What adding and removing a block do to each field.\<close>

lemma free_list_add_fields:
  assumes "free_lists (zone_of m) k = first_of xs" and "x \<notin> set xs"
  shows "nxt_at (free_list_add m x k) y = (if y = x then first_of xs else nxt_at m y)"
    and "prv_at (free_list_add m x k) y =
           (if y = x then None else if first_of xs = Some y then Some x else prv_at m y)"
    and "pg_order (page_array (free_list_add m x k) y) =
           (if y = x then k else pg_order (page_array m y))"
    and "pg_flags (page_array (free_list_add m x k) y) =
           (if y = x then set_flag (pg_flags (page_array m x)) PAGE_FLAG_BUDDY
            else pg_flags (page_array m y))"
  using assms first_of_in_set [of xs]
  by (auto simp: free_list_add_def Let_def fun_eq_iff split: option.splits)

lemma free_list_add_rest [simp]:
  "free_lists (zone_of (free_list_add m x k)) = (free_lists (zone_of m))(k := Some x)"
  "free_count (zone_of (free_list_add m x k)) =
     (free_count (zone_of m))(k := free_count (zone_of m) k + 1)"
  "total_pages (free_list_add m x k) = total_pages m"
  "z_free_pages (zone_of (free_list_add m x k)) = z_free_pages (zone_of m)"
  "mi_free_pages (free_list_add m x k) = mi_free_pages m"
  by (simp_all add: free_list_add_def Let_def)

lemma free_list_remove_rest [simp]:
  "free_count (zone_of (free_list_remove m x k)) =
     (free_count (zone_of m))(k := free_count (zone_of m) k - 1)"
  "total_pages (free_list_remove m x k) = total_pages m"
  "z_free_pages (zone_of (free_list_remove m x k)) = z_free_pages (zone_of m)"
  "mi_free_pages (free_list_remove m x k) = mi_free_pages m"
  by (simp_all add: free_list_remove_def Let_def)

lemma free_list_remove_fields:
  assumes "nxt_at m x = first_of ys" and "prv_at m x = last_of xs"
    and "x \<notin> set xs" and "x \<notin> set ys" and "set xs \<inter> set ys = {}"
  shows "y \<noteq> x \<Longrightarrow> nxt_at (free_list_remove m x k) y =
           (if last_of xs = Some y then first_of ys else nxt_at m y)"
    and "y \<noteq> x \<Longrightarrow> prv_at (free_list_remove m x k) y =
           (if first_of ys = Some y then last_of xs else prv_at m y)"
    and "pg_order (page_array (free_list_remove m x k) y) = pg_order (page_array m y)"
    and "pg_flags (page_array (free_list_remove m x k) y) =
           (if y = x then clear_flag (pg_flags (page_array m x)) PAGE_FLAG_BUDDY
            else pg_flags (page_array m y))"
    and "free_lists (zone_of (free_list_remove m x k)) =
           (if xs = [] then (free_lists (zone_of m))(k := first_of ys) else free_lists (zone_of m))"
proof -
  have ne: "last_of xs \<noteq> Some x" "first_of ys \<noteq> Some x"
    "last_of xs = Some z \<Longrightarrow> first_of ys \<noteq> Some z" for z
    using assms last_of_in_set [of xs] first_of_in_set [of ys] by blast+
  show "y \<noteq> x \<Longrightarrow> nxt_at (free_list_remove m x k) y =
           (if last_of xs = Some y then first_of ys else nxt_at m y)"
    and "y \<noteq> x \<Longrightarrow> prv_at (free_list_remove m x k) y =
           (if first_of ys = Some y then last_of xs else prv_at m y)"
    and "pg_order (page_array (free_list_remove m x k) y) = pg_order (page_array m y)"
    and "pg_flags (page_array (free_list_remove m x k) y) =
           (if y = x then clear_flag (pg_flags (page_array m x)) PAGE_FLAG_BUDDY
            else pg_flags (page_array m y))"
    using assms ne by (auto simp: free_list_remove_def Let_def split: option.splits)
  show "free_lists (zone_of (free_list_remove m x k)) =
           (if xs = [] then (free_lists (zone_of m))(k := first_of ys) else free_lists (zone_of m))"
    using assms(1,2) by (auto simp: free_list_remove_def Let_def split: option.splits)
qed

lemma pmm_rep_add:
  assumes rep: "pmm_rep fl m" and k: "k \<le> MAX_ORDER" and fresh: "\<And>j. x \<notin> set (fl j)"
  shows "pmm_rep (fl(k := x # fl k)) (free_list_add m x k)"
proof -
  note fields = free_list_add_fields [OF pmm_repD(2) [OF rep k] fresh]
  have head: "first_of (fl k) \<noteq> Some y" if "y \<in> set (fl j)" "j \<noteq> k" for y j
    using that first_of_in_set [of "fl k" y] pmm_rep_unique [OF rep] by blast
  show ?thesis
  proof (rule pmm_repI)
    fix j
    show "dll (nxt_at (free_list_add m x k)) (prv_at (free_list_add m x k)) None ((fl(k := x # fl k)) j)"
    proof (cases "j = k")
      case True
      have "dll (nxt_at (free_list_add m x k)) (prv_at (free_list_add m x k)) None (x # fl k)"
        by (rule dll_push_front [OF pmm_repD(1) [OF rep] fresh]) (simp_all add: fields)
      with True show ?thesis by simp
    next
      case False
      have "dll (nxt_at (free_list_add m x k)) (prv_at (free_list_add m x k)) None (fl j)"
        using fresh head False
        by (intro dll_frame [OF pmm_repD(1) [OF rep]]) (auto simp: fields)
      with False show ?thesis by simp
    qed
  qed (use pmm_repD [OF rep] fresh k in \<open>auto simp: fields flag_simps split: if_splits\<close>)
qed

lemma pmm_rep_remove:
  assumes rep: "pmm_rep fl m" and x: "x \<in> set (fl k)"
  shows "pmm_rep (fl(k := remove1 x (fl k))) (free_list_remove m x k)"
proof -
  obtain xs ys where split: "fl k = xs @ x # ys"
    using x by (rule dll_split)
  have d: "dll (nxt_at m) (prv_at m) None (xs @ x # ys)"
    using pmm_repD(1) [OF rep, of k] split by simp
  have dist: "x \<notin> set xs" "x \<notin> set ys" "set xs \<inter> set ys = {}"
    using dll_distinct [OF d] by auto
  note fields = free_list_remove_fields [OF dll_fields [OF d] dist]
  have rm: "remove1 x (fl k) = xs @ ys"
    using split dist by (simp add: remove1_append)
  have k: "k \<le> MAX_ORDER" by (rule pmm_rep_order_le [OF rep x])
  have other: "x \<notin> set (fl j)" "last_of xs \<noteq> Some y" "first_of ys \<noteq> Some y"
    if "y \<in> set (fl j)" "j \<noteq> k" for y j
    using that x split pmm_rep_unique [OF rep] last_of_in_set [of xs y] first_of_in_set [of ys y]
    by auto
  show ?thesis
  proof (rule pmm_repI)
    fix j
    show "dll (nxt_at (free_list_remove m x k)) (prv_at (free_list_remove m x k)) None
            ((fl(k := remove1 x (fl k))) j)"
    proof (cases "j = k")
      case True
      have "dll (nxt_at (free_list_remove m x k)) (prv_at (free_list_remove m x k)) None (xs @ ys)"
        by (rule dll_unlink [OF d]) (simp_all add: fields)
      with True rm show ?thesis by simp
    next
      case False
      have "dll (nxt_at (free_list_remove m x k)) (prv_at (free_list_remove m x k)) None (fl j)"
        using other False
        by (intro dll_frame [OF pmm_repD(1) [OF rep]]) (metis fields(1), metis fields(2))
      with False show ?thesis by simp
    qed
  next
    fix j assume "j \<le> MAX_ORDER"
    then show "free_lists (zone_of (free_list_remove m x k)) j = first_of ((fl(k := remove1 x (fl k))) j)"
      using pmm_repD(2) [OF rep] split dist by (auto simp: fields first_of_append remove1_append)
  next
    fix j assume "j \<le> MAX_ORDER"
    then show "free_count (zone_of (free_list_remove m x k)) j =
        of_nat (length ((fl(k := remove1 x (fl k))) j))"
      using pmm_repD(3) [OF rep] split dist by (auto simp: remove1_append)
  next
    fix j p assume "p \<in> set ((fl(k := remove1 x (fl k))) j)"
    then have "p \<in> set (fl j)" and "p \<noteq> x"
      using rm split dist pmm_rep_unique [OF rep x] by (auto split: if_splits)
    then show "pg_order (page_array (free_list_remove m x k) p) = j"
      and "buddy_at (free_list_remove m x k) p"
      using pmm_repD(5,6) [OF rep] by (auto simp: fields)
  next
    fix p assume "p < total_pages (free_list_remove m x k)" and "buddy_at (free_list_remove m x k) p"
    moreover from this have "p \<noteq> x" by (auto simp: fields flag_simps)
    ultimately show "p \<in> set ((fl(k := remove1 x (fl k)))
        (pg_order (page_array (free_list_remove m x k) p)))"
      using pmm_repD(7) [OF rep, of p] split by (auto simp: fields rm)
  qed (use pmm_repD(4) [OF rep] k in auto)
qed

section \<open>Blocks\<close>

definition block :: "nat \<Rightarrow> nat \<Rightarrow> nat set" where
  "block p k = {p..<p + 2 ^ k}"

definition free_set :: "(nat \<Rightarrow> nat list) \<Rightarrow> nat set" where
  "free_set fl = (\<Union>k. \<Union>p \<in> set (fl k). block p k)"

definition blocks_ok :: "nat \<Rightarrow> (nat \<Rightarrow> nat list) \<Rightarrow> bool" where
  "blocks_ok n fl \<longleftrightarrow>
     (\<forall>k. \<forall>p \<in> set (fl k). 2 ^ k dvd p \<and> p + 2 ^ k \<le> n \<and> 0 < p) \<and>
     (\<forall>j k. \<forall>p \<in> set (fl j). \<forall>q \<in> set (fl k). (p, j) \<noteq> (q, k) \<longrightarrow> block p j \<inter> block q k = {})"

text \<open>No block below the top order has its buddy in the same list.\<close>

definition coalesced :: "(nat \<Rightarrow> nat list) \<Rightarrow> bool" where
  "coalesced fl \<longleftrightarrow> (\<forall>k < MAX_ORDER. \<forall>p \<in> set (fl k). get_buddy_pfn p k \<notin> set (fl k))"

lemma in_free_set: "x \<in> free_set fl \<longleftrightarrow> (\<exists>k p. p \<in> set (fl k) \<and> x \<in> block p k)"
  by (auto simp: free_set_def)

lemma finite_block [simp]: "finite (block p k)"
  by (simp add: block_def)

lemma card_block [simp]: "card (block p k) = 2 ^ k"
  by (simp add: block_def)

lemma in_own_block [simp]: "p \<in> block p k"
  by (simp add: block_def)

lemma block_subset_free_set: "p \<in> set (fl k) \<Longrightarrow> block p k \<subseteq> free_set fl"
  by (auto simp: free_set_def)

lemma fresh_if_disjoint: "block p k \<inter> free_set fl = {} \<Longrightarrow> p \<notin> set (fl j)"
  using block_subset_free_set [of p fl j] in_own_block [of p k] in_own_block [of p j] by blast

lemma free_set_add: "free_set (fl(k := p # fl k)) = block p k \<union> free_set fl"
proof -
  have mem: "q \<in> set ((fl(k := p # fl k)) j) \<longleftrightarrow> q \<in> set (fl j) \<or> q = p \<and> j = k" for q j
    by auto
  show ?thesis
    by (simp only: set_eq_iff in_free_set mem Un_iff) metis
qed

lemma blocks_okD:
  assumes "blocks_ok n fl" and "p \<in> set (fl k)"
  shows "2 ^ k dvd p" and "p + 2 ^ k \<le> n" and "0 < p"
    and "q \<in> set (fl j) \<Longrightarrow> (p, k) \<noteq> (q, j) \<Longrightarrow> block p k \<inter> block q j = {}"
  using assms unfolding blocks_ok_def by (blast, blast, blast, blast)

lemma free_set_bounded:
  assumes "blocks_ok n fl"
  shows "free_set fl \<subseteq> {0<..<n}"
proof
  fix x assume "x \<in> free_set fl"
  then obtain k p where "p \<in> set (fl k)" and "p \<le> x" "x < p + 2 ^ k"
    by (auto simp: free_set_def block_def)
  with assms blocks_okD(2,3) [of n fl p k] show "x \<in> {0<..<n}"
    by simp
qed

lemma finite_free_set: "blocks_ok n fl \<Longrightarrow> finite (free_set fl)"
  using free_set_bounded finite_subset by blast

lemma blocks_ok_add:
  assumes "blocks_ok n fl" and "2 ^ k dvd p" and "p + 2 ^ k \<le> n" and "0 < p"
    and disj: "block p k \<inter> free_set fl = {}"
  shows "blocks_ok n (fl(k := p # fl k))"
proof -
  have "block p k \<inter> block q j = {}" if "q \<in> set (fl j)" for q j
    using disj block_subset_free_set [of q fl j] that by blast
  moreover have "q \<in> set ((fl(k := p # fl k)) j) \<longleftrightarrow> q \<in> set (fl j) \<or> q = p \<and> j = k" for q j
    by auto
  ultimately show ?thesis
    using assms(1-4) unfolding blocks_ok_def by (metis Int_commute)
qed

lemma free_set_remove:
  assumes ok: "blocks_ok n fl" and d: "distinct (fl k)" and p: "p \<in> set (fl k)"
  shows "free_set (fl(k := remove1 p (fl k))) = free_set fl - block p k"
proof -
  have mem: "q \<in> set ((fl(k := remove1 p (fl k))) j) \<longleftrightarrow> q \<in> set (fl j) \<and> (q, j) \<noteq> (p, k)" for q j
    using d by auto
  have disj: "x \<notin> block p k" if "q \<in> set (fl j)" "(q, j) \<noteq> (p, k)" "x \<in> block q j" for q j x
    using blocks_okD(4) [OF ok that(1) p that(2)] that(3) by blast
  show ?thesis
  proof (intro set_eqI iffI)
    fix x assume "x \<in> free_set (fl(k := remove1 p (fl k)))"
    then obtain j q where "q \<in> set (fl j)" "(q, j) \<noteq> (p, k)" "x \<in> block q j"
      unfolding in_free_set mem by metis
    then show "x \<in> free_set fl - block p k"
      using disj in_free_set by blast
  next
    fix x assume x: "x \<in> free_set fl - block p k"
    then obtain j q where "q \<in> set (fl j)" "x \<in> block q j"
      using in_free_set by blast
    with x show "x \<in> free_set (fl(k := remove1 p (fl k)))"
      unfolding in_free_set mem by (metis DiffE prod.inject)
  qed
qed

lemma blocks_ok_remove:
  assumes "blocks_ok n fl"
  shows "blocks_ok n (fl(k := remove1 p (fl k)))"
proof -
  have sub: "set ((fl(k := remove1 p (fl k))) j) \<subseteq> set (fl j)" for j
    by (simp add: set_remove1_subset)
  show ?thesis
    using assms unfolding blocks_ok_def by (meson subsetD [OF sub])
qed

lemma add_pow2_leD: "p + 2 ^ k \<le> (n :: nat) \<Longrightarrow> p < n"
  by (rule order.strict_trans2 [of _ "p + 2 ^ k"]) simp_all

text \<open>Halving a block, and the geometry of buddies.\<close>

lemma block_Suc:
  "block p (Suc k) = block p k \<union> block (p + 2 ^ k) k"
  "block p k \<inter> block (p + 2 ^ k) k = {}"
  by (auto simp: block_def)

lemma buddy_low: "2 ^ Suc k dvd p \<Longrightarrow> get_buddy_pfn p k = p + 2 ^ k"
  unfolding get_buddy_pfn_def by (rule xor_push_bit_even) (auto elim!: dvdE)

lemma buddy_high:
  assumes "2 ^ k dvd p" and "\<not> 2 ^ Suc k dvd p"
  shows "get_buddy_pfn p k = p - 2 ^ k" and "2 ^ k \<le> p" and "2 ^ Suc k dvd p - 2 ^ k"
proof -
  obtain c where c: "p = 2 ^ k * c" using assms(1) by (rule dvdE)
  have odd: "odd c"
  proof
    assume "even c"
    then have "2 ^ Suc k dvd p" using c by (auto elim!: dvdE)
    with assms(2) show False by simp
  qed
  then obtain d where d: "c = 2 * d + 1" by (rule oddE)
  from odd c show "get_buddy_pfn p k = p - 2 ^ k"
    unfolding get_buddy_pfn_def by (intro xor_push_bit_odd) simp
  show "2 ^ k \<le> p" using c d by simp
  show "2 ^ Suc k dvd p - 2 ^ k" using c d by (simp add: algebra_simps)
qed

lemma buddy_involution [simp]: "get_buddy_pfn (get_buddy_pfn p k) k = p"
  by (simp add: get_buddy_pfn_def xor.assoc)

lemma buddy_neq [simp]: "get_buddy_pfn p k \<noteq> p"
proof
  assume "get_buddy_pfn p k = p"
  then have "p XOR (p XOR push_bit k 1) = p XOR p"
    by (simp add: get_buddy_pfn_def)
  then show False
    by (simp add: xor.assoc [symmetric])
qed

text \<open>The block made of a block and its buddy.\<close>

definition merged_pfn :: "nat \<Rightarrow> nat \<Rightarrow> nat" where
  "merged_pfn p k = (if get_buddy_pfn p k < p then get_buddy_pfn p k else p)"

lemma merged_block:
  assumes "2 ^ k dvd p"
  shows "2 ^ Suc k dvd merged_pfn p k"
    and "block (merged_pfn p k) (Suc k) = block p k \<union> block (get_buddy_pfn p k) k"
proof -
  have "2 ^ Suc k dvd merged_pfn p k \<and>
        block (merged_pfn p k) (Suc k) = block p k \<union> block (get_buddy_pfn p k) k"
  proof (cases "2 ^ Suc k dvd p")
    case True
    then show ?thesis
      using buddy_low [OF True] by (simp add: merged_pfn_def block_Suc)
  next
    case False
    note hi = buddy_high [OF assms False]
    then have "merged_pfn p k = p - 2 ^ k"
      unfolding merged_pfn_def by (simp add: hi(1)) (use hi(2) in linarith)
    with hi show ?thesis
      using block_Suc(1) [of "p - 2 ^ k" k] by auto
  qed
  then show "2 ^ Suc k dvd merged_pfn p k"
    and "block (merged_pfn p k) (Suc k) = block p k \<union> block (get_buddy_pfn p k) k"
    by blast+
qed

section \<open>Marking the pages of a block\<close>

lemma mark_allocated_eq:
  "mark_allocated p k pa q =
     (if q = p then (pa p)\<lparr>pg_flags := set_flag (pg_flags (pa p)) PAGE_FLAG_HEAD, pg_order := k,
                            pg_refcount := 1\<rparr>
      else if q \<in> block p k then (pa q)\<lparr>pg_flags := set_flag (pg_flags (pa q)) PAGE_FLAG_TAIL,
                            pg_refcount := 1\<rparr>
      else pa q)"
proof -
  let ?f = "\<lambda>r. r\<lparr>pg_flags := set_flag (pg_flags r) PAGE_FLAG_TAIL, pg_refcount := 1\<rparr>"
  let ?h = "pa(p := (pa p)\<lparr>pg_flags := set_flag (pg_flags (pa p)) PAGE_FLAG_HEAD, pg_order := k,
                           pg_refcount := 1\<rparr>)"
  have "mark_allocated p k pa = (\<lambda>q. if q \<in> (+) p ` set [1..<2 ^ k] then ?f (?h q) else ?h q)"
    unfolding mark_allocated_def mark_tail_def
    using fold_update_slots [of "[1..<2 ^ k]" "(+) p" ?f ?h] by simp
  moreover have "q \<in> (+) p ` set [1..<2 ^ k] \<longleftrightarrow> q \<noteq> p \<and> q \<in> block p k"
    by (auto simp: block_def image_iff intro!: bexI [of _ "q - p"])
  ultimately show ?thesis by auto
qed

lemma clear_allocated_eq:
  "clear_allocated p k pa q =
     (if q = p then (pa p)\<lparr>pg_flags := clear_flag (pg_flags (pa p)) PAGE_FLAG_HEAD,
                            pg_refcount := 0\<rparr>
      else if q \<in> block p k then (pa q)\<lparr>pg_flags := clear_flag (pg_flags (pa q)) PAGE_FLAG_TAIL,
                            pg_refcount := 0\<rparr>
      else pa q)"
proof -
  let ?f = "\<lambda>r. r\<lparr>pg_flags := clear_flag (pg_flags r) PAGE_FLAG_TAIL, pg_refcount := 0\<rparr>"
  let ?h = "pa(p := (pa p)\<lparr>pg_flags := clear_flag (pg_flags (pa p)) PAGE_FLAG_HEAD,
                           pg_refcount := 0\<rparr>)"
  have "clear_allocated p k pa = (\<lambda>q. if q \<in> (+) p ` set [1..<2 ^ k] then ?f (?h q) else ?h q)"
    unfolding clear_allocated_def clear_tail_def
    using fold_update_slots [of "[1..<2 ^ k]" "(+) p" ?f ?h] by simp
  moreover have "q \<in> (+) p ` set [1..<2 ^ k] \<longleftrightarrow> q \<noteq> p \<and> q \<in> block p k"
    by (auto simp: block_def image_iff intro!: bexI [of _ "q - p"])
  ultimately show ?thesis by auto
qed

text \<open>The representation reads the links, the buddy flags and the orders of listed pages only.\<close>

lemma pmm_rep_cong:
  assumes rep: "pmm_rep fl m"
    and "total_pages m' = total_pages m"
    and "free_lists (zone_of m') = free_lists (zone_of m)"
    and "free_count (zone_of m') = free_count (zone_of m)"
    and "\<And>q. nxt_at m' q = nxt_at m q" and "\<And>q. prv_at m' q = prv_at m q"
    and "\<And>q. buddy_at m' q = buddy_at m q"
    and "\<And>q. q < total_pages m \<or> (\<exists>k. q \<in> set (fl k)) \<Longrightarrow> buddy_at m q \<Longrightarrow>
           pg_order (page_array m' q) = pg_order (page_array m q)"
  shows "pmm_rep fl m'"
proof (rule pmm_repI)
  fix k
  show "dll (nxt_at m') (prv_at m') None (fl k)"
    using pmm_repD(1) [OF rep] assms(5,6) by (rule dll_frame)
next
  fix k p assume "p \<in> set (fl k)"
  then show "pg_order (page_array m' p) = k"
    using pmm_repD(5,6) [OF rep] assms(8) by metis
qed (use pmm_repD [OF rep] assms in auto)

lemma pmm_rep_clear_allocated:
  assumes "pmm_rep fl m"
  shows "pmm_rep fl (m\<lparr>page_array := clear_allocated p k (page_array m)\<rparr>)"
  by (rule pmm_rep_cong [OF assms]) (simp_all add: clear_allocated_eq flag_simps)

lemma pmm_rep_mark_allocated:
  assumes rep: "pmm_rep fl m" and "\<And>j. p \<notin> set (fl j)" and "p < total_pages m"
  shows "pmm_rep fl (m\<lparr>page_array := mark_allocated p k (page_array m)\<rparr>)"
proof -
  have "\<not> buddy_at m p"
    using assms pmm_repD(7) by blast
  then show ?thesis
    by (intro pmm_rep_cong [OF rep]) (auto simp: mark_allocated_eq flag_simps)
qed

lemma pmm_rep_counters:
  "pmm_rep fl m \<Longrightarrow> pmm_rep fl (m\<lparr>zone_of := (zone_of m)\<lparr>z_free_pages := a\<rparr>, mi_free_pages := b\<rparr>)"
  by (erule pmm_rep_cong) simp_all

section \<open>Allocation is correct\<close>

text \<open>The invariant of the allocator: the lists are represented, they hold disjoint aligned blocks
  inside the descriptor array, and both counters count the pages of those blocks.\<close>

definition pmm_inv :: "(nat \<Rightarrow> nat list) \<Rightarrow> mem_info \<Rightarrow> bool" where
  "pmm_inv fl m \<longleftrightarrow>
     pmm_rep fl m \<and> blocks_ok (total_pages m) fl \<and> total_pages m \<le> 2 ^ 52 \<and>
     z_free_pages (zone_of m) = of_nat (card (free_set fl)) \<and>
     mi_free_pages m = of_nat (card (free_set fl))"

lemma coalesced_add:
  assumes "coalesced fl" and "get_buddy_pfn p k \<notin> set (fl k)"
  shows "coalesced (fl(k := p # fl k))"
proof -
  have "get_buddy_pfn q k \<noteq> p" if "q \<in> set (fl k)" for q
    using that assms(2) by auto
  with assms show ?thesis
    by (auto simp: coalesced_def)
qed

lemma coalesced_remove: "coalesced fl \<Longrightarrow> coalesced (fl(k := remove1 p (fl k)))"
  by (auto simp: coalesced_def dest: notin_set_remove1)

lemma alloc_find_order_spec:
  assumes "k \<le> Suc MAX_ORDER"
  shows "k \<le> alloc_find_order z k" and "alloc_find_order z k \<le> Suc MAX_ORDER"
    and "alloc_find_order z k \<le> MAX_ORDER \<Longrightarrow> free_lists z (alloc_find_order z k) \<noteq> None"
    and "k \<le> j \<Longrightarrow> j < alloc_find_order z k \<Longrightarrow> free_lists z j = None"
proof -
  have "k \<le> alloc_find_order z k \<and> alloc_find_order z k \<le> Suc MAX_ORDER \<and>
        (alloc_find_order z k \<le> MAX_ORDER \<longrightarrow> free_lists z (alloc_find_order z k) \<noteq> None) \<and>
        (\<forall>j. k \<le> j \<longrightarrow> j < alloc_find_order z k \<longrightarrow> free_lists z j = None)"
    using assms
  proof (induction z k rule: alloc_find_order.induct)
    case (1 z k)
    show ?case
    proof (cases "k \<le> MAX_ORDER \<and> free_lists z k = None")
      case True
      then have eq: "alloc_find_order z k = alloc_find_order z (Suc k)"
        by (subst alloc_find_order.simps) simp
      have IH: "Suc k \<le> alloc_find_order z (Suc k) \<and> alloc_find_order z (Suc k) \<le> Suc MAX_ORDER \<and>
        (alloc_find_order z (Suc k) \<le> MAX_ORDER \<longrightarrow> free_lists z (alloc_find_order z (Suc k)) \<noteq> None) \<and>
        (\<forall>j. Suc k \<le> j \<longrightarrow> j < alloc_find_order z (Suc k) \<longrightarrow> free_lists z j = None)"
        using True by (intro "1.IH") auto
      with True show ?thesis
        unfolding eq by (metis Suc_leD le_antisym not_less_eq_eq)
    next
      case False
      then have "alloc_find_order z k = k"
        by (subst alloc_find_order.simps) auto
      with False "1.prems" show ?thesis by auto
    qed
  qed
  then show "k \<le> alloc_find_order z k" and "alloc_find_order z k \<le> Suc MAX_ORDER"
    and "alloc_find_order z k \<le> MAX_ORDER \<Longrightarrow> free_lists z (alloc_find_order z k) \<noteq> None"
    and "k \<le> j \<Longrightarrow> j < alloc_find_order z k \<Longrightarrow> free_lists z j = None"
    by blast+
qed

lemma alloc_split_rest [simp]:
  "total_pages (alloc_split m p order cur) = total_pages m"
  "z_free_pages (zone_of (alloc_split m p order cur)) = z_free_pages (zone_of m)"
  "mi_free_pages (alloc_split m p order cur) = mi_free_pages m"
proof (induction m p order cur rule: alloc_split.induct)
  case (1 m p order cur)
  case 1 then show ?case using "1.IH"(1) by (subst alloc_split.simps) (simp add: Let_def)
  case 2 then show ?case using "1.IH"(2) by (subst alloc_split.simps) (simp add: Let_def)
  case 3 then show ?case using "1.IH"(3) by (subst alloc_split.simps) (simp add: Let_def)
qed

lemma alloc_split_correct:
  assumes "pmm_rep fl m" and "blocks_ok (total_pages m) fl"
    and "order \<le> cur" and "cur \<le> MAX_ORDER"
    and "2 ^ cur dvd p" and "p + 2 ^ cur \<le> total_pages m" and "0 < p"
    and "block p cur \<inter> free_set fl = {}"
  shows "\<exists>fl'. pmm_rep fl' (alloc_split m p order cur) \<and> blocks_ok (total_pages m) fl' \<and>
           free_set fl' = free_set fl \<union> (block p cur - block p order) \<and>
           (coalesced fl \<longrightarrow> coalesced fl')"
  using assms
proof (induction cur arbitrary: m fl)
  case 0
  then show ?case by (subst alloc_split.simps) auto
next
  case (Suc c)
  show ?case
  proof (cases "order = Suc c")
    case True
    with Suc.prems show ?thesis by (subst alloc_split.simps) auto
  next
    case False
    let ?q = "p + 2 ^ c"
    define fl1 where "fl1 = fl(c := ?q # fl c)"
    have step: "alloc_split m p order (Suc c) = alloc_split (free_list_add m ?q c) p order c"
      using False Suc.prems(3) by (subst alloc_split.simps) (simp add: Let_def)
    have disj: "block p c \<inter> free_set fl = {}" "block ?q c \<inter> free_set fl = {}"
      using Suc.prems(8) block_Suc(1) [of p c] by auto
    have dvd: "2 ^ c dvd p"
      using Suc.prems(5) by (metis dvd_mult_right power_Suc)
    have rep: "pmm_rep fl1 (free_list_add m ?q c)"
      unfolding fl1_def using Suc.prems fresh_if_disjoint [OF disj(2)] by (intro pmm_rep_add) auto
    have ok: "blocks_ok (total_pages m) fl1"
      unfolding fl1_def using Suc.prems dvd disj(2) by (intro blocks_ok_add) auto
    have "block p c \<inter> free_set fl1 = {}"
      using disj(1) block_Suc(2) [of p c] by (auto simp: fl1_def free_set_add)
    then obtain fl' where fl': "pmm_rep fl' (alloc_split (free_list_add m ?q c) p order c)"
        "blocks_ok (total_pages m) fl'"
        "free_set fl' = free_set fl1 \<union> (block p c - block p order)"
        "coalesced fl1 \<longrightarrow> coalesced fl'"
      using Suc.IH [OF rep] ok Suc.prems(3,4,6,7) False dvd by auto
    have "p \<notin> set (fl c)"
      using fresh_if_disjoint [OF disj(1)] .
    then have "coalesced fl \<longrightarrow> coalesced fl1"
      using buddy_low [OF Suc.prems(5)] buddy_involution [of p c] coalesced_add [of fl ?q c] fl1_def by metis
    moreover have "block p order \<subseteq> block p c"
      using False Suc.prems(3) by (auto simp: block_def intro: order.strict_trans2 power_increasing)
    then have "free_set fl1 \<union> (block p c - block p order) =
        free_set fl \<union> (block p (Suc c) - block p order)"
      using block_Suc [of p c] by (auto simp: fl1_def free_set_add)
    ultimately show ?thesis
      using fl' unfolding step by (intro exI [of _ fl']) simp
  qed
qed

end
