(* ===== verification/Pmm_Correct.thy ===== *)
theory Pmm_Correct
  imports Pmm
begin

text \<open>
  Correctness of \<open>alloc_pages\<close> and \<open>free_pages\<close>.  The abstraction function \<open>pmm_free\<close> reads the set of
  free page frames off the descriptors; \<open>pmm_ok\<close> is the allocator's invariant.  Allocation takes an
  aligned block out of that set, freeing puts it back, and while no two buddies stay free side by
  side, allocation fails only when no aligned free run of the requested size exists.
\<close>

section \<open>Abstraction\<close>

definition pmm_free :: "mem_info \<Rightarrow> nat set" where
  "pmm_free m = (\<Union>p \<in> {p. p < total_pages m \<and> buddy_at m p}. block p (pg_order (page_array m p)))"

definition pmm_ok :: "mem_info \<Rightarrow> bool" where
  "pmm_ok m \<longleftrightarrow> (\<exists>fl. pmm_inv fl m)"

definition pmm_merged :: "mem_info \<Rightarrow> bool" where
  "pmm_merged m \<longleftrightarrow> (\<forall>p < total_pages m. buddy_at m p \<and> pg_order (page_array m p) < MAX_ORDER \<longrightarrow>
     (let b = get_buddy_pfn p (pg_order (page_array m p)) in
      \<not> (b < total_pages m \<and> buddy_at m b \<and> pg_order (page_array m b) = pg_order (page_array m p))))"

lemma listed_iff:
  assumes "pmm_rep fl m" and "blocks_ok (total_pages m) fl"
  shows "p \<in> set (fl k) \<longleftrightarrow> p < total_pages m \<and> buddy_at m p \<and> pg_order (page_array m p) = k"
proof
  assume p: "p \<in> set (fl k)"
  have "p < total_pages m"
    using blocks_okD(2) [OF assms(2) p] by (rule add_pow2_leD)
  with p show "p < total_pages m \<and> buddy_at m p \<and> pg_order (page_array m p) = k"
    using pmm_repD(5,6) [OF assms(1)] by blast
next
  assume "p < total_pages m \<and> buddy_at m p \<and> pg_order (page_array m p) = k"
  then show "p \<in> set (fl k)"
    using pmm_repD(7) [OF assms(1)] by blast
qed

lemma pmm_free_eq:
  assumes "pmm_rep fl m" and "blocks_ok (total_pages m) fl"
  shows "pmm_free m = free_set fl"
  unfolding set_eq_iff in_free_set pmm_free_def
  using listed_iff [OF assms] by auto

lemma pmm_merged_eq:
  assumes "pmm_rep fl m" and "blocks_ok (total_pages m) fl"
  shows "pmm_merged m \<longleftrightarrow> coalesced fl"
  using listed_iff [OF assms] by (auto simp: pmm_merged_def coalesced_def Let_def)

lemma pmm_okE:
  assumes "pmm_ok m"
  obtains fl where "pmm_rep fl m" "blocks_ok (total_pages m) fl" "total_pages m \<le> 2 ^ 52"
    "z_free_pages (zone_of m) = of_nat (card (free_set fl))"
    "mi_free_pages m = of_nat (card (free_set fl))"
    "pmm_free m = free_set fl" "pmm_merged m \<longleftrightarrow> coalesced fl"
  using assms that pmm_free_eq pmm_merged_eq unfolding pmm_ok_def pmm_inv_def by metis

lemma pmm_okI:
  assumes "pmm_rep fl m" "blocks_ok (total_pages m) fl" "total_pages m \<le> 2 ^ 52"
    "z_free_pages (zone_of m) = of_nat (card (free_set fl))"
    "mi_free_pages m = of_nat (card (free_set fl))"
  shows "pmm_ok m"
  using assms unfolding pmm_ok_def pmm_inv_def by blast

section \<open>Addresses\<close>

lemma unat_pfn_to_phys:
  assumes "p < 2 ^ 52"
  shows "unat (pfn_to_phys p) = p * 4096"
proof -
  have "unat (of_nat p * 4096 :: u64) = p * 4096"
    using assms by (simp add: unat_word_ariths unat_of_nat)
  then show ?thesis
    by (simp add: pfn_to_phys_def PAGE_SHIFT_def push_bit_eq_mult)
qed

lemma pfn_to_phys_inverse: "p < 2 ^ 52 \<Longrightarrow> phys_to_pfn (pfn_to_phys p) = p"
proof -
  assume "p < 2 ^ 52"
  then have "drop_bit 12 (unat (pfn_to_phys p)) = p"
    using unat_pfn_to_phys [of p] by (simp add: drop_bit_eq_div)
  then show ?thesis
    by (simp only: phys_to_pfn_def PAGE_SHIFT_def unat_drop_bit_eq)
qed

lemma pfn_to_phys_eq_0: "p < 2 ^ 52 \<Longrightarrow> pfn_to_phys p = 0 \<longleftrightarrow> p = 0"
  using unat_pfn_to_phys [of p] by (simp add: unat_eq_zero [symmetric])

lemma phys_aligned_iff:
  assumes "k \<le> MAX_ORDER" and "p < 2 ^ 52"
  shows "IS_ALIGNED (pfn_to_phys p) (push_bit k PAGE_SIZE) \<longleftrightarrow> 2 ^ k dvd p"
proof -
  have "push_bit k PAGE_SIZE = (2 ^ (12 + k) :: u64)"
    by (simp add: PAGE_SIZE_def push_bit_eq_mult power_add)
  moreover have "(2 ^ (12 + k) dvd p * 4096) \<longleftrightarrow> (2 ^ k dvd p)" for p :: nat
    by (simp add: power_add mult.commute)
  ultimately show ?thesis
    using IS_ALIGNED_pow2 [of "pfn_to_phys p" "12 + k"] unat_pfn_to_phys [OF assms(2)] by simp
qed

section \<open>Allocation\<close>

lemma alloc_pages_none:
  assumes rep: "pmm_rep fl m" and "MAX_ORDER < alloc_find_order (zone_of m) order"
    and "order \<le> MAX_ORDER" and "order \<le> k"
  shows "fl k = []"
proof (cases "k \<le> MAX_ORDER")
  case True
  then have "free_lists (zone_of m) k = None"
    using alloc_find_order_spec(4) [of order k "zone_of m"] assms by simp
  then show ?thesis
    using pmm_repD(2) [OF rep True] by simp
next
  case False
  then show ?thesis
    using pmm_repD(4) [OF rep] by simp
qed

lemma alloc_pages_some:
  assumes ok: "pmm_rep fl m" "blocks_ok (total_pages m) fl" "total_pages m \<le> 2 ^ 52"
      "z_free_pages (zone_of m) = of_nat (card (free_set fl))"
      "mi_free_pages m = of_nat (card (free_set fl))"
    and order: "order \<le> MAX_ORDER"
    and found: "alloc_find_order (zone_of m) order \<le> MAX_ORDER"
  obtains p fl' m' where "alloc_pages m order = (pfn_to_phys p, m')"
    "2 ^ order dvd p" "block p order \<subseteq> free_set fl" "0 < p" "p + 2 ^ order \<le> total_pages m"
    "total_pages m' = total_pages m" "pmm_inv fl' m'"
    "free_set fl' = free_set fl - block p order" "coalesced fl \<longrightarrow> coalesced fl'"
    "\<And>q. q \<in> block p order \<Longrightarrow> pg_refcount (page_array m' q) = 1"
proof -
  let ?cur = "alloc_find_order (zone_of m) order"
  have cur: "order \<le> ?cur"
    using alloc_find_order_spec(1) order by simp
  obtain p where p: "free_lists (zone_of m) ?cur = Some p"
    using alloc_find_order_spec(3) [of order "zone_of m"] found order by auto
  then have first: "first_of (fl ?cur) = Some p"
    using pmm_repD(2) [OF ok(1) found] by simp
  then have mem: "p \<in> set (fl ?cur)"
    by (rule first_of_in_set)
  define fl1 where "fl1 = fl(?cur := remove1 p (fl ?cur))"
  define m1 where "m1 = free_list_remove m p ?cur"
  define m2 where "m2 = alloc_split m1 p order ?cur"
  have rep1: "pmm_rep fl1 m1"
    unfolding fl1_def m1_def by (rule pmm_rep_remove [OF ok(1) mem])
  have ok1: "blocks_ok (total_pages m1) fl1"
    unfolding fl1_def m1_def by (simp add: blocks_ok_remove [OF ok(2)])
  have free1: "free_set fl1 = free_set fl - block p ?cur"
    unfolding fl1_def by (rule free_set_remove [OF ok(2) pmm_rep_distinct [OF ok(1)] mem])
  have geo: "2 ^ ?cur dvd p" "p + 2 ^ ?cur \<le> total_pages m1" "0 < p"
    using blocks_okD [OF ok(2) mem] by (simp_all add: m1_def)
  obtain fl' where fl': "pmm_rep fl' m2" "blocks_ok (total_pages m1) fl'"
      "free_set fl' = free_set fl1 \<union> (block p ?cur - block p order)"
      "coalesced fl1 \<longrightarrow> coalesced fl'"
    using alloc_split_correct [OF rep1 ok1 cur found geo] free1 unfolding m2_def by blast
  have pow: "(2 :: nat) ^ order \<le> 2 ^ ?cur"
    using cur by (simp add: power_increasing)
  have sub: "block p order \<subseteq> block p ?cur"
    using pow by (auto simp: block_def)
  have inside: "block p ?cur \<subseteq> free_set fl"
    using block_subset_free_set [of p fl ?cur] mem by simp
  have free': "free_set fl' = free_set fl - block p order"
    using fl'(3) free1 sub inside by blast
  define m3 where "m3 = m2\<lparr>page_array := mark_allocated p order (page_array m2)\<rparr>"
  define m4 where "m4 = m3\<lparr>zone_of := (zone_of m3)\<lparr>z_free_pages := z_free_pages (zone_of m2) - of_nat (2 ^ order)\<rparr>,
                           mi_free_pages := mi_free_pages m2 - of_nat (2 ^ order)\<rparr>"
  have total: "total_pages m4 = total_pages m" "total_pages m1 = total_pages m"
    by (simp_all add: m4_def m3_def m2_def m1_def)
  have "p \<notin> free_set fl'"
    using free' by auto
  then have notin: "p \<notin> set (fl' j)" for j
    using block_subset_free_set [of p fl' j] in_own_block [of p j] by blast
  have "pmm_rep fl' m3"
    unfolding m3_def using notin geo total
    by (intro pmm_rep_mark_allocated [OF fl'(1)]) (auto simp: m2_def dest: add_pow2_leD)
  then have rep4: "pmm_rep fl' m4"
    unfolding m4_def by (rule pmm_rep_counters)
  have fin: "finite (free_set fl)" by (rule finite_free_set [OF ok(2)])
  have card: "card (free_set fl') + 2 ^ order = card (free_set fl)"
    unfolding free' using sub inside fin card_mono [OF fin, of "block p order"]
    by (simp add: card_Diff_subset)
  have "of_nat (card (free_set fl)) = (of_nat (card (free_set fl')) + of_nat (2 ^ order) :: u64)"
    using card by (metis of_nat_add)
  then have count: "z_free_pages (zone_of m4) = of_nat (card (free_set fl'))"
    "mi_free_pages m4 = of_nat (card (free_set fl'))"
    using ok(4,5) by (simp_all add: m4_def m3_def m2_def m1_def)
  have inv: "pmm_inv fl' m4"
    unfolding pmm_inv_def using rep4 fl'(2) total ok(3) count by simp
  have run: "alloc_pages m order = (pfn_to_phys p, m4)"
    using order found p by (simp add: alloc_pages_def Let_def m4_def m3_def m2_def m1_def)
  have refs: "pg_refcount (page_array m4 q) = 1" if "q \<in> block p order" for q
    using that by (auto simp: m4_def m3_def mark_allocated_eq)
  show thesis
  proof (rule that [OF run _ _ _ _ total(1) inv free'])
    show "2 ^ order dvd p"
      using geo(1) cur by (meson dvd_trans le_imp_power_dvd)
    show "block p order \<subseteq> free_set fl" using sub inside by blast
    show "p + 2 ^ order \<le> total_pages m" using geo(2) pow total(2) by linarith
    show "coalesced fl \<longrightarrow> coalesced fl'" using fl'(4) coalesced_remove [of fl] fl1_def by blast
  qed (use geo refs in auto)
qed

section \<open>Freeing\<close>

lemma buddy_in_range:
  assumes "2 ^ MAX_ORDER dvd n" and "k < MAX_ORDER" and "2 ^ k dvd p" and "p < n"
  shows "get_buddy_pfn p k < n"
proof -
  let ?a = "merged_pfn p k"
  have "2 ^ Suc k dvd n"
    using assms(1,2) by (meson Suc_leI dvd_trans le_imp_power_dvd)
  then obtain c where c: "n = 2 ^ Suc k * c" by (rule dvdE)
  obtain d where d: "?a = 2 ^ Suc k * d"
    using merged_block(1) [OF assms(3)] by (rule dvdE)
  have "?a < n" using assms(4) by (auto simp: merged_pfn_def)
  then have "Suc d \<le> c" using c d by simp
  then have "2 ^ Suc k * Suc d \<le> n"
    unfolding c by (rule mult_le_mono2)
  then have "?a + 2 ^ Suc k \<le> n" using d by simp
  moreover have "get_buddy_pfn p k \<in> block ?a (Suc k)"
    unfolding merged_block(2) [OF assms(3)] by simp
  ultimately show ?thesis by (simp add: block_def)
qed

lemma merged_end:
  assumes "2 ^ k dvd p" and "p + 2 ^ k \<le> n" and "get_buddy_pfn p k + 2 ^ k \<le> n"
  shows "merged_pfn p k + 2 ^ Suc k \<le> n"
proof -
  have "(1 :: nat) \<le> 2 ^ k" by simp
  then have "merged_pfn p k + 2 ^ Suc k - 1 \<in> block (merged_pfn p k) (Suc k)"
    unfolding block_def atLeastLessThan_iff power_Suc by linarith
  then have "merged_pfn p k + 2 ^ Suc k - 1 < n"
    using assms(2,3) unfolding merged_block(2) [OF assms(1)] by (auto simp: block_def)
  then show ?thesis by simp
qed

lemma free_merge_stop:
  assumes "k < MAX_ORDER" and "get_buddy_pfn p k < total_pages m"
    and "\<not> buddy_at m (get_buddy_pfn p k) \<or> pg_order (page_array m (get_buddy_pfn p k)) \<noteq> k"
  shows "free_merge m p k = Some (m, p, k)"
  using assms by (subst free_merge.simps) (simp add: Let_def)

lemma free_merge_step:
  assumes "k < MAX_ORDER" and "get_buddy_pfn p k < total_pages m"
    and "buddy_at m (get_buddy_pfn p k)" and "pg_order (page_array m (get_buddy_pfn p k)) = k"
  shows "free_merge m p k =
    free_merge (free_list_remove m (get_buddy_pfn p k) k) (merged_pfn p k) (Suc k)"
  using assms by (subst free_merge.simps) (simp add: Let_def merged_pfn_def)

lemma free_merge_out:
  "k < MAX_ORDER \<Longrightarrow> total_pages m \<le> get_buddy_pfn p k \<Longrightarrow> free_merge m p k = None"
  by (subst free_merge.simps) simp

text \<open>What the merge loop leaves behind when started with the block \<open>(p, k)\<close>.\<close>

definition merge_post ::
  "(nat \<Rightarrow> nat list) \<Rightarrow> mem_info \<Rightarrow> nat \<Rightarrow> nat \<Rightarrow> (nat \<Rightarrow> nat list) \<Rightarrow> mem_info \<Rightarrow> nat \<Rightarrow> nat \<Rightarrow> bool" where
  "merge_post fl m p k fl' m' p' k' \<longleftrightarrow>
     pmm_rep fl' m' \<and> blocks_ok (total_pages m) fl' \<and> k' \<le> MAX_ORDER \<and>
     2 ^ k' dvd p' \<and> p' + 2 ^ k' \<le> total_pages m \<and> 0 < p' \<and>
     block p' k' \<inter> free_set fl' = {} \<and>
     block p' k' \<union> free_set fl' = block p k \<union> free_set fl \<and>
     (coalesced fl \<longrightarrow> coalesced fl' \<and> get_buddy_pfn p' k' \<notin> (if k' < MAX_ORDER then set (fl' k') else {})) \<and>
     total_pages m' = total_pages m \<and>
     z_free_pages (zone_of m') = z_free_pages (zone_of m) \<and> mi_free_pages m' = mi_free_pages m"

lemma free_merge_correct:
  assumes "pmm_rep fl m" and "blocks_ok (total_pages m) fl" and "k \<le> MAX_ORDER"
    and "2 ^ k dvd p" and "p + 2 ^ k \<le> total_pages m" and "0 < p"
    and "block p k \<inter> free_set fl = {}"
  shows "free_merge m p k = None \<and> \<not> 2 ^ MAX_ORDER dvd total_pages m \<or>
    (\<exists>m' p' k' fl'. free_merge m p k = Some (m', p', k') \<and> merge_post fl m p k fl' m' p' k')"
  using assms
proof (induction m p k arbitrary: fl rule: free_merge.induct)
  case (1 m p k)
  let ?b = "get_buddy_pfn p k"
  note rep = "1.prems"(1) and ok = "1.prems"(2)
  have "p < total_pages m" using "1.prems"(5) by (rule add_pow2_leD)
  consider (top) "k = MAX_ORDER" | (out) "k < MAX_ORDER" "total_pages m \<le> ?b"
    | (stop) "k < MAX_ORDER" "?b < total_pages m" "\<not> buddy_at m ?b \<or> pg_order (page_array m ?b) \<noteq> k"
    | (merge) "k < MAX_ORDER" "?b < total_pages m" "buddy_at m ?b" "pg_order (page_array m ?b) = k"
    using "1.prems"(3) by linarith
  then show ?case
  proof cases
    case top
    then have "free_merge m p k = Some (m, p, k)" by (subst free_merge.simps) simp
    moreover have "merge_post fl m p k fl m p k"
      using "1.prems" top by (simp add: merge_post_def)
    ultimately show ?thesis by blast
  next
    case out
    then have "\<not> 2 ^ MAX_ORDER dvd total_pages m"
      using buddy_in_range [of "total_pages m" k p] "1.prems"(4) \<open>p < total_pages m\<close> by auto
    then show ?thesis
      using free_merge_out [OF out] by blast
  next
    case stop
    then have "?b \<notin> set (fl k)" using pmm_repD(5,6) [OF rep] by blast
    then have "merge_post fl m p k fl m p k"
      using "1.prems" by (simp add: merge_post_def)
    then show ?thesis
      using free_merge_stop [OF stop] by blast
  next
    case merge
    define fl1 where "fl1 = fl(k := remove1 ?b (fl k))"
    define m1 where "m1 = free_list_remove m ?b k"
    have mem: "?b \<in> set (fl k)" using pmm_repD(7) [OF rep merge(2,3)] merge(4) by simp
    have rep1: "pmm_rep fl1 m1" unfolding fl1_def m1_def by (rule pmm_rep_remove [OF rep mem])
    have ok1: "blocks_ok (total_pages m1) fl1"
      unfolding fl1_def m1_def by (simp add: blocks_ok_remove [OF ok])
    have free1: "free_set fl1 = free_set fl - block ?b k"
      unfolding fl1_def by (rule free_set_remove [OF ok pmm_rep_distinct [OF rep] mem])
    have inside: "block ?b k \<subseteq> free_set fl" using block_subset_free_set [of ?b fl k] mem by simp
    note blk = merged_block [OF "1.prems"(4)]
    have post: "block (merged_pfn p k) (Suc k) \<inter> free_set fl1 = {}"
      "block (merged_pfn p k) (Suc k) \<union> free_set fl1 = block p k \<union> free_set fl"
      unfolding blk(2) free1 using inside "1.prems"(7) by auto
    have pos: "0 < merged_pfn p k"
      using "1.prems"(6) blocks_okD(3) [OF ok mem] by (simp add: merged_pfn_def)
    have end_le: "merged_pfn p k + 2 ^ Suc k \<le> total_pages m1"
      using merged_end [OF "1.prems"(4,5)] blocks_okD(2) [OF ok mem] by (simp add: m1_def)
    have IH: "free_merge m1 (merged_pfn p k) (Suc k) = None \<and> \<not> 2 ^ MAX_ORDER dvd total_pages m1 \<or>
      (\<exists>m' p' k' fl'. free_merge m1 (merged_pfn p k) (Suc k) = Some (m', p', k') \<and>
         merge_post fl1 m1 (merged_pfn p k) (Suc k) fl' m' p' k')"
      using "1.IH" [of ?b "page_array m ?b" fl1] merge rep1 ok1 blk(1) end_le pos post(1)
      unfolding m1_def by (auto simp: merged_pfn_def)
    have eq: "free_merge m p k = free_merge m1 (merged_pfn p k) (Suc k)"
      unfolding m1_def by (rule free_merge_step [OF merge])
    have lift: "merge_post fl m p k fl' m' p' k'"
      if "merge_post fl1 m1 (merged_pfn p k) (Suc k) fl' m' p' k'" for fl' m' p' k'
      using that post(2) coalesced_remove [of fl k ?b]
      by (simp add: merge_post_def m1_def flip: fl1_def)
    have tm: "total_pages m1 = total_pages m" by (simp add: m1_def)
    from IH show ?thesis
      unfolding eq tm
    proof (elim disjE exE conjE)
      fix m' p' k' fl'
      assume "free_merge m1 (merged_pfn p k) (Suc k) = Some (m', p', k')"
        and "merge_post fl1 m1 (merged_pfn p k) (Suc k) fl' m' p' k'"
      then show "free_merge m1 (merged_pfn p k) (Suc k) = None \<and> \<not> 2 ^ MAX_ORDER dvd total_pages m \<or>
          (\<exists>m' p' k' fl'. free_merge m1 (merged_pfn p k) (Suc k) = Some (m', p', k') \<and>
            merge_post fl m p k fl' m' p' k')"
        using lift by (intro disjI2 exI conjI)
    qed simp
  qed
qed

lemma free_pages_some:
  assumes ok: "pmm_rep fl m" "blocks_ok (total_pages m) fl" "total_pages m \<le> 2 ^ 52"
      "z_free_pages (zone_of m) = of_nat (card (free_set fl))"
      "mi_free_pages m = of_nat (card (free_set fl))"
    and size: "2 ^ MAX_ORDER dvd total_pages m"
    and blk: "order \<le> MAX_ORDER" "2 ^ order dvd p" "p + 2 ^ order \<le> total_pages m" "0 < p"
      "block p order \<inter> free_set fl = {}"
  obtains fl' m' where "free_pages m (pfn_to_phys p) order = Some m'" "pmm_inv fl' m'"
    "total_pages m' = total_pages m" "free_set fl' = free_set fl \<union> block p order"
    "coalesced fl \<longrightarrow> coalesced fl'"
proof -
  have small: "p < 2 ^ 52"
    using add_pow2_leD [OF blk(3)] ok(3) by linarith
  define m0 where "m0 = m\<lparr>page_array := clear_allocated p order (page_array m)\<rparr>"
  have m0: "total_pages m0 = total_pages m" "z_free_pages (zone_of m0) = z_free_pages (zone_of m)"
      "mi_free_pages m0 = mi_free_pages m"
    by (simp_all add: m0_def)
  have rep0: "pmm_rep fl m0"
    unfolding m0_def by (rule pmm_rep_clear_allocated [OF ok(1)])
  obtain m1 p1 k1 fl1 where run: "free_merge m0 p order = Some (m1, p1, k1)"
      and post: "merge_post fl m0 p order fl1 m1 p1 k1"
    using free_merge_correct [of fl m0 order p] rep0 ok(2) blk size unfolding m0 by blast
  define fl' where "fl' = fl1(k1 := p1 # fl1 k1)"
  define m2 where "m2 = free_list_add m1 p1 k1"
  define m3 where "m3 = m2\<lparr>zone_of := (zone_of m2)\<lparr>z_free_pages := z_free_pages (zone_of m2) + of_nat (2 ^ order)\<rparr>,
                           mi_free_pages := mi_free_pages m2 + of_nat (2 ^ order)\<rparr>"
  have disj: "block p1 k1 \<inter> free_set fl1 = {}"
    using post by (simp add: merge_post_def)
  have "pmm_rep fl' m2"
    unfolding fl'_def m2_def using post fresh_if_disjoint [OF disj]
    by (intro pmm_rep_add) (auto simp: merge_post_def)
  then have rep3: "pmm_rep fl' m3"
    unfolding m3_def by (rule pmm_rep_counters)
  have ok3: "blocks_ok (total_pages m) fl'"
    unfolding fl'_def using post disj by (intro blocks_ok_add) (auto simp: merge_post_def m0)
  have free': "free_set fl' = free_set fl \<union> block p order"
    unfolding fl'_def free_set_add using post by (auto simp: merge_post_def)
  have fin: "finite (free_set fl)" by (rule finite_free_set [OF ok(2)])
  have card: "card (free_set fl') = card (free_set fl) + 2 ^ order"
    unfolding free' using fin blk(5) by (simp add: card_Un_disjoint Int_commute)
  have total: "total_pages m3 = total_pages m"
    using post m0 by (simp add: m3_def m2_def merge_post_def)
  have "pmm_inv fl' m3"
    unfolding pmm_inv_def using rep3 ok3 ok(3-5) total card post m0
    by (simp add: m3_def m2_def merge_post_def)
  moreover have "free_pages m (pfn_to_phys p) order = Some m3"
    unfolding free_pages_def Let_def pfn_to_phys_inverse [OF small]
    using blk small run phys_aligned_iff [of order p] pfn_to_phys_eq_0 [of p]
    by (simp add: m3_def m2_def m0_def)
  moreover have "coalesced fl \<longrightarrow> coalesced fl'"
    unfolding fl'_def using post coalesced_add [of fl1 p1 k1]
    by (auto simp: merge_post_def coalesced_def split: if_splits)
  ultimately show thesis
    using that total free' by blast
qed

section \<open>A free aligned run is found\<close>

lemma aligned_blocks_nest:
  assumes "2 ^ k dvd p" and "2 ^ j dvd (q :: nat)" and "k \<le> j" and "x \<in> block p k" and "x \<in> block q j"
  shows "block p k \<subseteq> block q j"
proof -
  have "2 ^ k dvd q + 2 ^ j" "2 ^ k dvd q"
    using assms(2,3) by (meson dvd_add dvd_trans le_imp_power_dvd)+
  then obtain c d e where "p = 2 ^ k * c" "q = 2 ^ k * d" "q + 2 ^ j = 2 ^ k * e"
    using assms(1) by (metis dvdE)
  moreover have "q < p + 2 ^ k" "p < q + 2 ^ j"
    using assms(4,5) by (auto simp: block_def)
  ultimately have "2 ^ k * d < 2 ^ k * Suc c" "2 ^ k * c < 2 ^ k * e"
    and pq: "p = 2 ^ k * c" "q = 2 ^ k * d" "q + 2 ^ j = 2 ^ k * e"
    by (simp_all add: algebra_simps)
  then have "d < Suc c" "c < e" by (simp_all only: mult_less_cancel1)
  then have "d \<le> c" "Suc c \<le> e" by simp_all
  then have "2 ^ k * d \<le> 2 ^ k * c" "2 ^ k * Suc c \<le> 2 ^ k * e"
    by (meson mult_le_mono2)+
  then have "q \<le> p" "p + 2 ^ k \<le> q + 2 ^ j"
    using pq by simp_all
  then show ?thesis by (auto simp: block_def)
qed

lemma free_run_in_block:
  assumes ok: "blocks_ok n fl" and co: "coalesced fl" and "k \<le> MAX_ORDER"
    and "2 ^ k dvd p" and "block p k \<subseteq> free_set fl"
  shows "\<exists>j q. k \<le> j \<and> q \<in> set (fl j) \<and> block p k \<subseteq> block q j"
  using assms(3-)
proof (induction k arbitrary: p)
  case 0
  then have "p \<in> free_set fl" by (auto simp: block_def)
  then show ?case by (auto simp: in_free_set block_def)
next
  case (Suc k)
  let ?r = "p + 2 ^ k"
  have halves: "block p k \<subseteq> free_set fl" "block ?r k \<subseteq> free_set fl"
    using Suc.prems(3) block_Suc(1) [of p k] by auto
  have dvd: "2 ^ k dvd p" using Suc.prems(2) by (metis dvd_mult_right power_Suc)
  then have dvdr: "2 ^ k dvd ?r" by simp
  obtain j q where q: "k \<le> j" "q \<in> set (fl j)" "block p k \<subseteq> block q j"
    using Suc.IH [OF _ dvd halves(1)] Suc.prems(1) by auto
  obtain j' q' where q': "k \<le> j'" "q' \<in> set (fl j')" "block ?r k \<subseteq> block q' j'"
    using Suc.IH [OF _ dvdr halves(2)] Suc.prems(1) by auto
  have ends: "p \<in> block p (Suc k)" "?r \<in> block p (Suc k)"
    by (auto simp: block_def)
  show ?case
  proof (cases "k < j \<or> k < j'")
    case True
    then show ?thesis
    proof
      assume "k < j"
      then have "block p (Suc k) \<subseteq> block q j"
        using q(3) in_own_block [of p k]
        by (intro aligned_blocks_nest [OF Suc.prems(2) blocks_okD(1) [OF ok q(2)] _ ends(1)]) auto
      with \<open>k < j\<close> q(2) show ?thesis by (meson Suc_leI)
    next
      assume "k < j'"
      then have "block p (Suc k) \<subseteq> block q' j'"
        using q'(3) in_own_block [of ?r k]
        by (intro aligned_blocks_nest [OF Suc.prems(2) blocks_okD(1) [OF ok q'(2)] _ ends(2)]) auto
      with \<open>k < j'\<close> q'(2) show ?thesis by (meson Suc_leI)
    qed
  next
    case False
    then have j: "j = k" "j' = k" using q(1) q'(1) by auto
    have "p = q" "?r = q'"
      using q(3) q'(3) unfolding j block_def by auto
    then have "p \<in> set (fl k)" "get_buddy_pfn p k \<in> set (fl k)"
      using q(2) q'(2) j buddy_low [OF Suc.prems(2)] by auto
    then show ?thesis
      using co Suc.prems(1) by (auto simp: coalesced_def)
  qed
qed

section \<open>Properties of the allocator\<close>

lemma pmm_rep_blank: "pmm_rep (\<lambda>_. []) (pmm_init_blank n a)"
  by (rule pmm_repI) (auto simp: pmm_init_blank_def test_flag_def)

lemma free_set_empty [simp]: "free_set (\<lambda>_. []) = {}"
  by (simp add: free_set_def)

lemma blocks_ok_empty [simp]: "blocks_ok n (\<lambda>_. [])"
  by (simp add: blocks_ok_def)

lemma coalesced_empty [simp]: "coalesced (\<lambda>_. [])"
  by (simp add: coalesced_def)

lemma total_pages_blank [simp]: "total_pages (pmm_init_blank n a) = n"
  by (simp add: pmm_init_blank_def)

lemma pmm_ok_blank: "n \<le> 2 ^ 52 \<Longrightarrow> pmm_ok (pmm_init_blank n a)"
  by (rule pmm_okI [OF pmm_rep_blank]) (simp_all add: pmm_init_blank_def)

lemma pmm_free_blank: "pmm_free (pmm_init_blank n a) = {}"
  by (simp add: pmm_free_def pmm_init_blank_def test_flag_def)

lemma pmm_merged_blank: "pmm_merged (pmm_init_blank n a)"
  by (simp add: pmm_merged_def pmm_init_blank_def test_flag_def)

lemma alloc_pages_spec:
  assumes "pmm_ok m" and "order \<le> MAX_ORDER" and "alloc_pages m order = (phys, m')"
  shows "pmm_ok m' \<and> total_pages m' = total_pages m \<and> (pmm_merged m \<longrightarrow> pmm_merged m') \<and>
    (phys = 0 \<longrightarrow> m' = m) \<and>
    (phys \<noteq> 0 \<longrightarrow>
       (let p = phys_to_pfn phys in
        phys = pfn_to_phys p \<and> 2 ^ order dvd p \<and> 0 < p \<and> p + 2 ^ order \<le> total_pages m \<and> block p order \<subseteq> pmm_free m \<and>
        pmm_free m' = pmm_free m - block p order \<and>
        (\<forall>q \<in> block p order. pg_refcount (page_array m' q) = 1) \<and>
        mi_free_pages m' = mi_free_pages m - 2 ^ order))"
proof -
  obtain fl where ok: "pmm_rep fl m" "blocks_ok (total_pages m) fl" "total_pages m \<le> 2 ^ 52"
      "z_free_pages (zone_of m) = of_nat (card (free_set fl))"
      "mi_free_pages m = of_nat (card (free_set fl))" and free: "pmm_free m = free_set fl"
      and mrg: "pmm_merged m \<longleftrightarrow> coalesced fl"
    using assms(1) by (rule pmm_okE)
  show ?thesis
  proof (cases "alloc_find_order (zone_of m) order \<le> MAX_ORDER")
    case False
    then have "alloc_pages m order = (0, m)"
      using assms(2) by (simp add: alloc_pages_def)
    with assms(1,3) show ?thesis by simp
  next
    case True
    obtain p fl' m1 where run: "alloc_pages m order = (pfn_to_phys p, m1)"
      and p: "2 ^ order dvd p" "block p order \<subseteq> free_set fl" "0 < p" "p + 2 ^ order \<le> total_pages m"
      and tot: "total_pages m1 = total_pages m"
      and inv: "pmm_inv fl' m1" and free': "free_set fl' = free_set fl - block p order"
      and co: "coalesced fl \<longrightarrow> coalesced fl'"
      and refs: "\<And>q. q \<in> block p order \<Longrightarrow> pg_refcount (page_array m1 q) = 1"
      using alloc_pages_some [OF ok assms(2) True] by metis
    have small: "p < 2 ^ 52" using add_pow2_leD [OF p(4)] ok(3) by linarith
    have fin: "finite (free_set fl)" by (rule finite_free_set [OF ok(2)])
    have "card (free_set fl) = card (free_set fl') + 2 ^ order"
      unfolding free' using p(2) fin card_mono [OF fin p(2)] by (simp add: card_Diff_subset)
    then have count: "mi_free_pages m1 = mi_free_pages m - 2 ^ order"
      using inv ok(5) by (simp add: pmm_inv_def)
    have "pmm_ok m1" "pmm_free m1 = free_set fl'" "pmm_merged m1 \<longleftrightarrow> coalesced fl'"
      using inv pmm_free_eq pmm_merged_eq by (auto simp: pmm_ok_def pmm_inv_def)
    then show ?thesis
      using run assms(3) p tot free free' small refs count co mrg
      by (auto simp: Let_def pfn_to_phys_inverse pfn_to_phys_eq_0)
  qed
qed

text \<open>C1. \<open>alloc_pages\<close> keeps the allocator's invariant.  A zero result leaves the state unchanged.  Any
  other result is the address of a naturally aligned block of \<open>2 ^ order\<close> page frames all of which
  were free, which are then exactly the frames removed from the free set, and each of which holds
  one reference; the free-page counter drops by the size of the block.\<close>

theorem alloc_pages_correct:
  assumes "pmm_ok m" and "order \<le> MAX_ORDER" and "alloc_pages m order = (phys, m')"
  shows "pmm_ok m' \<and> (pmm_merged m \<longrightarrow> pmm_merged m') \<and>
    (phys = 0 \<longrightarrow> m' = m) \<and>
    (phys \<noteq> 0 \<longrightarrow>
       (let p = phys_to_pfn phys in
        phys = pfn_to_phys p \<and> 2 ^ order dvd p \<and> block p order \<subseteq> pmm_free m \<and>
        pmm_free m' = pmm_free m - block p order \<and>
        (\<forall>q \<in> block p order. pg_refcount (page_array m' q) = 1) \<and>
        mi_free_pages m' = mi_free_pages m - 2 ^ order))"
  using alloc_pages_spec [OF assms] by (auto simp: Let_def)

text \<open>A memory of 1024 page frames with the upper half free, for the witnesses.\<close>

definition sample_mem :: mem_info where
  "sample_mem =
     (let m = free_list_add (pmm_init_blank 1024 8) 512 9
      in m\<lparr>zone_of := (zone_of m)\<lparr>z_free_pages := 512\<rparr>, mi_free_pages := 512\<rparr>)"

lemma sample_mem_ok: "pmm_ok sample_mem"
proof -
  let ?fl = "(\<lambda>_. [])(9 := [512])"
  have "pmm_rep ?fl (free_list_add (pmm_init_blank 1024 8) 512 9)"
    using pmm_rep_add [OF pmm_rep_blank, of 9 512 1024 8] by (simp add: MAX_ORDER_def)
  then have rep: "pmm_rep ?fl sample_mem"
    unfolding sample_mem_def Let_def by (rule pmm_rep_counters)
  have total: "total_pages sample_mem = 1024"
    by (simp add: sample_mem_def Let_def pmm_init_blank_def)
  have "free_set ?fl = {512..<1024}"
    using free_set_add [of "\<lambda>_. []" 9 512] by (simp add: block_def)
  moreover have "blocks_ok 1024 ?fl"
    using blocks_ok_add [of 1024 "\<lambda>_. []" 9 512] by simp
  ultimately show ?thesis
    using rep total by (intro pmm_okI) (auto simp: sample_mem_def Let_def)
qed

lemma sample_mem_total [simp]: "total_pages sample_mem = 1024"
  by (simp add: sample_mem_def Let_def pmm_init_blank_def)

lemma sample_mem_merged: "pmm_merged sample_mem"
  by (auto simp: pmm_merged_def sample_mem_def Let_def pmm_init_blank_def free_list_add_def
      test_flag_def get_buddy_pfn_def MAX_ORDER_def set_flag_def)

lemma sample_mem_free_upper: "pmm_free sample_mem \<subseteq> {512..<1024}"
  by (auto simp: pmm_free_def sample_mem_def Let_def pmm_init_blank_def free_list_add_def
      test_flag_def set_flag_def block_def split: if_splits)

theorem alloc_pages_correct_witness:
  "pmm_ok sample_mem \<and> fst (alloc_pages sample_mem 8) = pfn_to_phys 512 \<and>
   pmm_ok (snd (alloc_pages sample_mem 8))"
proof -
  have "fst (alloc_pages sample_mem 8) = pfn_to_phys 512"
    by (simp add: alloc_pages_def Let_def MAX_ORDER_def sample_mem_def alloc_find_order.simps
        free_list_add_def pmm_init_blank_def)
  then show ?thesis
    using alloc_pages_correct [OF sample_mem_ok _ prod.collapse [symmetric], of 8] sample_mem_ok
    by (simp add: MAX_ORDER_def)
qed

text \<open>C2. Allocation is complete: as long as no two buddies are free side by side, \<open>alloc_pages\<close> returns a
  block whenever some naturally aligned run of \<open>2 ^ order\<close> page frames is free.\<close>

theorem alloc_pages_complete:
  assumes "pmm_ok m" and "pmm_merged m" and "order \<le> MAX_ORDER"
    and "2 ^ order dvd p" and "block p order \<subseteq> pmm_free m"
  shows "fst (alloc_pages m order) \<noteq> 0"
proof -
  obtain fl where ok: "pmm_rep fl m" "blocks_ok (total_pages m) fl" "total_pages m \<le> 2 ^ 52"
      "z_free_pages (zone_of m) = of_nat (card (free_set fl))"
      "mi_free_pages m = of_nat (card (free_set fl))" and free: "pmm_free m = free_set fl"
      and mrg: "pmm_merged m \<longleftrightarrow> coalesced fl"
    using assms(1) by (rule pmm_okE)
  obtain j q where "order \<le> j" "q \<in> set (fl j)"
    using free_run_in_block [OF ok(2) _ assms(3,4)] assms(2,5) free mrg by auto
  then have "alloc_find_order (zone_of m) order \<le> MAX_ORDER"
    using alloc_pages_none [OF ok(1) _ assms(3), of j] by fastforce
  then obtain r m1 where "alloc_pages m order = (pfn_to_phys r, m1)"
      and r: "0 < r" "r + 2 ^ order \<le> total_pages m"
    using alloc_pages_some [OF ok assms(3)] by metis
  moreover have "r < 2 ^ 52" using add_pow2_leD [OF r(2)] ok(3) by linarith
  ultimately show ?thesis
    using r(1) by (simp add: pfn_to_phys_eq_0)
qed

theorem alloc_pages_complete_witness:
  "pmm_merged sample_mem \<and> block 768 8 \<subseteq> pmm_free sample_mem \<and> fst (alloc_pages sample_mem 8) \<noteq> 0"
proof -
  have "block 768 8 \<subseteq> block 512 9" by (auto simp: block_def)
  moreover have "512 < total_pages sample_mem \<and> buddy_at sample_mem 512 \<and> pg_order (page_array sample_mem 512) = 9"
    by (simp add: sample_mem_def Let_def pmm_init_blank_def free_list_add_def test_flag_def set_flag_def)
  ultimately have "block 768 8 \<subseteq> pmm_free sample_mem"
    unfolding pmm_free_def by fastforce
  then show ?thesis
    using alloc_pages_complete [OF sample_mem_ok sample_mem_merged, of 8 768] sample_mem_merged
    by (simp add: MAX_ORDER_def)
qed

lemma free_pages_restores:
  assumes "pmm_ok m" and "2 ^ MAX_ORDER dvd total_pages m" and "order \<le> MAX_ORDER"
    and "0 < p" and "2 ^ order dvd p" and "p + 2 ^ order \<le> total_pages m"
    and "block p order \<inter> pmm_free m = {}"
  shows "\<exists>m'. free_pages m (pfn_to_phys p) order = Some m' \<and> pmm_ok m' \<and> total_pages m' = total_pages m \<and>
    pmm_free m' = pmm_free m \<union> block p order \<and> (pmm_merged m \<longrightarrow> pmm_merged m') \<and>
    mi_free_pages m' = mi_free_pages m + 2 ^ order"
proof -
  obtain fl where ok: "pmm_rep fl m" "blocks_ok (total_pages m) fl" "total_pages m \<le> 2 ^ 52"
      "z_free_pages (zone_of m) = of_nat (card (free_set fl))"
      "mi_free_pages m = of_nat (card (free_set fl))" and free: "pmm_free m = free_set fl"
      and mrg: "pmm_merged m \<longleftrightarrow> coalesced fl"
    using assms(1) by (rule pmm_okE)
  obtain fl' m1 where run: "free_pages m (pfn_to_phys p) order = Some m1" and inv: "pmm_inv fl' m1"
      and tot: "total_pages m1 = total_pages m"
      and free': "free_set fl' = free_set fl \<union> block p order" and co: "coalesced fl \<longrightarrow> coalesced fl'"
    using free_pages_some [OF ok assms(2,3,5,6,4)] assms(7) free by metis
  have "card (free_set fl') = card (free_set fl) + 2 ^ order"
    unfolding free' using finite_free_set [OF ok(2)] assms(7) free
    by (simp add: card_Un_disjoint Int_commute)
  then have "mi_free_pages m1 = mi_free_pages m + 2 ^ order"
    using inv ok(5) by (simp add: pmm_inv_def)
  moreover have "pmm_ok m1" "pmm_free m1 = free_set fl'" "pmm_merged m1 \<longleftrightarrow> coalesced fl'"
    using inv pmm_free_eq pmm_merged_eq by (auto simp: pmm_ok_def pmm_inv_def)
  ultimately show ?thesis
    using run tot free free' co mrg by auto
qed



section \<open>Reference counts\<close>

lemma set_refcount_simps [simp]:
  "total_pages (set_refcount m p n) = total_pages m"
  "zone_of (set_refcount m p n) = zone_of m"
  "mi_free_pages (set_refcount m p n) = mi_free_pages m"
  "nxt_at (set_refcount m p n) q = nxt_at m q" "prv_at (set_refcount m p n) q = prv_at m q"
  "pg_flags (page_array (set_refcount m p n) q) = pg_flags (page_array m q)"
  "pg_order (page_array (set_refcount m p n) q) = pg_order (page_array m q)"
  by (auto simp: set_refcount_def)

lemma pmm_free_set_refcount [simp]: "pmm_free (set_refcount m p n) = pmm_free m"
  by (simp add: pmm_free_def)

lemma pmm_ok_set_refcount:
  assumes "pmm_ok m"
  shows "pmm_ok (set_refcount m p n)"
proof -
  obtain fl where ok: "pmm_rep fl m" "blocks_ok (total_pages m) fl" "total_pages m \<le> 2 ^ 52"
      "z_free_pages (zone_of m) = of_nat (card (free_set fl))"
      "mi_free_pages m = of_nat (card (free_set fl))"
    using assms by (rule pmm_okE)
  have "pmm_rep fl (set_refcount m p n)"
    by (rule pmm_rep_cong [OF ok(1)]) simp_all
  with ok show ?thesis
    by (intro pmm_okI) simp_all
qed




text \<open>A defect of the merge loop: the buddy's descriptor is read without comparing its number with the
  number of page frames, so freeing the last frame of a memory whose size is not a multiple of the
  top block size reads past the descriptor array.\<close>

theorem free_pages_past_the_array:
  "pmm_ok (pmm_init_blank 1025 9) \<and> 1024 < total_pages (pmm_init_blank 1025 9) \<and>
   1024 \<notin> pmm_free (pmm_init_blank 1025 9) \<and>
   free_pages (pmm_init_blank 1025 9) (pfn_to_phys 1024) 0 = None"
proof -
  have "get_buddy_pfn 1024 0 = 1025"
    by (simp add: get_buddy_pfn_def)
  then have "free_merge m 1024 0 = None" if "total_pages m = 1025" for m
    using that by (intro free_merge_out) (simp_all add: MAX_ORDER_def)
  moreover have "phys_to_pfn (pfn_to_phys 1024) = 1024" by (simp add: pfn_to_phys_inverse)
  moreover have "IS_ALIGNED (pfn_to_phys 1024) (push_bit 0 PAGE_SIZE)"
    using phys_aligned_iff [of 0 1024] by simp
  ultimately have "free_pages (pmm_init_blank 1025 9) (pfn_to_phys 1024) 0 = None"
    using pfn_to_phys_eq_0 [of 1024] by (simp add: free_pages_def Let_def)
  then show ?thesis
    using pmm_ok_blank [of 1025 9] by (simp add: pmm_free_blank)
qed

end
