(* ===== verification/Page_Source.thy ===== *)
theory Page_Source
  imports Pmm_Correct
begin

text \<open>
  What the rest of the memory system relies on of the physical page allocator: one page frame at
  a time, taken from and given back to a set of free frames.  The interface is a locale, its laws
  are what \<^verbatim>\<open>vmm.c\<close> and \<^verbatim>\<open>slab.c\<close> use, and the buddy allocator of \<open>Pmm\<close> is an instance.
\<close>

definition alloc_page :: "mem_info \<Rightarrow> u64 \<times> mem_info" where
  "alloc_page m = alloc_pages m 0"

definition free_page :: "mem_info \<Rightarrow> u64 \<Rightarrow> mem_info option" where
  "free_page m phys_addr = free_pages m phys_addr 0"

locale page_source =
  fixes alloc :: "'s \<Rightarrow> u64 \<times> 's"
    and free :: "'s \<Rightarrow> u64 \<Rightarrow> 's option"
    and frames :: "'s \<Rightarrow> nat set"
    and frame_count :: "'s \<Rightarrow> nat"
    and good :: "'s \<Rightarrow> bool"
  assumes alloc_good: "good s \<Longrightarrow> alloc s = (p, s') \<Longrightarrow> good s' \<and> frame_count s' = frame_count s"
    and alloc_fail: "good s \<Longrightarrow> alloc s = (0, s') \<Longrightarrow> s' = s"
    and alloc_frame: "good s \<Longrightarrow> alloc s = (p, s') \<Longrightarrow> p \<noteq> 0 \<Longrightarrow>
      p = pfn_to_phys (phys_to_pfn p) \<and> phys_to_pfn p \<in> frames s \<and> frames s' = frames s - {phys_to_pfn p}"
    and free_frame: "good s \<Longrightarrow> 0 < q \<Longrightarrow> q < frame_count s \<Longrightarrow> q \<notin> frames s \<Longrightarrow>
      \<exists>s'. free s (pfn_to_phys q) = Some s' \<and> good s' \<and> frame_count s' = frame_count s \<and>
           frames s' = insert q (frames s)"
    and alloc_complete: "good s \<Longrightarrow> alloc s = (0, s') \<Longrightarrow> frames s = {}"
    and frames_in_range: "good s \<Longrightarrow> q \<in> frames s \<Longrightarrow> 0 < q \<and> q < frame_count s"
    and frame_count_small: "good s \<Longrightarrow> frame_count s \<le> 2 ^ 52"
begin

lemma frames_finite: "good s \<Longrightarrow> finite (frames s)"
  using frames_in_range finite_subset [of "frames s" "{..<frame_count s}"] by auto

text \<open>An allocated address, read back as a frame number, stays clear of the later free set.\<close>

lemma alloc_result:
  assumes "good s" and "alloc s = (p, s')" and "p \<noteq> 0"
  obtains q where "p = pfn_to_phys q" "phys_to_pfn p = q" "0 < q" "q < frame_count s" "q < 2 ^ 52"
    "q \<in> frames s" "frames s' = frames s - {q}" "good s'" "frame_count s' = frame_count s"
  using that alloc_frame [OF assms] alloc_good [OF assms(1,2)] frames_in_range [OF assms(1)]
    frame_count_small [OF assms(1)] by (metis less_le_trans)

lemma alloc_then_free:
  assumes "good s" and "alloc s = (p, s')" and "p \<noteq> 0"
  shows "\<exists>s''. free s' p = Some s'' \<and> good s'' \<and> frame_count s'' = frame_count s \<and> frames s'' = frames s"
proof -
  obtain q where q: "p = pfn_to_phys q" "0 < q" "q < frame_count s" "q \<in> frames s"
      "frames s' = frames s - {q}" "good s'" "frame_count s' = frame_count s"
    using alloc_result [OF assms] by metis
  then show ?thesis
    using free_frame [of s' q] by (auto simp: insert_absorb)
qed

end

definition pmm_good :: "mem_info \<Rightarrow> bool" where
  "pmm_good m \<longleftrightarrow> pmm_ok m \<and> 2 ^ MAX_ORDER dvd total_pages m"

lemma pmm_free_bound:
  assumes "pmm_ok m" and "q \<in> pmm_free m"
  shows "0 < q \<and> q < total_pages m"
proof -
  obtain fl where "blocks_ok (total_pages m) fl" "pmm_free m = free_set fl"
    using assms(1) by (rule pmm_okE)
  moreover from this obtain k p where p: "p \<in> set (fl k)" "q \<in> block p k"
    using assms(2) by (auto simp: free_set_def)
  ultimately have "0 < p" "p + 2 ^ k \<le> total_pages m"
    by (simp_all add: blocks_ok_def)
  with p show ?thesis by (simp add: block_def)
qed

lemma alloc_page_none:
  assumes "pmm_ok m" and "alloc_pages m 0 = (0, m')"
  shows "pmm_free m = {}"
proof -
  obtain fl where ok: "pmm_rep fl m" "blocks_ok (total_pages m) fl" "total_pages m \<le> 2 ^ 52"
      "z_free_pages (zone_of m) = of_nat (card (free_set fl))"
      "mi_free_pages m = of_nat (card (free_set fl))" and free: "pmm_free m = free_set fl"
    using assms(1) by (rule pmm_okE)
  have "MAX_ORDER < alloc_find_order (zone_of m) 0"
  proof (rule ccontr)
    assume "\<not> MAX_ORDER < alloc_find_order (zone_of m) 0"
    then obtain p m1 where "alloc_pages m 0 = (pfn_to_phys p, m1)" "0 < p" "p + 2 ^ 0 \<le> total_pages m"
      using alloc_pages_some [OF ok, of 0] by (metis not_less le0)
    then show False
      using assms(2) ok(3) pfn_to_phys_eq_0 [of p] by simp
  qed
  then have "fl k = []" for k
    using alloc_pages_none [OF ok(1), of 0 k] by simp
  then show ?thesis by (simp add: free free_set_def)
qed

interpretation pmm: page_source alloc_page free_page pmm_free total_pages pmm_good
proof
  fix s p s'
  assume good: "pmm_good s" and run: "alloc_page s = (p, s')"
  note spec = alloc_pages_spec [of s 0 p s'] good run
  show "pmm_good s' \<and> total_pages s' = total_pages s"
    using spec by (simp add: pmm_good_def alloc_page_def)
  show "p = pfn_to_phys (phys_to_pfn p) \<and> phys_to_pfn p \<in> pmm_free s \<and>
      pmm_free s' = pmm_free s - {phys_to_pfn p}" if "p \<noteq> 0"
    using spec that by (simp add: pmm_good_def alloc_page_def Let_def block_def)
next
  fix s s'
  assume "pmm_good s" "alloc_page s = (0, s')"
  then show "s' = s"
    using alloc_pages_spec [of s 0 0 s'] by (simp add: pmm_good_def alloc_page_def)
next
  fix s q
  assume "pmm_good s" "0 < q" "q < total_pages s" "q \<notin> pmm_free s"
  then show "\<exists>s'. free_page s (pfn_to_phys q) = Some s' \<and> pmm_good s' \<and> total_pages s' = total_pages s \<and>
      pmm_free s' = insert q (pmm_free s)"
    using free_pages_restores [of s 0 q] by (auto simp: pmm_good_def free_page_def block_def)
next
  fix s s'
  assume "pmm_good s" "alloc_page s = (0, s')"
  then show "pmm_free s = {}"
    by (intro alloc_page_none) (simp_all add: pmm_good_def alloc_page_def)
next
  fix s q
  assume "pmm_good s" "q \<in> pmm_free s"
  then show "0 < q \<and> q < total_pages s"
    using pmm_free_bound unfolding pmm_good_def by blast
next
  fix s
  assume "pmm_good s"
  then show "total_pages s \<le> 2 ^ 52"
    by (auto simp: pmm_good_def elim: pmm_okE)
qed

end
