(* ===== verification/Vmm.thy ===== *)
theory Vmm
  imports Page_Source
begin

text \<open>
  The virtual memory manager, \<^verbatim>\<open>kernel/mm/vmm.c\<close> and \<^verbatim>\<open>vmm.h\<close>: walking, extending and changing
  the four levels of x86_64 page tables.

  The state holds the page allocator, the register CR3 and the memory of the page tables, as a
  function from the physical address of a table and an index to the 64-bit entry.  A table is
  used, as in the code, through its virtual address: \<open>pt_read\<close> and \<open>pt_write\<close> are \<^verbatim>\<open>table[i]\<close>, and
  a pointer to an entry is a table with an index.  The flush of the translation buffer after a
  change of an entry has no counterpart, since the model translates from the tables.
\<close>

section \<open>Entries, indices and addresses\<close>

abbreviation (input) PTE_PRESENT :: u64 where "PTE_PRESENT \<equiv> 1"
abbreviation (input) PTE_WRITABLE :: u64 where "PTE_WRITABLE \<equiv> 2"
abbreviation (input) PTE_HUGE :: u64 where "PTE_HUGE \<equiv> 128"
abbreviation (input) PTE_GLOBAL :: u64 where "PTE_GLOBAL \<equiv> 256"
abbreviation (input) PTE_KERNEL_RW :: u64 where "PTE_KERNEL_RW \<equiv> 259"

definition PTE_ADDR_MASK :: u64 where
  "PTE_ADDR_MASK = 0x000FFFFFFFFFF000"

definition PML4_INDEX :: "u64 \<Rightarrow> u64" where
  "PML4_INDEX addr = drop_bit 39 addr AND 0x1FF"

definition PDPT_INDEX :: "u64 \<Rightarrow> u64" where
  "PDPT_INDEX addr = drop_bit 30 addr AND 0x1FF"

definition PD_INDEX :: "u64 \<Rightarrow> u64" where
  "PD_INDEX addr = drop_bit 21 addr AND 0x1FF"

definition PT_INDEX :: "u64 \<Rightarrow> u64" where
  "PT_INDEX addr = drop_bit 12 addr AND 0x1FF"

definition PAGE_OFFSET :: "u64 \<Rightarrow> u64" where
  "PAGE_OFFSET addr = addr AND 0xFFF"

definition ENTRIES_PER_TABLE :: u64 where
  "ENTRIES_PER_TABLE = 512"

definition KERNEL_VIRT_BASE :: u64 where
  "KERNEL_VIRT_BASE = 0xFFFFFFFF80000000"

definition KERNEL_PHYS_BASE :: u64 where
  "KERNEL_PHYS_BASE = 0x200000"

definition KERNEL_PHYS_TO_VIRT :: "u64 \<Rightarrow> u64" where
  "KERNEL_PHYS_TO_VIRT phys = phys - KERNEL_PHYS_BASE + KERNEL_VIRT_BASE"

definition KERNEL_VIRT_TO_PHYS :: "u64 \<Rightarrow> u64" where
  "KERNEL_VIRT_TO_PHYS virt = virt - KERNEL_VIRT_BASE + KERNEL_PHYS_BASE"

definition phys_to_virt :: "u64 \<Rightarrow> u64" where
  "phys_to_virt phys =
     (if KERNEL_PHYS_BASE \<le> phys \<and> phys < KERNEL_PHYS_BASE + 0x8000000
      then KERNEL_PHYS_TO_VIRT phys else phys)"

definition table_to_phys :: "u64 \<Rightarrow> u64" where
  "table_to_phys virt = (if KERNEL_VIRT_BASE \<le> virt then KERNEL_VIRT_TO_PHYS virt else virt)"

record vm_state =
  vm_pmm :: mem_info
  vm_cr3 :: u64
  pt_mem :: "u64 \<Rightarrow> u64 \<Rightarrow> u64"

definition pt_read :: "vm_state \<Rightarrow> u64 \<Rightarrow> u64 \<Rightarrow> u64" where
  "pt_read s table i = pt_mem s (table_to_phys table) i"

definition pt_write :: "vm_state \<Rightarrow> u64 \<Rightarrow> u64 \<Rightarrow> u64 \<Rightarrow> vm_state" where
  "pt_write s table i e =
     s\<lparr>pt_mem := (pt_mem s)(table_to_phys table := (pt_mem s (table_to_phys table))(i := e))\<rparr>"

section \<open>Operations\<close>

definition get_pml4 :: "vm_state \<Rightarrow> u64" where
  "get_pml4 s = phys_to_virt (vm_cr3 s AND PTE_ADDR_MASK)"

definition alloc_page_table :: "vm_state \<Rightarrow> u64 option \<times> vm_state" where
  "alloc_page_table s =
     (case alloc_page (vm_pmm s) of (phys, m) \<Rightarrow>
        if phys = 0 then (None, s\<lparr>vm_pmm := m\<rparr>)
        else
          let table = phys_to_virt phys;
              t = table_to_phys table in
          (Some table,
           s\<lparr>vm_pmm := m,
             pt_mem := (pt_mem s)(t := (\<lambda>i. if i < ENTRIES_PER_TABLE then 0 else pt_mem s t i))\<rparr>))"

definition pte_to_table :: "u64 \<Rightarrow> u64 option" where
  "pte_to_table entry =
     (if \<not> test_flag entry PTE_PRESENT then None else Some (phys_to_virt (entry AND PTE_ADDR_MASK)))"

text \<open>One level of \<open>vmm_get_pte\<close>: the table an entry points to, allocated first if the entry is
  not present and \<open>create\<close> asks for it.\<close>

definition get_or_create :: "vm_state \<Rightarrow> u64 \<Rightarrow> u64 \<Rightarrow> bool \<Rightarrow> u64 option \<times> vm_state" where
  "get_or_create s table i create =
     (let e = pt_read s table i in
      if test_flag e PTE_PRESENT then (pte_to_table e, s)
      else if create then
        (case alloc_page_table s of
           (None, s1) \<Rightarrow> (None, s1)
         | (Some t, s1) \<Rightarrow>
             (Some t, pt_write s1 table i (table_to_phys t OR PTE_PRESENT OR PTE_WRITABLE)))
      else (None, s))"

definition is_huge :: "u64 \<Rightarrow> bool" where
  "is_huge e \<longleftrightarrow> test_flag e PTE_PRESENT \<and> test_flag e PTE_HUGE"

definition vmm_get_pte :: "vm_state \<Rightarrow> u64 \<Rightarrow> bool \<Rightarrow> (u64 \<times> u64) option \<times> vm_state" where
  "vmm_get_pte s virt create =
     (case get_or_create s (get_pml4 s) (PML4_INDEX virt) create of
        (None, s1) \<Rightarrow> (None, s1)
      | (Some pdpt, s1) \<Rightarrow>
          if is_huge (pt_read s1 pdpt (PDPT_INDEX virt)) then (None, s1)
          else (case get_or_create s1 pdpt (PDPT_INDEX virt) create of
             (None, s2) \<Rightarrow> (None, s2)
           | (Some pd, s2) \<Rightarrow>
               if is_huge (pt_read s2 pd (PD_INDEX virt)) then (None, s2)
               else (case get_or_create s2 pd (PD_INDEX virt) create of
                  (None, s3) \<Rightarrow> (None, s3)
                | (Some pt, s3) \<Rightarrow> (Some (pt, PT_INDEX virt), s3))))"

definition vmm_map_page :: "vm_state \<Rightarrow> u64 \<Rightarrow> u64 \<Rightarrow> u64 \<Rightarrow> int \<times> vm_state" where
  "vmm_map_page s virt0 phys0 flags =
     (let virt = virt0 AND NOT 0xFFF;
          phys = phys0 AND NOT 0xFFF in
      case vmm_get_pte s virt True of
        (None, s1) \<Rightarrow> (-1, s1)
      | (Some (pt, i), s1) \<Rightarrow>
          (0, pt_write s1 pt i
                ((phys AND PTE_ADDR_MASK) OR (flags AND NOT PTE_ADDR_MASK) OR PTE_PRESENT)))"

definition vmm_unmap_page :: "vm_state \<Rightarrow> u64 \<Rightarrow> u64 \<times> vm_state" where
  "vmm_unmap_page s virt0 =
     (let virt = virt0 AND NOT 0xFFF in
      case vmm_get_pte s virt False of
        (None, s1) \<Rightarrow> (0, s1)
      | (Some (pt, i), s1) \<Rightarrow>
          if \<not> test_flag (pt_read s1 pt i) PTE_PRESENT then (0, s1)
          else (pt_read s1 pt i AND PTE_ADDR_MASK, pt_write s1 pt i 0))"

definition vmm_unmap_pages :: "vm_state \<Rightarrow> u64 \<Rightarrow> nat \<Rightarrow> vm_state" where
  "vmm_unmap_pages s virt count =
     fold (\<lambda>i s. snd (vmm_unmap_page s (virt + of_nat i * PAGE_SIZE))) [0..<count] s"

text \<open>The loop of \<open>vmm_map_pages\<close> from index \<open>i\<close> with \<open>n\<close> pages left.\<close>

fun map_pages_from :: "nat \<Rightarrow> nat \<Rightarrow> vm_state \<Rightarrow> u64 \<Rightarrow> u64 \<Rightarrow> u64 \<Rightarrow> int \<times> vm_state" where
  "map_pages_from i 0 s virt phys flags = (0, s)"
| "map_pages_from i (Suc n) s virt phys flags =
     (case vmm_map_page s (virt + of_nat i * PAGE_SIZE) (phys + of_nat i * PAGE_SIZE) flags of
        (r, s1) \<Rightarrow>
          if r \<noteq> 0 then (-1, vmm_unmap_pages s1 virt i)
          else map_pages_from (Suc i) n s1 virt phys flags)"

definition vmm_map_pages :: "vm_state \<Rightarrow> u64 \<Rightarrow> u64 \<Rightarrow> nat \<Rightarrow> u64 \<Rightarrow> int \<times> vm_state" where
  "vmm_map_pages s virt phys count flags = map_pages_from 0 count s virt phys flags"

text \<open>The translation; \<open>pte_to_table\<close> is used there only on present entries.\<close>

definition next_table :: "u64 \<Rightarrow> u64" where
  "next_table e = phys_to_virt (e AND PTE_ADDR_MASK)"

definition vmm_get_phys :: "vm_state \<Rightarrow> u64 \<Rightarrow> u64" where
  "vmm_get_phys s virt =
     (let pml4e = pt_read s (get_pml4 s) (PML4_INDEX virt) in
      if \<not> test_flag pml4e PTE_PRESENT then 0
      else
        let pdpte = pt_read s (next_table pml4e) (PDPT_INDEX virt) in
        if \<not> test_flag pdpte PTE_PRESENT then 0
        else if test_flag pdpte PTE_HUGE
        then (pdpte AND 0xFFFFFFC0000000) OR (virt AND 0x3FFFFFFF)
        else
          let pde = pt_read s (next_table pdpte) (PD_INDEX virt) in
          if \<not> test_flag pde PTE_PRESENT then 0
          else if test_flag pde PTE_HUGE
          then (pde AND 0xFFFFFFFE00000) OR (virt AND 0x1FFFFF)
          else
            let pte = pt_read s (next_table pde) (PT_INDEX virt) in
            if \<not> test_flag pte PTE_PRESENT then 0
            else (pte AND PTE_ADDR_MASK) OR PAGE_OFFSET virt)"

definition PAGE_SIZE_2M :: u64 where
  "PAGE_SIZE_2M = 0x200000"

definition PAGE_SIZE_1G :: u64 where
  "PAGE_SIZE_1G = 0x40000000"

definition vmm_get_mapping_size :: "vm_state \<Rightarrow> u64 \<Rightarrow> u64" where
  "vmm_get_mapping_size s virt =
     (let pml4e = pt_read s (get_pml4 s) (PML4_INDEX virt) in
      if \<not> test_flag pml4e PTE_PRESENT then 0
      else
        let pdpte = pt_read s (next_table pml4e) (PDPT_INDEX virt) in
        if \<not> test_flag pdpte PTE_PRESENT then 0
        else if test_flag pdpte PTE_HUGE then PAGE_SIZE_1G
        else
          let pde = pt_read s (next_table pdpte) (PD_INDEX virt) in
          if \<not> test_flag pde PTE_PRESENT then 0
          else if test_flag pde PTE_HUGE then PAGE_SIZE_2M
          else
            let pte = pt_read s (next_table pde) (PT_INDEX virt) in
            if \<not> test_flag pte PTE_PRESENT then 0 else PAGE_SIZE)"

definition vmm_is_mapped :: "vm_state \<Rightarrow> u64 \<Rightarrow> bool" where
  "vmm_is_mapped s virt \<longleftrightarrow> vmm_get_mapping_size s virt \<noteq> 0"

end
