(* ===== verification/Vmm_Correct.thy ===== *)
theory Vmm_Correct
  imports Vmm
begin

text \<open>
  Correctness of the page table operations.  The walk of an address is described by \<open>table_of\<close>,
  the physical address of the table it reaches at each depth; the invariant \<open>vm_ok\<close> says that the
  tables form a tree (no table is reached by two different walks) outside the free page frames.
  Under it, a mapping or unmapping changes the translation of exactly one page.
\<close>

section \<open>Walks\<close>

definition lvl_index :: "nat \<Rightarrow> u64 \<Rightarrow> u64" where
  "lvl_index d v = drop_bit (39 - 9 * d) v AND 0x1FF"

lemma lvl_index_names:
  "PML4_INDEX v = lvl_index 0 v" "PDPT_INDEX v = lvl_index 1 v"
  "PD_INDEX v = lvl_index 2 v" "PT_INDEX v = lvl_index 3 v"
  by (simp_all add: lvl_index_def PML4_INDEX_def PDPT_INDEX_def PD_INDEX_def PT_INDEX_def)

lemma lvl_index_less: "lvl_index d v < ENTRIES_PER_TABLE"
proof -
  have "lvl_index d v \<le> 0x1FF"
    unfolding lvl_index_def by (rule word_and_le1)
  then show ?thesis
    unfolding ENTRIES_PER_TABLE_def by (rule le_less_trans) simp
qed

text \<open>The page of an address: the 36 bits the four indices are made of.\<close>

definition page_of :: "u64 \<Rightarrow> u64" where
  "page_of v = take_bit 36 (drop_bit 12 v)"

lemma bit_lvl_index: "d \<le> 3 \<Longrightarrow> bit (lvl_index d v) n \<longleftrightarrow> n < 9 \<and> bit v (39 - 9 * d + n)"
proof -
  have "lvl_index d v = take_bit 9 (drop_bit (39 - 9 * d) v)"
    by (simp add: lvl_index_def take_bit_eq_mask mask_eq_decr_exp)
  then show "bit (lvl_index d v) n \<longleftrightarrow> n < 9 \<and> bit v (39 - 9 * d + n)"
    by (simp add: bit_simps)
qed

lemma page_of_eq_iff: "page_of v = page_of w \<longleftrightarrow> (\<forall>d \<le> 3. lvl_index d v = lvl_index d w)"
proof
  assume eq: "page_of v = page_of w"
  have low: "bit v (12 + n) = bit w (12 + n)" if "n < 36" for n
    using arg_cong [OF eq, of "\<lambda>x. bit x n"] that by (simp add: page_of_def bit_simps)
  have bits: "bit v m = bit w m" if "12 \<le> m" "m < 48" for m
    using low [of "m - 12"] that by simp
  show "\<forall>d \<le> 3. lvl_index d v = lvl_index d w"
    by (auto intro!: bit_word_eqI simp: bit_lvl_index bits)
next
  assume eq: "\<forall>d \<le> 3. lvl_index d v = lvl_index d w"
  have bits: "bit v (39 - 9 * d + n) = bit w (39 - 9 * d + n)" if "d \<le> 3" "n < 9" for d n
    using eq that bit_lvl_index [of d v n] bit_lvl_index [of d w n] by auto
  have "bit v (12 + n) = bit w (12 + n)" if "n < 36" for n
  proof -
    have "12 + n = 39 - 9 * (3 - n div 9) + n mod 9" "3 - n div 9 \<le> 3" "n mod 9 < 9"
      using that by presburger+
    then show ?thesis using bits by metis
  qed
  then show "page_of v = page_of w"
    by (auto intro!: bit_word_eqI simp: page_of_def bit_simps)
qed

lemma drop_bit_and_not_mask: "drop_bit n (v AND NOT (mask n)) = drop_bit n (v :: 'a::len word)"
  by (rule bit_word_eqI) (auto simp: bit_simps dest: bit_imp_le_length)

lemma page_of_align [simp]: "page_of (v AND NOT 0xFFF) = page_of v"
proof -
  have "(0xFFF :: u64) = mask 12" by (simp add: mask_eq_decr_exp)
  then show ?thesis
    by (simp only: page_of_def drop_bit_and_not_mask)
qed

lemma page_of_align' [simp]: "page_of (v AND - 4096) = page_of v"
  using page_of_align [of v] by simp

lemma unat_page_of: "unat (page_of v) = unat v div 4096 mod 2 ^ 36"
proof -
  have "unat (drop_bit 12 v) = drop_bit 12 (unat v)"
    by (rule unat_drop_bit_eq)
  then have "unat (drop_bit 12 v) = unat v div 4096"
    by (simp only: drop_bit_eq_div) simp
  then show ?thesis
    unfolding page_of_def by (metis take_bit_eq_mod unsigned_take_bit_eq)
qed

lemma unat_page_of_step: "unat (page_of (v + of_nat i * PAGE_SIZE)) = (unat v div 4096 + i) mod 2 ^ 36"
proof -
  have "unat (v + of_nat i * PAGE_SIZE) = (unat v + i * 4096) mod 2 ^ 64"
    by (simp add: unat_word_ariths PAGE_SIZE_def unat_of_nat mod_simps)
  moreover have "n mod 2 ^ 64 div 2 ^ 12 mod 2 ^ 36 = n div 2 ^ 12 mod (2 ^ 36 :: nat)" for n :: nat
  proof -
    have "take_bit 36 (drop_bit 12 (take_bit 64 n)) = take_bit 36 (drop_bit 12 n)"
      by (simp add: drop_bit_take_bit)
    then show ?thesis by (simp only: take_bit_eq_mod drop_bit_eq_div)
  qed
  ultimately show ?thesis by (simp add: unat_page_of add.commute)
qed

lemma mod_add_left_inj:
  fixes a i j m :: nat
  assumes "(a + i) mod m = (a + j) mod m" "i < m" "j < m"
  shows "i = j"
  using assms
proof (induction i j rule: linorder_wlog)
  case (le i j)
  then have "m dvd j - i"
    using mod_eq_dvd_iff_nat [of "a + i" "a + j" m] by simp
  then show ?case
    using le dvd_imp_le [of m "j - i"] by (cases "i = j") auto
qed simp

lemma page_of_step_inj:
  assumes "page_of (v + of_nat i * PAGE_SIZE) = page_of (v + of_nat j * PAGE_SIZE)" "i < 2 ^ 36" "j < 2 ^ 36"
  shows "i = j"
proof -
  have "(unat v div 4096 + i) mod 2 ^ 36 = (unat v div 4096 + j) mod 2 ^ 36"
    using unat_page_of_step assms(1) by metis
  with assms(2,3) show ?thesis
    using mod_add_left_inj by blast
qed

fun table_of :: "vm_state \<Rightarrow> nat \<Rightarrow> u64 \<Rightarrow> u64 option" where
  "table_of s 0 v = Some (vm_cr3 s AND PTE_ADDR_MASK)"
| "table_of s (Suc d) v =
     (case table_of s d v of None \<Rightarrow> None
      | Some t \<Rightarrow>
          let e = pt_mem s t (lvl_index d v) in
          if test_flag e PTE_PRESENT \<and> \<not> (0 < d \<and> test_flag e PTE_HUGE)
          then Some (e AND PTE_ADDR_MASK) else None)"

definition entry :: "vm_state \<Rightarrow> nat \<Rightarrow> u64 \<Rightarrow> u64" where
  "entry s d v = (case table_of s d v of None \<Rightarrow> 0 | Some t \<Rightarrow> pt_mem s t (lvl_index d v))"

lemma table_of_Suc:
  "table_of s (Suc d) v =
     (let e = entry s d v in
      if test_flag e PTE_PRESENT \<and> \<not> (0 < d \<and> test_flag e PTE_HUGE)
      then Some (e AND PTE_ADDR_MASK) else None)"
  by (simp add: entry_def Let_def split: option.splits)

lemma table_of_cong:
  assumes "vm_cr3 s' = vm_cr3 s" and "\<And>j. j < d \<Longrightarrow> entry s' j v = entry s j v"
  shows "table_of s' d v = table_of s d v"
  using assms by (cases d) (simp_all add: table_of_Suc del: table_of.simps(2))

lemma table_of_masked: "table_of s d v = Some t \<Longrightarrow> t AND PTE_ADDR_MASK = t"
  by (cases d) (auto simp: table_of_Suc Let_def and.assoc split: if_splits simp del: table_of.simps(2))

lemma masked_less: "t AND PTE_ADDR_MASK = t \<Longrightarrow> t < 2 ^ 52"
proof -
  assume "t AND PTE_ADDR_MASK = t"
  then have "t \<le> PTE_ADDR_MASK"
    by (metis word_and_le1)
  then show ?thesis
    unfolding PTE_ADDR_MASK_def by (rule le_less_trans) simp
qed

lemma masked_flags:
  assumes "t AND PTE_ADDR_MASK = t"
  shows "(t OR PTE_PRESENT OR PTE_WRITABLE) AND PTE_ADDR_MASK = t"
    and "test_flag (t OR PTE_PRESENT OR PTE_WRITABLE) PTE_PRESENT"
    and "\<not> test_flag (t OR PTE_PRESENT OR PTE_WRITABLE) PTE_HUGE"
proof -
  have "(t OR PTE_PRESENT OR PTE_WRITABLE) AND PTE_ADDR_MASK = (t AND PTE_ADDR_MASK) OR ((PTE_PRESENT OR PTE_WRITABLE) AND PTE_ADDR_MASK)"
    by (rule bit.conj_disj_distrib2)
  then show "(t OR PTE_PRESENT OR PTE_WRITABLE) AND PTE_ADDR_MASK = t"
    using assms by (simp add: PTE_ADDR_MASK_def)
  show "test_flag (t OR PTE_PRESENT OR PTE_WRITABLE) PTE_PRESENT"
    by (simp add: test_flag_def bit.conj_disj_distrib2)
  have "t AND PTE_HUGE = 0"
    by (subst assms [symmetric]) (simp add: and.assoc PTE_ADDR_MASK_def)
  then show "\<not> test_flag (t OR PTE_PRESENT OR PTE_WRITABLE) PTE_HUGE"
    by (simp add: test_flag_def bit.conj_disj_distrib2)
qed

lemma table_to_phys_to_virt:
  assumes "t < 2 ^ 52"
  shows "table_to_phys (phys_to_virt t) = t"
proof -
  have "\<not> KERNEL_VIRT_BASE \<le> t"
    using assms unfolding KERNEL_VIRT_BASE_def not_le by (rule less_trans) simp
  moreover have "KERNEL_VIRT_BASE \<le> KERNEL_PHYS_TO_VIRT t"
    if "KERNEL_PHYS_BASE \<le> t" "t < KERNEL_PHYS_BASE + 0x8000000"
    using that
    by (simp add: word_le_nat_alt word_less_nat_alt unat_word_ariths unat_sub_if_size
        KERNEL_PHYS_TO_VIRT_def KERNEL_PHYS_BASE_def KERNEL_VIRT_BASE_def)
  ultimately show ?thesis
    by (auto simp: phys_to_virt_def table_to_phys_def KERNEL_PHYS_TO_VIRT_def KERNEL_VIRT_TO_PHYS_def)
qed

section \<open>The tree of tables\<close>

definition tree_ok :: "vm_state \<Rightarrow> bool" where
  "tree_ok s \<longleftrightarrow>
     (\<forall>d d' v v' t. d \<le> 3 \<and> d' \<le> 3 \<and> table_of s d v = Some t \<and> table_of s d' v' = Some t \<longrightarrow>
        d = d' \<and> (\<forall>j < d. lvl_index j v = lvl_index j v'))"

definition vm_ok :: "vm_state \<Rightarrow> bool" where
  "vm_ok s \<longleftrightarrow> pmm_good (vm_pmm s) \<and> total_pages (vm_pmm s) \<le> 2 ^ 40 \<and> tree_ok s \<and>
     (\<forall>d v t. d \<le> 3 \<and> table_of s d v = Some t \<longrightarrow> phys_to_pfn t \<notin> pmm_free (vm_pmm s))"

text \<open>The page frames that hold a table.\<close>

definition is_table :: "vm_state \<Rightarrow> nat \<Rightarrow> bool" where
  "is_table s q \<longleftrightarrow> (\<exists>d v t. d \<le> 3 \<and> table_of s d v = Some t \<and> phys_to_pfn t = q)"

lemma tree_okD:
  assumes "tree_ok s" "table_of s d v = Some t" "table_of s d' v' = Some t" "d \<le> 3" "d' \<le> 3"
  shows "d = d'" and "j < d \<Longrightarrow> lvl_index j v = lvl_index j v'"
  using assms unfolding tree_ok_def by blast+

lemma tree_ok_cong:
  "(\<And>k w. k \<le> 3 \<Longrightarrow> table_of s' k w = table_of s k w) \<Longrightarrow> tree_ok s' = tree_ok s"
  by (simp add: tree_ok_def cong: conj_cong)

lemma table_of_prefix:
  "(\<And>j. j < d \<Longrightarrow> lvl_index j v = lvl_index j w) \<Longrightarrow> table_of s d v = table_of s d w"
proof (induction d)
  case (Suc d)
  have "lvl_index d v = lvl_index d w" "table_of s d v = table_of s d w"
    using Suc by simp_all
  then show ?case by (simp split: option.splits)
qed simp

definition set_entry :: "vm_state \<Rightarrow> u64 \<Rightarrow> u64 \<Rightarrow> u64 \<Rightarrow> vm_state" where
  "set_entry s t i e = s\<lparr>pt_mem := (pt_mem s)(t := (pt_mem s t)(i := e))\<rparr>"

lemma set_entry_simps [simp]:
  "vm_cr3 (set_entry s t i e) = vm_cr3 s" "vm_pmm (set_entry s t i e) = vm_pmm s"
  "pt_mem (set_entry s t i e) = (pt_mem s)(t := (pt_mem s t)(i := e))"
  by (simp_all add: set_entry_def)

lemma entry_set_other:
  assumes "tree_ok s" "table_of s d v = Some t" "d \<le> 3" "d' \<le> 3"
    and "d' < d \<or> \<not> (\<forall>j \<le> d. lvl_index j w = lvl_index j v)"
  shows "entry (set_entry s t (lvl_index d v) e) d' w = entry s d' w"
  using assms(4,5)
proof (induction d' rule: less_induct)
  case (less d')
  let ?s = "set_entry s t (lvl_index d v) e"
  have "entry ?s j w = entry s j w" if "j < d'" for j
    using less.IH [OF that] less.prems that by auto
  then have tab: "table_of ?s d' w = table_of s d' w"
    by (intro table_of_cong) simp_all
  show ?case
  proof (cases "table_of s d' w")
    case None
    with tab show ?thesis by (simp add: entry_def)
  next
    case (Some t')
    have "\<not> (t' = t \<and> lvl_index d' w = lvl_index d v)"
    proof
      assume same: "t' = t \<and> lvl_index d' w = lvl_index d v"
      with Some have "d' = d" "\<And>j. j < d' \<Longrightarrow> lvl_index j w = lvl_index j v"
        using tree_okD [OF assms(1) _ assms(2) less.prems(1) assms(3)] by auto
      with same less.prems(2) show False
        by (metis le_neq_implies_less less_irrefl)
    qed
    with tab Some show ?thesis by (auto simp: entry_def)
  qed
qed

lemma entry_set_same:
  assumes "tree_ok s" "table_of s d v = Some t" "d \<le> 3"
    and "\<forall>j \<le> d. lvl_index j w = lvl_index j v"
  shows "entry (set_entry s t (lvl_index d v) e) d w = e"
proof -
  have "table_of (set_entry s t (lvl_index d v) e) d w = table_of s d w"
    using assms by (intro table_of_cong) (simp_all add: entry_set_other)
  also have "table_of s d w = Some t"
    using assms(2,4) table_of_prefix [of d w v s] by simp
  finally show ?thesis
    using assms(4) by (simp add: entry_def)
qed

text \<open>The leaf a walk ends at: the depth of the entry that gives the frame, and that entry.\<close>

definition leaf :: "vm_state \<Rightarrow> u64 \<Rightarrow> (nat \<times> u64) option" where
  "leaf s v =
     (if is_huge (entry s 1 v) then Some (1, entry s 1 v)
      else if is_huge (entry s 2 v) then Some (2, entry s 2 v)
      else if test_flag (entry s 3 v) PTE_PRESENT then Some (3, entry s 3 v) else None)"

lemma leaf_cong: "(\<And>d. d \<le> 3 \<Longrightarrow> entry s' d v = entry s d v) \<Longrightarrow> leaf s' v = leaf s v"
  by (simp add: leaf_def)

lemma pt_read_table: "table_of s d v = Some t \<Longrightarrow> pt_read s (phys_to_virt t) (lvl_index d v) = entry s d v"
  using table_of_masked [of s d v t] masked_less [of t]
  by (simp add: pt_read_def table_to_phys_to_virt entry_def)

lemma pt_write_table:
  "table_of s d v = Some t \<Longrightarrow> pt_write s' (phys_to_virt t) i e = set_entry s' t i e"
  using table_of_masked [of s d v t] masked_less [of t]
  by (simp add: pt_write_def table_to_phys_to_virt set_entry_def)

lemma pt_read_root: "pt_read s (get_pml4 s) (lvl_index 0 v) = entry s 0 v"
  using pt_read_table [of s 0 v] by (simp add: get_pml4_def)

lemma table_of_next:
  assumes "test_flag (entry s d v) PTE_PRESENT" "0 < d \<longrightarrow> \<not> test_flag (entry s d v) PTE_HUGE"
  shows "table_of s (Suc d) v = Some (entry s d v AND PTE_ADDR_MASK)"
  using assms by (auto simp: table_of_Suc Let_def simp del: table_of.simps(2))

lemma pt_read_next:
  assumes "test_flag (entry s d v) PTE_PRESENT" "0 < d \<longrightarrow> \<not> test_flag (entry s d v) PTE_HUGE"
  shows "pt_read s (next_table (entry s d v)) (lvl_index (Suc d) v) = entry s (Suc d) v"
  unfolding next_table_def by (rule pt_read_table [OF table_of_next [OF assms]])

lemma entry_absent:
  "\<not> (test_flag (entry s d v) PTE_PRESENT \<and> \<not> (0 < d \<and> test_flag (entry s d v) PTE_HUGE)) \<Longrightarrow> entry s (Suc d) v = 0"
  by (auto simp: entry_def [of s "Suc d"] table_of_Suc Let_def simp del: table_of.simps(2))

lemma entry_after_zero:
  assumes "\<not> test_flag (entry s d v) PTE_PRESENT" "d < k"
  shows "entry s k v = 0"
  using assms(2)
proof (induction k)
  case (Suc k)
  then have "\<not> test_flag (entry s k v) PTE_PRESENT"
    using assms(1) by (cases "k = d") auto
  then show ?case by (intro entry_absent) simp
qed simp

lemma vmm_get_phys_leaf:
  "vmm_get_phys s v =
     (case leaf s v of None \<Rightarrow> 0
      | Some (d, e) \<Rightarrow>
          if d = 1 then (e AND 0xFFFFFFC0000000) OR (v AND 0x3FFFFFFF)
          else if d = 2 then (e AND 0xFFFFFFFE00000) OR (v AND 0x1FFFFF)
          else (e AND PTE_ADDR_MASK) OR PAGE_OFFSET v)"
  using pt_read_next [of s 0 v] pt_read_next [of s 1 v] pt_read_next [of s 2 v]
    entry_absent [of s 0 v] entry_absent [of s 1 v] entry_absent [of s 2 v]
  by (auto simp: vmm_get_phys_def Let_def lvl_index_names pt_read_root leaf_def is_huge_def numeral_3_eq_3 numeral_2_eq_2)

lemma vmm_get_mapping_size_leaf:
  "vmm_get_mapping_size s v =
     (case leaf s v of None \<Rightarrow> 0
      | Some (d, e) \<Rightarrow> if d = 1 then PAGE_SIZE_1G else if d = 2 then PAGE_SIZE_2M else PAGE_SIZE)"
  using pt_read_next [of s 0 v] pt_read_next [of s 1 v] pt_read_next [of s 2 v]
    entry_absent [of s 0 v] entry_absent [of s 1 v] entry_absent [of s 2 v]
  by (auto simp: vmm_get_mapping_size_def Let_def lvl_index_names pt_read_root leaf_def is_huge_def numeral_3_eq_3 numeral_2_eq_2)

lemma vmm_is_mapped_leaf: "vmm_is_mapped s v \<longleftrightarrow> leaf s v \<noteq> None"
  by (auto simp: vmm_is_mapped_def vmm_get_mapping_size_leaf PAGE_SIZE_def PAGE_SIZE_1G_def PAGE_SIZE_2M_def
      split: option.splits)

section \<open>Creating tables\<close>

lemma entry_frame:
  assumes "vm_cr3 s' = vm_cr3 s"
    and "\<And>d t. d \<le> 3 \<Longrightarrow> table_of s d w = Some t \<Longrightarrow> pt_mem s' t = pt_mem s t"
    and "d \<le> 3"
  shows "entry s' d w = entry s d w"
  using assms(3)
proof (induction d rule: less_induct)
  case (less d)
  then have "table_of s' d w = table_of s d w"
    by (intro table_of_cong assms(1)) simp
  then show ?case
    using assms(2) less.prems by (auto simp: entry_def split: option.splits)
qed

lemma pfn_to_phys_masked:
  assumes "q < 2 ^ 40"
  shows "pfn_to_phys q AND PTE_ADDR_MASK = pfn_to_phys q"
proof -
  have mask: "PTE_ADDR_MASK = push_bit 12 (mask 40)"
    by (simp add: PTE_ADDR_MASK_def mask_eq_decr_exp)
  have "take_bit 40 (of_nat q) = (of_nat q :: u64)"
    using assms by (simp add: take_bit_of_nat take_bit_nat_eq_self)
  then have "bit (of_nat q :: u64) n \<Longrightarrow> n < 40" for n
    by (metis bit_take_bit_iff)
  then show ?thesis
    unfolding mask pfn_to_phys_def PAGE_SHIFT_def
    by (intro bit_word_eqI) (auto simp: bit_simps)
qed

text \<open>What creating tables keeps: every translation, and the frames outside the free set.\<close>

definition vm_ext :: "vm_state \<Rightarrow> vm_state \<Rightarrow> bool" where
  "vm_ext s s' \<longleftrightarrow> vm_ok s' \<and> (\<forall>w. leaf s' w = leaf s w) \<and> vm_cr3 s' = vm_cr3 s \<and>
     total_pages (vm_pmm s') = total_pages (vm_pmm s) \<and> pmm_free (vm_pmm s') \<subseteq> pmm_free (vm_pmm s) \<and>
     (\<forall>q. is_table s' q \<longrightarrow> is_table s q \<or> q \<in> pmm_free (vm_pmm s))"

lemma vm_ext_refl: "vm_ok s \<Longrightarrow> vm_ext s s"
  by (simp add: vm_ext_def)

lemma vm_ext_trans: "vm_ext s s1 \<Longrightarrow> vm_ext s1 s2 \<Longrightarrow> vm_ext s s2"
  unfolding vm_ext_def by (metis subsetD subset_trans)

text \<open>Linking a fresh zeroed table at depth \<open>d\<close> below an entry that is not present.\<close>

lemma link_entry:
  assumes tree: "tree_ok s" and tab: "table_of s d v = Some t" and d: "d < 3"
    and absent: "\<not> test_flag (entry s d v) PTE_PRESENT"
    and fresh: "\<And>d w. d \<le> 3 \<Longrightarrow> table_of s d w \<noteq> Some n"
    and zero: "\<And>i. i < ENTRIES_PER_TABLE \<Longrightarrow> pt_mem s n i = 0"
    and addr: "n AND PTE_ADDR_MASK = n"
  defines "s' \<equiv> set_entry s t (lvl_index d v) (n OR PTE_PRESENT OR PTE_WRITABLE)"
  shows link_entry_leaf: "leaf s' w = leaf s w"
    and link_entry_table: "table_of s' (Suc d) v = Some n"
    and link_entry_tables: "k \<le> 3 \<Longrightarrow> table_of s' k w = Some t' \<Longrightarrow>
      table_of s k w = Some t' \<or> (k = Suc d \<and> t' = n \<and> (\<forall>j < k. lvl_index j w = lvl_index j v))"
proof -
  note e = masked_flags [OF addr]
  have other: "entry s' k w = entry s k w"
    if "k \<le> 3" "k < d \<or> \<not> (\<forall>j \<le> d. lvl_index j w = lvl_index j v)" for k w
    unfolding s'_def using entry_set_other [OF tree tab _ that] d by simp
  have same: "entry s' d w = n OR PTE_PRESENT OR PTE_WRITABLE" if "\<forall>j \<le> d. lvl_index j w = lvl_index j v" for w
    unfolding s'_def using entry_set_same [OF tree tab _ that] d by simp
  have next_table: "table_of s' (Suc d) w = Some n" if "\<forall>j \<le> d. lvl_index j w = lvl_index j v" for w
    using same [OF that] e by (subst table_of_next) simp_all
  have "n \<noteq> t" using fresh [of d v] tab d by auto
  then have zero': "entry s' (Suc d) w = 0" if "\<forall>j \<le> d. lvl_index j w = lvl_index j v" for w
    using next_table [OF that] zero [OF lvl_index_less] by (simp add: entry_def s'_def)
  then have after: "entry s' k w = 0" if "\<forall>j \<le> d. lvl_index j w = lvl_index j v" "d < k" for k w
    using that entry_after_zero [of s' "Suc d" w k] by (cases "k = Suc d") auto
  have absent': "\<not> test_flag (entry s d w) PTE_PRESENT" if "\<forall>j \<le> d. lvl_index j w = lvl_index j v" for w
    using absent that table_of_prefix [of d w v s] by (simp add: entry_def split: option.splits)
  show "leaf s' w = leaf s w"
  proof (cases "\<forall>j \<le> d. lvl_index j w = lvl_index j v")
    case False
    then show ?thesis by (intro leaf_cong other) simp_all
  next
    case True
    note f = after [OF True] same [OF True] absent' [OF True] entry_after_zero [OF absent' [OF True]] e
    consider "d = 0" | "d = 1" | "d = 2" using d by linarith
    then show ?thesis
      using f other [of 1 w] by cases (auto simp: leaf_def is_huge_def)
  qed
  show "table_of s' (Suc d) v = Some n"
    by (rule next_table) simp
  show "table_of s k w = Some t' \<or> (k = Suc d \<and> t' = n \<and> (\<forall>j < k. lvl_index j w = lvl_index j v))"
    if "k \<le> 3" "table_of s' k w = Some t'"
  proof (cases "k \<le> d \<or> \<not> (\<forall>j \<le> d. lvl_index j w = lvl_index j v)")
    case True
    then have "table_of s' k w = table_of s k w"
      using that(1) by (intro table_of_cong other) (auto simp: s'_def)
    with that show ?thesis by simp
  next
    case False
    then have agree: "\<forall>j \<le> d. lvl_index j w = lvl_index j v" and "d < k" by auto
    have "k = Suc d"
    proof (rule ccontr)
      assume "k \<noteq> Suc d"
      then obtain k' where k': "k = Suc k'" "d < k'" using \<open>d < k\<close> by (cases k) auto
      then have "entry s' k' w = 0" using after agree by simp
      then have "table_of s' k w = None"
        unfolding k'(1) by (simp add: table_of_Suc Let_def del: table_of.simps(2))
      with that show False by simp
    qed
    with agree next_table [OF agree] that show ?thesis by auto
  qed
qed

lemma vm_ok_link:
  assumes ok: "vm_ok s" and tab: "table_of s d v = Some t" and d: "d < 3"
    and absent: "\<not> test_flag (entry s d v) PTE_PRESENT"
    and al: "alloc_page (vm_pmm s) = (p, m)" "p \<noteq> 0"
  defines "s0 \<equiv> s\<lparr>vm_pmm := m,
      pt_mem := (pt_mem s)(p := (\<lambda>i. if i < ENTRIES_PER_TABLE then 0 else pt_mem s p i))\<rparr>"
  shows "alloc_page_table s = (Some (phys_to_virt p), s0)" and "table_to_phys (phys_to_virt p) = p"
    and "vm_ext s (set_entry s0 t (lvl_index d v) (p OR PTE_PRESENT OR PTE_WRITABLE))"
    and "table_of (set_entry s0 t (lvl_index d v) (p OR PTE_PRESENT OR PTE_WRITABLE)) (Suc d) v = Some p"
proof -
  have good: "pmm_good (vm_pmm s)" and tree: "tree_ok s" and small: "total_pages (vm_pmm s) \<le> 2 ^ 40"
    and used: "\<And>k w x. k \<le> 3 \<Longrightarrow> table_of s k w = Some x \<Longrightarrow> phys_to_pfn x \<notin> pmm_free (vm_pmm s)"
    using ok by (auto simp: vm_ok_def)
  obtain q where q: "p = pfn_to_phys q" "phys_to_pfn p = q" "q < total_pages (vm_pmm s)"
      "q \<in> pmm_free (vm_pmm s)" "pmm_free m = pmm_free (vm_pmm s) - {q}" "pmm_good m"
      "total_pages m = total_pages (vm_pmm s)"
    using pmm.alloc_result [OF good al] by metis
  have addr: "p AND PTE_ADDR_MASK = p"
    using q(1,3) small pfn_to_phys_masked [of q] by simp
  show tp: "table_to_phys (phys_to_virt p) = p"
    by (rule table_to_phys_to_virt [OF masked_less [OF addr]])
  with al show "alloc_page_table s = (Some (phys_to_virt p), s0)"
    by (simp add: alloc_page_table_def Let_def s0_def cong: if_cong)
  have fresh: "table_of s k w \<noteq> Some p" if "k \<le> 3" for k w
    using used [OF that] q(2,4) by blast
  then have "entry s0 k w = entry s k w" if "k \<le> 3" for k w
    using that by (intro entry_frame) (auto simp: s0_def)
  then have tabs: "table_of s0 k w = table_of s k w" and ents: "entry s0 k w = entry s k w" if "k \<le> 3" for k w
    using that by (auto intro!: table_of_cong simp: s0_def)
  have tree0: "tree_ok s0" using tree tree_ok_cong [OF tabs] by simp
  let ?s = "set_entry s0 t (lvl_index d v) (p OR PTE_PRESENT OR PTE_WRITABLE)"
  have link: "leaf ?s w = leaf s0 w" "table_of ?s (Suc d) v = Some p"
      "k \<le> 3 \<Longrightarrow> table_of ?s k w = Some x \<Longrightarrow> table_of s0 k w = Some x \<or>
        (k = Suc d \<and> x = p \<and> (\<forall>j < k. lvl_index j w = lvl_index j v))" for w k x
    using link_entry [OF tree0 _ d, of v t p] tab absent tabs ents fresh addr d by (simp_all add: s0_def)
  have "leaf s0 w = leaf s w" for w by (rule leaf_cong) (rule ents)
  moreover have "tree_ok ?s"
    unfolding tree_ok_def using link(3) tree_okD [OF tree0] tabs fresh by (smt (verit))
  moreover have "phys_to_pfn x \<notin> pmm_free m" if "k \<le> 3" "table_of ?s k w = Some x" for k w x
    using link(3) [OF that] used [OF that(1)] tabs [OF that(1)] q(2,5) by auto
  moreover have "is_table s x \<or> x \<in> pmm_free (vm_pmm s)" if "is_table ?s x" for x
    using that link(3) tabs q(2,4) unfolding is_table_def by metis
  moreover have "vm_pmm s0 = m" "vm_cr3 s0 = vm_cr3 s" by (simp_all add: s0_def)
  ultimately show "vm_ext s ?s"
    using q(5-7) small link(1) by (auto simp: vm_ext_def vm_ok_def)
  show "table_of ?s (Suc d) v = Some p" by (rule link(2))
qed

lemma get_or_create_spec:
  assumes ok: "vm_ok s" and tab: "table_of s d v = Some t" and d: "d < 3"
    and nh: "0 < d \<Longrightarrow> \<not> is_huge (entry s d v)"
    and run: "get_or_create s (phys_to_virt t) (lvl_index d v) create = (r, s')"
  shows "vm_ext s s'" and "\<not> create \<Longrightarrow> s' = s"
    and "r = Some x \<Longrightarrow> \<exists>t'. x = phys_to_virt t' \<and> table_of s' (Suc d) v = Some t'"
    and "r = None \<Longrightarrow> \<not> test_flag (entry s d v) PTE_PRESENT"
    and "create \<Longrightarrow> r = None \<Longrightarrow> pmm_free (vm_pmm s') = {}"
proof -
  have ext: "vm_ext s s' \<and> (\<not> create \<longrightarrow> s' = s) \<and>
      (\<forall>x. r = Some x \<longrightarrow> (\<exists>t'. x = phys_to_virt t' \<and> table_of s' (Suc d) v = Some t')) \<and>
      (r = None \<longrightarrow> \<not> test_flag (entry s d v) PTE_PRESENT) \<and>
      (create \<and> r = None \<longrightarrow> pmm_free (vm_pmm s') = {})"
  proof (cases "test_flag (entry s d v) PTE_PRESENT")
    case True
    then have "r = Some (phys_to_virt (entry s d v AND PTE_ADDR_MASK))" "s' = s"
      using run pt_read_table [OF tab] by (auto simp: get_or_create_def Let_def pte_to_table_def)
    moreover have "table_of s (Suc d) v = Some (entry s d v AND PTE_ADDR_MASK)"
      using True nh by (intro table_of_next) (auto simp: is_huge_def)
    ultimately show ?thesis using True ok by (auto simp: vm_ext_refl)
  next
    case absent: False
    show ?thesis
    proof (cases create)
      case False
      with absent run pt_read_table [OF tab] ok show ?thesis
        by (auto simp: get_or_create_def Let_def vm_ext_refl)
    next
      case True
      obtain p m where al: "alloc_page (vm_pmm s) = (p, m)" by force
      have good: "pmm_good (vm_pmm s)" using ok by (simp add: vm_ok_def)
      show ?thesis
      proof (cases "p = 0")
        case p0: True
        then have "m = vm_pmm s" and none: "pmm_free (vm_pmm s) = {}"
          using pmm.alloc_fail pmm.alloc_complete good al by simp_all
        then have "r = None" "s' = s"
          using run absent True p0 al pt_read_table [OF tab]
          by (auto simp: get_or_create_def Let_def alloc_page_table_def)
        with True ok absent none show ?thesis by (simp add: vm_ext_refl)
      next
        case p0: False
        note new = vm_ok_link [OF ok tab d absent al p0]
        have "r = Some (phys_to_virt p)"
          using run absent True new(1) pt_read_table [OF tab] by (auto simp: get_or_create_def Let_def)
        moreover from this have "s' = set_entry (snd (alloc_page_table s)) t (lvl_index d v) (p OR PTE_PRESENT OR PTE_WRITABLE)"
          using run absent True new(1,2) pt_read_table [OF tab] pt_write_table [OF tab]
          by (auto simp: get_or_create_def Let_def)
        ultimately show ?thesis
          using new True by auto
      qed
    qed
  qed
  show "vm_ext s s'" "\<not> create \<Longrightarrow> s' = s" using ext by simp_all
  show "r = Some x \<Longrightarrow> \<exists>t'. x = phys_to_virt t' \<and> table_of s' (Suc d) v = Some t'" using ext by simp
  show "r = None \<Longrightarrow> \<not> test_flag (entry s d v) PTE_PRESENT" using ext by simp
  show "create \<Longrightarrow> r = None \<Longrightarrow> pmm_free (vm_pmm s') = {}" using ext by simp
qed

lemma leaf_none:
  assumes "table_of s d v = Some t" "\<not> test_flag (entry s d v) PTE_PRESENT" "d \<le> 3"
  shows "leaf s v = None"
proof -
  have zero: "entry s k v = 0" if "d < k" for k
    using entry_after_zero [OF assms(2) that] .
  have "\<not> is_huge (entry s k v)" if "0 < k" "k < d" for k
  proof
    assume "is_huge (entry s k v)"
    then have "entry s (Suc k) v = 0" using that by (intro entry_absent) (simp add: is_huge_def)
    moreover have "table_of s (Suc k) v = None"
      using \<open>is_huge (entry s k v)\<close> that by (simp add: table_of_Suc Let_def is_huge_def del: table_of.simps(2))
    ultimately have "table_of s (Suc k + j) v = None" for j
      by (induction j) simp_all
    from this [of "d - Suc k"] show False using assms(1) that by simp
  qed
  moreover have "\<not> is_huge (entry s d v)" using assms(2) by (simp add: is_huge_def)
  ultimately have "\<not> is_huge (entry s k v)" if "0 < k" for k
    using zero [of k] that by (cases k d rule: linorder_cases) (auto simp: is_huge_def)
  moreover have "\<not> test_flag (entry s 3 v) PTE_PRESENT"
    using zero [of 3] assms(2,3) by (cases "d = 3") auto
  ultimately show ?thesis by (simp add: leaf_def)
qed

text \<open>What \<open>vmm_get_pte\<close> returns: the slot of the last level table of the address, or nothing when a
  huge page covers the address, a table is missing, or no page frame is left for one.\<close>

definition pte_result :: "vm_state \<Rightarrow> u64 \<Rightarrow> bool \<Rightarrow> (u64 \<times> u64) option \<Rightarrow> vm_state \<Rightarrow> bool" where
  "pte_result s v create r s' \<longleftrightarrow> vm_ext s s' \<and> (\<not> create \<longrightarrow> s' = s) \<and>
    (case r of
       None \<Rightarrow> leaf s v = None \<and> (create \<longrightarrow> pmm_free (vm_pmm s') = {}) \<or> (\<exists>d e. leaf s v = Some (d, e) \<and> d < 3)
     | Some (pt, i) \<Rightarrow> i = lvl_index 3 v \<and> (\<exists>t. pt = phys_to_virt t \<and> table_of s' 3 v = Some t))"

lemma pte_result_step:
  assumes "vm_ext s s1" and "\<not> create \<longrightarrow> s1 = s" and "pte_result s1 v create r s'"
  shows "pte_result s v create r s'"
  using assms vm_ext_trans [OF assms(1)] by (auto simp: pte_result_def vm_ext_def split: option.splits)

lemma pte_result_missing:
  assumes "table_of s d v = Some t" "vm_ext s s'" "\<not> create \<longrightarrow> s' = s" "d \<le> 3"
    and "\<not> test_flag (entry s d v) PTE_PRESENT" "create \<longrightarrow> pmm_free (vm_pmm s') = {}"
  shows "pte_result s v create None s'"
  using assms leaf_none [OF assms(1,5,4)] by (simp add: pte_result_def)

lemma level_step:
  assumes ok: "vm_ok s" and tab: "table_of s d v = Some t" and d: "d < 3"
    and nh: "0 < d \<Longrightarrow> \<not> is_huge (entry s d v)"
    and run: "(case get_or_create s (phys_to_virt t) (lvl_index d v) create of
        (None, s1) \<Rightarrow> (None, s1) | (Some x, s1) \<Rightarrow> k x s1) = (r, s')"
    and cont: "\<And>s1 t1. vm_ok s1 \<Longrightarrow> table_of s1 (Suc d) v = Some t1 \<Longrightarrow> k (phys_to_virt t1) s1 = (r, s') \<Longrightarrow>
        pte_result s1 v create r s'"
  shows "pte_result s v create r s'"
proof -
  obtain r1 s1 where g: "get_or_create s (phys_to_virt t) (lvl_index d v) create = (r1, s1)" by force
  note sp = get_or_create_spec [OF ok tab d nh g]
  show ?thesis
  proof (cases r1)
    case None
    then have "r = None" "s' = s1" using run g by simp_all
    then show ?thesis using sp None d by (auto intro!: pte_result_missing [OF tab])
  next
    case (Some x)
    then obtain t1 where t1: "x = phys_to_virt t1" "table_of s1 (Suc d) v = Some t1" using sp(3) by blast
    have "pte_result s1 v create r s'"
      using sp(1) run g Some t1 by (intro cont [of s1 t1]) (simp_all add: vm_ext_def del: table_of.simps)
    then show ?thesis using sp(1,2) by (intro pte_result_step [of s s1]) auto
  qed
qed

lemma level_step_huge:
  assumes ok: "vm_ok s" and tab: "table_of s d v = Some t" and d: "d = 1 \<or> d = 2"
    and run: "(if is_huge (pt_read s (phys_to_virt t) (lvl_index d v)) then (None, s)
       else case get_or_create s (phys_to_virt t) (lvl_index d v) create of
        (None, s1) \<Rightarrow> (None, s1) | (Some x, s1) \<Rightarrow> k x s1) = (r, s')"
    and cont: "\<And>s1 t1. vm_ok s1 \<Longrightarrow> table_of s1 (Suc d) v = Some t1 \<Longrightarrow> k (phys_to_virt t1) s1 = (r, s') \<Longrightarrow>
        pte_result s1 v create r s'"
  shows "pte_result s v create r s'"
proof (cases "is_huge (entry s d v)")
  case True
  then have "r = None" "s' = s" using run pt_read_table [OF tab] by simp_all
  moreover have "\<exists>d e. leaf s v = Some (d, e) \<and> d < 3"
    using True d by (auto simp: leaf_def)
  ultimately show ?thesis using ok by (simp add: pte_result_def vm_ext_refl)
next
  case False
  then show ?thesis
    using run pt_read_table [OF tab] d by (intro level_step [OF ok tab _ _ _ cont]) auto
qed

lemma vmm_get_pte_spec:
  assumes ok: "vm_ok s" and run: "vmm_get_pte s v create = (r, s')"
  shows "pte_result s v create r s'"
  using run unfolding vmm_get_pte_def get_pml4_def lvl_index_names
proof (rule level_step [OF ok table_of.simps(1), rotated 2])
  fix s1 t1
  assume ok1: "vm_ok s1" and t1: "table_of s1 (Suc 0) v = Some t1"
  assume "(if is_huge (pt_read s1 (phys_to_virt t1) (lvl_index 1 v)) then (None, s1)
    else case get_or_create s1 (phys_to_virt t1) (lvl_index 1 v) create of (None, s2) \<Rightarrow> (None, s2)
      | (Some pd, s2) \<Rightarrow>
          if is_huge (pt_read s2 pd (lvl_index 2 v)) then (None, s2)
          else case get_or_create s2 pd (lvl_index 2 v) create of (None, s3) \<Rightarrow> (None, s3)
            | (Some pt, s3) \<Rightarrow> (Some (pt, lvl_index 3 v), s3)) = (r, s')"
  then show "pte_result s1 v create r s'"
  proof (rule level_step_huge [OF ok1, rotated 2])
    show "table_of s1 1 v = Some t1" using t1 by simp
    fix s2 t2
    assume ok2: "vm_ok s2" and t2: "table_of s2 (Suc 1) v = Some t2"
    assume "(if is_huge (pt_read s2 (phys_to_virt t2) (lvl_index 2 v)) then (None, s2)
        else case get_or_create s2 (phys_to_virt t2) (lvl_index 2 v) create of (None, s3) \<Rightarrow> (None, s3)
          | (Some pt, s3) \<Rightarrow> (Some (pt, lvl_index 3 v), s3)) = (r, s')"
    then show "pte_result s2 v create r s'"
    proof (rule level_step_huge [OF ok2, rotated 2])
      show "table_of s2 2 v = Some t2" using t2 by (simp add: numeral_2_eq_2)
      fix s3 t3
      assume "vm_ok s3" "table_of s3 (Suc 2) v = Some t3" "(Some (phys_to_virt t3, lvl_index 3 v), s3) = (r, s')"
      then show "pte_result s3 v create r s'"
        by (auto simp: pte_result_def vm_ext_refl numeral_3_eq_3)
    qed simp
  qed simp
qed simp_all

section \<open>Mapping and unmapping one page\<close>

lemma leaf_page: "page_of v = page_of w \<Longrightarrow> leaf s v = leaf s w"
proof -
  assume "page_of v = page_of w"
  then have idx: "lvl_index d v = lvl_index d w" if "d \<le> 3" for d
    using that by (simp add: page_of_eq_iff)
  have "entry s d v = entry s d w" if "d \<le> 3" for d
    using idx that table_of_prefix [of d v w s] by (auto simp: entry_def split: option.splits)
  then show ?thesis by (simp add: leaf_def)
qed

lemma set_leaf:
  assumes ok: "vm_ok s" and tab: "table_of s 3 v = Some t"
  shows "vm_ok (set_entry s t (lvl_index 3 v) e)"
    and "is_table (set_entry s t (lvl_index 3 v) e) = is_table s"
    and "leaf (set_entry s t (lvl_index 3 v) e) w =
      (if page_of w = page_of v then (if test_flag e PTE_PRESENT then Some (3, e) else None) else leaf s w)"
proof -
  let ?s = "set_entry s t (lvl_index 3 v) e"
  have tree: "tree_ok s" using ok by (simp add: vm_ok_def)
  have low: "entry ?s d w = entry s d w" if "d < 3" for d w
    using that by (intro entry_set_other [OF tree tab]) simp_all
  then have tabs: "table_of ?s d w = table_of s d w" if "d \<le> 3" for d w
    using that by (intro table_of_cong) simp_all
  show "vm_ok ?s" using ok tree_ok_cong [OF tabs] tabs by (simp add: vm_ok_def cong: conj_cong)
  show "is_table ?s = is_table s" using tabs by (simp add: is_table_def fun_eq_iff cong: conj_cong)
  show "leaf ?s w = (if page_of w = page_of v then (if test_flag e PTE_PRESENT then Some (3, e) else None) else leaf s w)"
  proof (cases "page_of w = page_of v")
    case False
    then have "entry ?s 3 w = entry s 3 w"
      by (intro entry_set_other [OF tree tab]) (auto simp: page_of_eq_iff)
    with low False show ?thesis by (simp add: leaf_def)
  next
    case True
    then have agree: "\<forall>j \<le> 3. lvl_index j w = lvl_index j v" by (simp add: page_of_eq_iff)
    have "entry ?s 3 w = e" by (rule entry_set_same [OF tree tab _ agree]) simp
    moreover have "\<not> is_huge (entry s d w)" if "d = 1 \<or> d = 2" for d
    proof
      assume "is_huge (entry s d w)"
      then have none: "table_of s (Suc d) w = None"
        using that by (auto simp: table_of_Suc Let_def is_huge_def simp del: table_of.simps(2))
      then have "table_of s 3 w = None"
        using that by (auto simp: numeral_3_eq_3 numeral_2_eq_2)
      with tab show False using agree table_of_prefix [of 3 w v s] by simp
    qed
    ultimately show ?thesis using True low by (simp add: leaf_def)
  qed
qed

definition new_pte :: "u64 \<Rightarrow> u64 \<Rightarrow> u64" where
  "new_pte phys flags = ((phys AND NOT 0xFFF) AND PTE_ADDR_MASK) OR (flags AND NOT PTE_ADDR_MASK) OR PTE_PRESENT"

lemma new_pte_simps [simp]:
  "test_flag (new_pte phys flags) PTE_PRESENT" "new_pte phys flags AND PTE_ADDR_MASK = phys AND PTE_ADDR_MASK"
proof -
  show "test_flag (new_pte phys flags) PTE_PRESENT"
    by (simp add: test_flag_def new_pte_def bit.conj_disj_distrib2)
  have "NOT 0xFFF AND PTE_ADDR_MASK = PTE_ADDR_MASK" by (simp add: PTE_ADDR_MASK_def)
  moreover have "PTE_PRESENT AND PTE_ADDR_MASK = 0" by (simp add: PTE_ADDR_MASK_def)
  ultimately show "new_pte phys flags AND PTE_ADDR_MASK = phys AND PTE_ADDR_MASK"
    by (simp add: new_pte_def bit.conj_disj_distrib2 and.assoc)
qed

lemma vmm_map_page_leaf:
  assumes ok: "vm_ok s" and run: "vmm_map_page s v phys flags = (r, s')"
  shows "vm_ok s'" and "r = 0 \<or> r = -1"
    and "r = 0 \<Longrightarrow> leaf s' w = (if page_of w = page_of v then Some (3, new_pte phys flags) else leaf s w)"
    and "r = -1 \<Longrightarrow> leaf s' w = leaf s w"
    and "r = -1 \<Longrightarrow> pmm_free (vm_pmm s') = {} \<or> (\<exists>d e. leaf s v = Some (d, e) \<and> d < 3)"
    and "pmm_free (vm_pmm s') \<subseteq> pmm_free (vm_pmm s)" "total_pages (vm_pmm s') = total_pages (vm_pmm s)"
    and "is_table s' x \<Longrightarrow> is_table s x \<or> x \<in> pmm_free (vm_pmm s)"
proof -
  let ?v = "v AND NOT 0xFFF"
  obtain q s1 where g: "vmm_get_pte s ?v True = (q, s1)" by force
  have res: "pte_result s ?v True q s1" by (rule vmm_get_pte_spec [OF ok g])
  then have ext: "vm_ext s s1" by (simp add: pte_result_def)
  have lv: "leaf s ?v = leaf s v" by (rule leaf_page) simp
  have *: "vm_ok s' \<and> (r = 0 \<or> r = -1) \<and>
      (r = 0 \<longrightarrow> (\<forall>w. leaf s' w = (if page_of w = page_of v then Some (3, new_pte phys flags) else leaf s w))) \<and>
      (r = -1 \<longrightarrow> (\<forall>w. leaf s' w = leaf s w) \<and>
        (pmm_free (vm_pmm s') = {} \<or> (\<exists>d e. leaf s v = Some (d, e) \<and> d < 3))) \<and>
      pmm_free (vm_pmm s') \<subseteq> pmm_free (vm_pmm s) \<and> total_pages (vm_pmm s') = total_pages (vm_pmm s) \<and>
      (\<forall>x. is_table s' x \<longrightarrow> is_table s x \<or> x \<in> pmm_free (vm_pmm s))"
  proof (cases q)
    case None
    then have "r = -1" "s' = s1" using run g by (simp_all add: vmm_map_page_def Let_def)
    with None res ext lv show ?thesis by (auto simp: pte_result_def vm_ext_def)
  next
    case (Some slot)
    then obtain t where t: "slot = (phys_to_virt t, lvl_index 3 ?v)" "table_of s1 3 ?v = Some t"
      using res by (auto simp: pte_result_def)
    have "r = 0" "s' = set_entry s1 t (lvl_index 3 ?v) (new_pte phys flags)"
      using run g Some t(1) pt_write_table [OF t(2)]
      by (simp_all add: vmm_map_page_def Let_def new_pte_def)
    moreover have "vm_ok s1" using ext by (simp add: vm_ext_def)
    ultimately show ?thesis
      using set_leaf [OF _ t(2)] ext by (simp add: vm_ext_def)
  qed
  show "vm_ok s'" "r = 0 \<or> r = -1" using * by simp_all
  show "r = 0 \<Longrightarrow> leaf s' w = (if page_of w = page_of v then Some (3, new_pte phys flags) else leaf s w)"
    and "r = -1 \<Longrightarrow> leaf s' w = leaf s w"
    and "r = -1 \<Longrightarrow> pmm_free (vm_pmm s') = {} \<or> (\<exists>d e. leaf s v = Some (d, e) \<and> d < 3)"
    and "pmm_free (vm_pmm s') \<subseteq> pmm_free (vm_pmm s)" "total_pages (vm_pmm s') = total_pages (vm_pmm s)"
    and "is_table s' x \<Longrightarrow> is_table s x \<or> x \<in> pmm_free (vm_pmm s)"
    using * by simp_all
qed

lemma vmm_unmap_page_leaf:
  assumes ok: "vm_ok s" and run: "vmm_unmap_page s v = (p, s')"
  shows "vm_ok s'" and "vm_pmm s' = vm_pmm s" and "is_table s' = is_table s"
    and "leaf s v = Some (3, e) \<Longrightarrow> p = e AND PTE_ADDR_MASK"
    and "leaf s v = Some (3, e) \<Longrightarrow> leaf s' w = (if page_of w = page_of v then None else leaf s w)"
    and "(\<And>e. leaf s v \<noteq> Some (3, e)) \<Longrightarrow> p = 0 \<and> s' = s"
proof -
  let ?v = "v AND NOT 0xFFF"
  obtain q s1 where g: "vmm_get_pte s ?v False = (q, s1)" by force
  have res: "pte_result s ?v False q s1" by (rule vmm_get_pte_spec [OF ok g])
  then have s1: "s1 = s" by (simp add: pte_result_def)
  have lv: "leaf s ?v = leaf s v" by (rule leaf_page) simp
  have *: "vm_ok s' \<and> vm_pmm s' = vm_pmm s \<and> is_table s' = is_table s \<and>
      (\<forall>e. leaf s v = Some (3, e) \<longrightarrow> p = e AND PTE_ADDR_MASK \<and>
         (\<forall>w. leaf s' w = (if page_of w = page_of v then None else leaf s w))) \<and>
      ((\<forall>e. leaf s v \<noteq> Some (3, e)) \<longrightarrow> p = 0 \<and> s' = s)"
  proof (cases q)
    case None
    then have "p = 0" "s' = s" using run g s1 by (simp_all add: vmm_unmap_page_def Let_def)
    with None res lv ok show ?thesis by (auto simp: pte_result_def)
  next
    case (Some slot)
    then obtain t where t: "slot = (phys_to_virt t, lvl_index 3 ?v)" "table_of s 3 ?v = Some t"
      using res s1 by (auto simp: pte_result_def)
    note rd = pt_read_table [OF t(2)]
    have self: "leaf s v = (if test_flag (entry s 3 ?v) PTE_PRESENT then Some (3, entry s 3 ?v) else None)"
      using set_leaf(3) [OF ok t(2), of "entry s 3 ?v" ?v] lv t(2) by (simp add: set_entry_def entry_def)
    show ?thesis
    proof (cases "test_flag (entry s 3 ?v) PTE_PRESENT")
      case False
      then have "p = 0" "s' = s" using run g s1 Some t(1) rd by (simp_all add: vmm_unmap_page_def Let_def)
      with self False ok show ?thesis by simp
    next
      case True
      then have "p = entry s 3 ?v AND PTE_ADDR_MASK" "s' = set_entry s t (lvl_index 3 ?v) 0"
        using run g s1 Some t(1) rd pt_write_table [OF t(2)] by (simp_all add: vmm_unmap_page_def Let_def)
      with True self set_leaf [OF ok t(2), of 0] show ?thesis by simp
    qed
  qed
  show "vm_ok s'" "vm_pmm s' = vm_pmm s" "is_table s' = is_table s" using * by simp_all
  show "leaf s v = Some (3, e) \<Longrightarrow> p = e AND PTE_ADDR_MASK"
    and "leaf s v = Some (3, e) \<Longrightarrow> leaf s' w = (if page_of w = page_of v then None else leaf s w)"
    and "(\<And>e. leaf s v \<noteq> Some (3, e)) \<Longrightarrow> p = 0 \<and> s' = s"
    using * by simp_all
qed

section \<open>Ranges of pages\<close>

abbreviation nth_page :: "u64 \<Rightarrow> nat \<Rightarrow> u64" where
  "nth_page v i \<equiv> page_of (v + of_nat i * PAGE_SIZE)"

text \<open>What unmapping does to the leaf of an address: a 4 KB mapping goes, a huge page stays.\<close>

definition unmapped :: "(nat \<times> u64) option \<Rightarrow> (nat \<times> u64) option" where
  "unmapped l = (case l of Some (d, e) \<Rightarrow> if d = 3 then None else l | None \<Rightarrow> None)"

lemma vmm_unmap_page_unmapped:
  assumes "vm_ok s"
  shows "vm_ok (snd (vmm_unmap_page s v))" and "vm_pmm (snd (vmm_unmap_page s v)) = vm_pmm s"
    and "leaf (snd (vmm_unmap_page s v)) w = (if page_of w = page_of v then unmapped (leaf s w) else leaf s w)"
proof -
  obtain p s' where run: "vmm_unmap_page s v = (p, s')" by force
  note sp = vmm_unmap_page_leaf [OF assms run]
  show "vm_ok (snd (vmm_unmap_page s v))" "vm_pmm (snd (vmm_unmap_page s v)) = vm_pmm s"
    using sp(1,2) run by simp_all
  show "leaf (snd (vmm_unmap_page s v)) w = (if page_of w = page_of v then unmapped (leaf s w) else leaf s w)"
  proof (cases "\<exists>e. leaf s v = Some (3, e)")
    case True
    then show ?thesis using sp(5) run leaf_page [of w v s] by (auto simp: unmapped_def)
  next
    case False
    then show ?thesis
      using sp(6) run leaf_page [of w v s] by (auto simp: unmapped_def split: option.splits)
  qed
qed

lemma vmm_unmap_pages_leaf:
  assumes "vm_ok s"
  shows "vm_ok (vmm_unmap_pages s v n) \<and> vm_pmm (vmm_unmap_pages s v n) = vm_pmm s \<and>
    (\<forall>w. leaf (vmm_unmap_pages s v n) w =
       (if \<exists>i < n. page_of w = nth_page v i then unmapped (leaf s w) else leaf s w))"
proof (induction n)
  case 0
  then show ?case using assms by (simp add: vmm_unmap_pages_def)
next
  case (Suc n)
  have "unmapped (unmapped l) = unmapped l" for l
    by (auto simp: unmapped_def split: option.splits)
  then show ?case
    using Suc vmm_unmap_page_unmapped [of "vmm_unmap_pages s v n" "v + of_nat n * PAGE_SIZE"]
    by (auto simp: vmm_unmap_pages_def less_Suc_eq)
qed

lemma map_pages_from_leaf:
  assumes "vm_ok s" and "map_pages_from i n s v phys flags = (r, s')" and "i + n \<le> 2 ^ 36"
  shows "vm_ok s' \<and>
    (r = 0 \<and> (\<forall>j w. i \<le> j \<and> j < i + n \<and> page_of w = nth_page v j \<longrightarrow>
         leaf s' w = Some (3, new_pte (phys + of_nat j * PAGE_SIZE) flags)) \<and>
       (\<forall>w. (\<forall>j. i \<le> j \<and> j < i + n \<longrightarrow> page_of w \<noteq> nth_page v j) \<longrightarrow> leaf s' w = leaf s w) \<or>
     r = -1 \<and> (\<exists>k. i \<le> k \<and> k < i + n \<and>
       (\<forall>w. leaf s' w =
          (if \<exists>j. i \<le> j \<and> j < k \<and> page_of w = nth_page v j then None
           else if \<exists>j < i. page_of w = nth_page v j then unmapped (leaf s w) else leaf s w))))"
  using assms
proof (induction n arbitrary: i s)
  case 0
  then show ?case by auto
next
  case (Suc n)
  obtain r1 s1 where run: "vmm_map_page s (v + of_nat i * PAGE_SIZE) (phys + of_nat i * PAGE_SIZE) flags = (r1, s1)"
    by force
  note sp = vmm_map_page_leaf [OF Suc.prems(1) run]
  show ?case
  proof (cases "r1 = 0")
    case False
    then have r: "r = -1" "s' = vmm_unmap_pages s1 v i" using Suc.prems(2) run by simp_all
    show ?thesis
      using r vmm_unmap_pages_leaf [OF sp(1), of v i] sp(2,4) False
      by (intro conjI disjI2 exI [of _ i]) auto
  next
    case True
    have "map_pages_from (Suc i) n s1 v phys flags = (r, s')"
      using Suc.prems(2) run True by simp
    note IH = Suc.IH [OF sp(1) this]
    let ?P = "\<lambda>w j. page_of w = nth_page v j"
    have l1: "leaf s1 w = (if ?P w i then Some (3, new_pte (phys + of_nat i * PAGE_SIZE) flags) else leaf s w)" for w
      using sp(3) [OF True] .
    have inj: "j = j'" if "?P w j" "?P w j'" "j < i + Suc n" "j' < i + Suc n" for w j j'
      using that Suc.prems(3) by (intro page_of_step_inj [of v]) auto
    from IH Suc.prems(3) consider
      (all) "r = 0" "vm_ok s'"
        "\<And>j w. Suc i \<le> j \<Longrightarrow> j < Suc i + n \<Longrightarrow> ?P w j \<Longrightarrow> leaf s' w = Some (3, new_pte (phys + of_nat j * PAGE_SIZE) flags)"
        "\<And>w. (\<And>j. Suc i \<le> j \<Longrightarrow> j < Suc i + n \<Longrightarrow> \<not> ?P w j) \<Longrightarrow> leaf s' w = leaf s1 w"
    | (fail) k where "r = -1" "vm_ok s'" "Suc i \<le> k" "k < Suc i + n"
        "\<And>w. leaf s' w = (if \<exists>j. Suc i \<le> j \<and> j < k \<and> ?P w j then None
            else if \<exists>j < Suc i. ?P w j then unmapped (leaf s1 w) else leaf s1 w)"
      by auto
    then show ?thesis
    proof cases
      case all
      have "leaf s' w = Some (3, new_pte (phys + of_nat j * PAGE_SIZE) flags)"
        if "i \<le> j" "j < i + Suc n" "?P w j" for j w
      proof (cases "j = i")
        case True
        then have "leaf s' w = leaf s1 w"
          using that(3) inj [of w i] by (intro all(4)) fastforce
        with True that l1 show ?thesis by simp
      next
        case False
        with that all(3) show ?thesis by simp
      qed
      moreover have "leaf s' w = leaf s w" if "\<And>j. i \<le> j \<and> j < i + Suc n \<Longrightarrow> \<not> ?P w j" for w
        using that l1 [of w] all(4) [of w] that [of i] by simp
      ultimately show ?thesis using all(1,2) by blast
    next
      case fail
      have "leaf s' w = (if \<exists>j. i \<le> j \<and> j < k \<and> ?P w j then None
          else if \<exists>j < i. ?P w j then unmapped (leaf s w) else leaf s w)" for w
      proof (cases "?P w i")
        case True
        then have "\<exists>j < Suc i. ?P w j" by blast
        then have "leaf s' w = None"
          using fail(5) [of w] l1 [of w] True by (simp add: unmapped_def)
        moreover have "\<exists>j. i \<le> j \<and> j < k \<and> ?P w j"
          using True fail(3) by (intro exI [of _ i]) simp
        ultimately show ?thesis by simp
      next
        case False
        then have a: "(\<exists>j. Suc i \<le> j \<and> j < k \<and> ?P w j) = (\<exists>j. i \<le> j \<and> j < k \<and> ?P w j)"
          and b: "(\<exists>j < Suc i. ?P w j) = (\<exists>j < i. ?P w j)"
          by (metis Suc_leD Suc_leI le_neq_implies_less, metis less_Suc_eq)
        show ?thesis using False by (simp only: fail(5) a b l1 if_False)
      qed
      with fail show ?thesis by (intro conjI disjI2 exI [of _ k]) auto
    qed
  qed
qed

section \<open>Properties\<close>

lemma mapping_size_huge: "(\<exists>d e. leaf s v = Some (d, e) \<and> d < 3) \<Longrightarrow> vmm_get_mapping_size s v \<in> {PAGE_SIZE_1G, PAGE_SIZE_2M}"
  by (auto simp: vmm_get_mapping_size_leaf leaf_def split: if_splits)

lemma mapping_size_4K: "vmm_get_mapping_size s v = PAGE_SIZE \<longleftrightarrow> (\<exists>e. leaf s v = Some (3, e))"
  by (auto simp: vmm_get_mapping_size_leaf leaf_def PAGE_SIZE_def PAGE_SIZE_1G_def PAGE_SIZE_2M_def
      split: if_splits)

text \<open>C6. \<open>vmm_map_page\<close> maps exactly one page.  On success the addresses of the page translate to the given
  frame plus their offset, every other address translates as before, and the page tables stay a
  tree outside the free page frames.  It fails only when a huge page covers the address or no page
  frame is left for a table, and then no translation changes.\<close>

theorem vmm_map_page_correct:
  assumes "vm_ok s" and "vmm_map_page s virt phys flags = (r, s')"
  shows "vm_ok s' \<and> (r = 0 \<or> r = -1) \<and>
    (r = 0 \<longrightarrow>
       (\<forall>w. vmm_get_phys s' w =
          (if page_of w = page_of virt then (phys AND PTE_ADDR_MASK) OR PAGE_OFFSET w else vmm_get_phys s w)) \<and>
       (\<forall>w. vmm_is_mapped s' w \<longleftrightarrow> page_of w = page_of virt \<or> vmm_is_mapped s w)) \<and>
    (r = -1 \<longrightarrow>
       (\<forall>w. vmm_get_phys s' w = vmm_get_phys s w) \<and> (\<forall>w. vmm_is_mapped s' w \<longleftrightarrow> vmm_is_mapped s w) \<and>
       (pmm_free (vm_pmm s') = {} \<or> vmm_get_mapping_size s virt \<in> {PAGE_SIZE_1G, PAGE_SIZE_2M}))"
proof (intro conjI impI)
  note sp = vmm_map_page_leaf [OF assms]
  show "vm_ok s'" "r = 0 \<or> r = -1" by (rule sp(1), rule sp(2))
  show "\<forall>w. vmm_get_phys s' w =
      (if page_of w = page_of virt then (phys AND PTE_ADDR_MASK) OR PAGE_OFFSET w else vmm_get_phys s w)" if "r = 0"
    using sp(3) [OF that] by (simp add: vmm_get_phys_leaf)
  show "\<forall>w. vmm_is_mapped s' w \<longleftrightarrow> page_of w = page_of virt \<or> vmm_is_mapped s w" if "r = 0"
    using sp(3) [OF that] by (simp add: vmm_is_mapped_leaf)
  show "\<forall>w. vmm_get_phys s' w = vmm_get_phys s w" "\<forall>w. vmm_is_mapped s' w \<longleftrightarrow> vmm_is_mapped s w" if "r = -1"
    using sp(4) [OF that] by (simp_all add: vmm_get_phys_leaf vmm_is_mapped_leaf)
  show "pmm_free (vm_pmm s') = {} \<or> vmm_get_mapping_size s virt \<in> {PAGE_SIZE_1G, PAGE_SIZE_2M}" if "r = -1"
    using sp(5) [OF that] mapping_size_huge by blast
qed

text \<open>A small address space for the witnesses: a chain of four tables in the frames 1 to 4, all
  entries but the first of each empty.\<close>

definition sample_vm :: vm_state where
  "sample_vm =
     \<lparr>vm_pmm = sample_mem, vm_cr3 = 0x1000,
      pt_mem = (\<lambda>t i. if i = 0 then
        (if t = 0x1000 then 0x2003 else if t = 0x2000 then 0x3003 else if t = 0x3000 then 0x4003 else 0) else 0)\<rparr>"

lemma sample_vm_table_of:
  "d \<le> 3 \<Longrightarrow> table_of sample_vm d v = (if \<forall>j < d. lvl_index j v = 0 then Some (0x1000 * (of_nat d + 1)) else None)"
proof (induction d)
  case (Suc d)
  then have "d = 0 \<or> d = 1 \<or> d = 2" by auto
  with Suc show ?case
    by (auto simp: sample_vm_def test_flag_def PTE_ADDR_MASK_def less_Suc_eq Let_def)
qed (simp add: sample_vm_def PTE_ADDR_MASK_def)

lemma sample_vm_table:
  assumes "d \<le> 3" "table_of sample_vm d v = Some t"
  shows "phys_to_pfn t = d + 1" and "j < d \<Longrightarrow> lvl_index j v = 0"
proof -
  have t: "t = 0x1000 * (of_nat d + 1)" using assms by (simp add: sample_vm_table_of split: if_splits)
  consider "d = 0" | "d = 1" | "d = 2" | "d = 3" using assms(1) by linarith
  then show "phys_to_pfn t = d + 1"
    by cases (simp_all add: t phys_to_pfn_def PAGE_SHIFT_def)
  show "j < d \<Longrightarrow> lvl_index j v = 0"
    using assms by (simp add: sample_vm_table_of split: if_splits)
qed

lemma sample_vm_ok: "vm_ok sample_vm"
proof -
  have "tree_ok sample_vm"
    unfolding tree_ok_def using sample_vm_table by (metis add_right_cancel)
  moreover have "phys_to_pfn t \<notin> pmm_free sample_mem" if "d \<le> 3" "table_of sample_vm d v = Some t" for d v t
    using sample_vm_table(1) [OF that] that(1) sample_mem_free_upper by auto
  ultimately show ?thesis
    using sample_mem_ok by (auto simp: vm_ok_def pmm_good_def sample_vm_def MAX_ORDER_def)
qed

theorem vmm_map_page_correct_witness:
  "vm_ok sample_vm \<and> fst (vmm_map_page sample_vm 0x5000 0x7000 PTE_WRITABLE) = 0 \<and>
   vmm_get_phys (snd (vmm_map_page sample_vm 0x5000 0x7000 PTE_WRITABLE)) 0x5123 = 0x7123"
proof -
  have ok: "fst (vmm_map_page sample_vm 0x5000 0x7000 PTE_WRITABLE) = 0"
    by (simp add: vmm_map_page_def vmm_get_pte_def get_or_create_def get_pml4_def sample_vm_def Let_def
        phys_to_virt_def table_to_phys_def KERNEL_PHYS_BASE_def KERNEL_VIRT_BASE_def PTE_ADDR_MASK_def
        pt_read_def test_flag_def is_huge_def pte_to_table_def
        PML4_INDEX_def PDPT_INDEX_def PD_INDEX_def PT_INDEX_def)
  show ?thesis
    using vmm_map_page_correct [OF sample_vm_ok prod.collapse [symmetric], of "0x5000" "0x7000" PTE_WRITABLE]
      sample_vm_ok ok
    by (simp add: page_of_def PTE_ADDR_MASK_def PAGE_OFFSET_def)
qed

text \<open>C7. \<open>vmm_unmap_page\<close> removes exactly one 4 KB mapping and returns the frame it mapped; an address that
  is not mapped, or mapped by a huge page, gives 0 and changes nothing.\<close>

theorem vmm_unmap_page_correct:
  assumes "vm_ok s" and "vmm_unmap_page s virt = (p, s')"
  shows "vm_ok s' \<and> vm_pmm s' = vm_pmm s \<and>
    (if vmm_get_mapping_size s virt = PAGE_SIZE
     then p = vmm_get_phys s (virt AND NOT 0xFFF) \<and>
       (\<forall>w. vmm_get_phys s' w = (if page_of w = page_of virt then 0 else vmm_get_phys s w)) \<and>
       (\<forall>w. vmm_is_mapped s' w \<longleftrightarrow> page_of w \<noteq> page_of virt \<and> vmm_is_mapped s w)
     else p = 0 \<and> s' = s)"
proof -
  note sp = vmm_unmap_page_leaf [OF assms]
  show ?thesis
  proof (cases "vmm_get_mapping_size s virt = PAGE_SIZE")
    case True
    then obtain e where e: "leaf s virt = Some (3, e)" by (auto simp: mapping_size_4K)
    have "leaf s (virt AND NOT 0xFFF) = Some (3, e)"
      using leaf_page [of "virt AND NOT 0xFFF" virt s] e by simp
    moreover have "PAGE_OFFSET (virt AND NOT 0xFFF) = 0"
      unfolding PAGE_OFFSET_def by (simp only: and.assoc) simp
    ultimately have "p = vmm_get_phys s (virt AND NOT 0xFFF)"
      using sp(4) [OF e] by (simp add: vmm_get_phys_leaf)
    with True sp(1,2) sp(5) [OF e] show ?thesis
      by (simp add: vmm_get_phys_leaf [of s'] vmm_get_phys_leaf [of s] vmm_is_mapped_leaf)
  next
    case False
    then have "p = 0 \<and> s' = s" by (intro sp(6)) (auto simp: mapping_size_4K)
    with False sp(1,2) show ?thesis by simp
  qed
qed

theorem vmm_unmap_page_correct_witness:
  "vm_ok sample_vm \<and> vmm_unmap_page sample_vm 0x5000 = (0, sample_vm)"
proof -
  have "vmm_get_mapping_size sample_vm 0x5000 = 0"
    by (simp add: vmm_get_mapping_size_def get_pml4_def next_table_def sample_vm_def Let_def
        phys_to_virt_def table_to_phys_def KERNEL_PHYS_BASE_def KERNEL_VIRT_BASE_def PTE_ADDR_MASK_def
        pt_read_def test_flag_def PML4_INDEX_def PDPT_INDEX_def PD_INDEX_def PT_INDEX_def)
  then show ?thesis
    using vmm_unmap_page_correct [OF sample_vm_ok prod.collapse [symmetric], of "0x5000"] sample_vm_ok
    by (simp add: PAGE_SIZE_def prod_eq_iff)
qed

text \<open>C8. \<open>vmm_map_pages\<close> is all or nothing on a range of fewer than \<open>2 ^ 36\<close> pages: on success page \<open>j\<close> of the
  range translates to frame \<open>j\<close>, and nothing else changes; on failure the pages mapped so far are
  unmapped again and every address outside them translates as before.\<close>

theorem vmm_map_pages_correct:
  assumes "vm_ok s" and "vmm_map_pages s virt phys count flags = (r, s')" and "count \<le> 2 ^ 36"
  shows "vm_ok s' \<and>
    (r = 0 \<and>
       (\<forall>j w. j < count \<and> page_of w = page_of (virt + of_nat j * PAGE_SIZE) \<longrightarrow>
          vmm_get_phys s' w = ((phys + of_nat j * PAGE_SIZE) AND PTE_ADDR_MASK) OR PAGE_OFFSET w) \<and>
       (\<forall>w. (\<forall>j < count. page_of w \<noteq> page_of (virt + of_nat j * PAGE_SIZE)) \<longrightarrow>
          vmm_get_phys s' w = vmm_get_phys s w) \<or>
     r = -1 \<and>
       (\<exists>k < count. \<forall>w. vmm_get_phys s' w =
          (if \<exists>j < k. page_of w = page_of (virt + of_nat j * PAGE_SIZE) then 0 else vmm_get_phys s w)))"
proof -
  have "map_pages_from 0 count s virt phys flags = (r, s')"
    using assms(2) by (simp add: vmm_map_pages_def)
  then have sp: "vm_ok s' \<and>
      (r = 0 \<and> (\<forall>j w. j < count \<and> page_of w = nth_page virt j \<longrightarrow>
           leaf s' w = Some (3, new_pte (phys + of_nat j * PAGE_SIZE) flags)) \<and>
         (\<forall>w. (\<forall>j < count. page_of w \<noteq> nth_page virt j) \<longrightarrow> leaf s' w = leaf s w) \<or>
       r = -1 \<and> (\<exists>k < count. \<forall>w. leaf s' w = (if \<exists>j < k. page_of w = nth_page virt j then None else leaf s w)))"
    using map_pages_from_leaf [OF assms(1), of 0 count virt phys flags r s'] assms(3)
    by (simp cong: if_cong)
  from sp consider
    (all) "r = 0" "\<And>j w. j < count \<Longrightarrow> page_of w = nth_page virt j \<Longrightarrow> leaf s' w = Some (3, new_pte (phys + of_nat j * PAGE_SIZE) flags)"
      "\<And>w. (\<And>j. j < count \<Longrightarrow> page_of w \<noteq> nth_page virt j) \<Longrightarrow> leaf s' w = leaf s w"
  | (fail) k where "r = -1" "k < count" "\<And>w. leaf s' w = (if \<exists>j < k. page_of w = nth_page virt j then None else leaf s w)"
    by auto
  then show ?thesis
  proof cases
    case all
    have "vmm_get_phys s' w = ((phys + of_nat j * PAGE_SIZE) AND PTE_ADDR_MASK) OR PAGE_OFFSET w"
      if "j < count" "page_of w = nth_page virt j" for j w
      using all(2) [OF that] by (simp add: vmm_get_phys_leaf)
    moreover have "vmm_get_phys s' w = vmm_get_phys s w" if "\<forall>j < count. page_of w \<noteq> nth_page virt j" for w
      using all(3) [of w] that by (simp add: vmm_get_phys_leaf)
    ultimately show ?thesis using sp all(1) by blast
  next
    case fail
    then have "vmm_get_phys s' w = (if \<exists>j < k. page_of w = nth_page virt j then 0 else vmm_get_phys s w)" for w
      unfolding vmm_get_phys_leaf fail(3) by auto
    with fail(1,2) sp show ?thesis by blast
  qed
qed

theorem vmm_map_pages_correct_witness:
  "vm_ok sample_vm \<and> vm_ok (snd (vmm_map_pages sample_vm 0x5000 0x7000 3 PTE_WRITABLE))"
  using vmm_map_pages_correct [OF sample_vm_ok prod.collapse [symmetric], of 3 "0x5000" "0x7000" PTE_WRITABLE]
    sample_vm_ok by simp

text \<open>A defect of the translation of 1 GB pages: its address mask reaches bit 55, so a software bit of the
  entry (bits 52 to 62 are free for software) shows up in the physical address.\<close>

theorem vmm_get_phys_1G_mask:
  "vmm_get_phys (set_entry sample_vm 0x2000 0 0x10000040000083) 0x123 = 0x10000040000123 \<and>
   vmm_get_phys (set_entry sample_vm 0x2000 0 0x00000040000083) 0x123 = 0x00000040000123"
  by (simp add: vmm_get_phys_def get_pml4_def next_table_def sample_vm_def Let_def set_entry_def
      phys_to_virt_def table_to_phys_def KERNEL_PHYS_BASE_def KERNEL_VIRT_BASE_def PTE_ADDR_MASK_def
      pt_read_def test_flag_def PML4_INDEX_def PDPT_INDEX_def PD_INDEX_def PT_INDEX_def)

end
