(* ===== verification/Slab.thy ===== *)
theory Slab
  imports Vmm_Correct "HOL-Library.Monad_Syntax"
begin

text \<open>
  The kernel heap, \<^verbatim>\<open>kernel/mm/slab.c\<close> and \<^verbatim>\<open>slab.h\<close>: page runs at growing virtual addresses, and on
  them caches of equally sized objects kept in slabs.

  Addresses are 64-bit words.  The descriptors of caches and slabs and the link word at the start
  of a free object live in the heap pages themselves; the model keeps them in three stores
  indexed by their addresses.  An operation returns \<open>None\<close> when the code panics, when it makes an
  access the page allocator cannot serve, or when a walk along a list does not end.
\<close>

section \<open>State\<close>

definition KHEAP_START :: u64 where
  "KHEAP_START = 0xFFFFFFFF88000000"

definition KHEAP_END :: u64 where
  "KHEAP_END = 0xFFFFFFFFC0000000"

definition SLAB_MIN_SIZE :: u64 where
  "SLAB_MIN_SIZE = 16"

definition SLAB_MAX_SIZE :: u64 where
  "SLAB_MAX_SIZE = 4096"

definition KMALLOC_MAX_CACHE :: nat where
  "KMALLOC_MAX_CACHE = 12"

abbreviation (input) SLAB_PANIC :: u32 where "SLAB_PANIC \<equiv> 2"
abbreviation (input) SLAB_ZERO :: u32 where "SLAB_ZERO \<equiv> 4"

text \<open>The size of a slab descriptor in bytes.\<close>

abbreviation (input) sizeof_slab :: u64 where "sizeof_slab \<equiv> 48"

type_synonym vptr = "u64 option"

record slab =
  sl_next :: vptr
  sl_prev :: vptr
  sl_cache :: vptr
  sl_free_list :: vptr
  sl_in_use :: u32
  sl_total :: u32
  sl_objects :: u64

record kmem_cache =
  c_name :: string
  c_obj_size :: u64
  c_align :: u64
  c_slab_size :: u64
  c_objs_per_slab :: u32
  c_flags :: u32
  slabs_full :: vptr
  slabs_partial :: vptr
  slabs_empty :: vptr
  c_alloc_count :: u64
  c_free_count :: u64
  c_slab_count :: u64
  c_next :: vptr

record heap =
  hp_vm :: vm_state
  heap_current :: u64
  cache_list :: vptr
  kmalloc_caches :: "nat \<Rightarrow> vptr"
  hp_caches :: "u64 \<Rightarrow> kmem_cache"
  hp_slabs :: "u64 \<Rightarrow> slab"
  obj_next :: "u64 \<Rightarrow> vptr"

definition kmalloc_sizes :: "nat \<Rightarrow> u64" where
  "kmalloc_sizes i = [16, 32, 64, 128, 256, 512, 1024, 2048, 4096, 8192, 16384, 32768] ! i"

definition kmalloc_names :: "nat \<Rightarrow> string" where
  "kmalloc_names i =
     [''kmalloc-16'', ''kmalloc-32'', ''kmalloc-64'', ''kmalloc-128'', ''kmalloc-256'', ''kmalloc-512'',
      ''kmalloc-1024'', ''kmalloc-2048'', ''kmalloc-4096'', ''kmalloc-8192'', ''kmalloc-16384'', ''kmalloc-32768''] ! i"

section \<open>Heap pages\<close>

text \<open>Unmapping and freeing \<open>n\<close> pages of a run from page \<open>j\<close> on: the roll-back loops of
  \<open>heap_alloc_pages\<close> and the loop of \<open>heap_free_pages\<close>.\<close>

fun heap_release :: "vm_state \<Rightarrow> u64 \<Rightarrow> nat \<Rightarrow> nat \<Rightarrow> vm_state option" where
  "heap_release s virt j 0 = Some s"
| "heap_release s virt j (Suc n) =
     (case vmm_unmap_page s (virt + of_nat j * PAGE_SIZE) of (p, s1) \<Rightarrow>
        if p \<noteq> 0 then
          do { m \<leftarrow> free_page (vm_pmm s1) p;
               heap_release (s1\<lparr>vm_pmm := m\<rparr>) virt (Suc j) n }
        else heap_release s1 virt (Suc j) n)"

text \<open>The loop of \<open>heap_alloc_pages\<close> from page \<open>i\<close> with \<open>n\<close> pages left; the flag says whether all
  pages were mapped.\<close>

fun heap_map_pages :: "vm_state \<Rightarrow> u64 \<Rightarrow> nat \<Rightarrow> nat \<Rightarrow> (bool \<times> vm_state) option" where
  "heap_map_pages s virt i 0 = Some (True, s)"
| "heap_map_pages s virt i (Suc n) =
     (case alloc_page (vm_pmm s) of (phys, m) \<Rightarrow>
        let s1 = s\<lparr>vm_pmm := m\<rparr> in
        if phys = 0 then do { s2 \<leftarrow> heap_release s1 virt 0 i; Some (False, s2) }
        else
          (case vmm_map_page s1 (virt + of_nat i * PAGE_SIZE) phys PTE_KERNEL_RW of (r, s2) \<Rightarrow>
             if r \<noteq> 0 then
               do { m2 \<leftarrow> free_page (vm_pmm s2) phys;
                    s3 \<leftarrow> heap_release (s2\<lparr>vm_pmm := m2\<rparr>) virt 0 i;
                    Some (False, s3) }
             else heap_map_pages s2 virt (Suc i) n))"

definition heap_alloc_pages :: "heap \<Rightarrow> u64 \<Rightarrow> (vptr \<times> heap) option" where
  "heap_alloc_pages h count =
     (if KHEAP_END < heap_current h + count * PAGE_SIZE then Some (None, h)
      else
        let virt = heap_current h in
        do { (done, s) \<leftarrow> heap_map_pages (hp_vm h) virt 0 (unat count);
             if done
             then Some (Some virt, h\<lparr>hp_vm := s, heap_current := heap_current h + count * PAGE_SIZE\<rparr>)
             else Some (None, h\<lparr>hp_vm := s\<rparr>) })"

definition heap_free_pages :: "heap \<Rightarrow> u64 \<Rightarrow> u64 \<Rightarrow> heap option" where
  "heap_free_pages h ptr count =
     do { s \<leftarrow> heap_release (hp_vm h) ptr 0 (unat count); Some (h\<lparr>hp_vm := s\<rparr>) }"

section \<open>Caches\<close>

definition calc_objs_per_slab :: "u64 \<Rightarrow> u64 \<Rightarrow> u32" where
  "calc_objs_per_slab obj_size slab_pages =
     (let slab_size = slab_pages * PAGE_SIZE;
          usable = slab_size - sizeof_slab
      in ucast (usable div obj_size))"

text \<open>The loop that doubles the slab until it holds two objects or sixteen pages.\<close>

partial_function (option) grow_slab :: "u64 \<Rightarrow> u32 \<Rightarrow> u64 \<Rightarrow> (u32 \<times> u64) option" where
  "grow_slab obj_size objs pages =
     (if objs < 2 \<and> pages < 16
      then grow_slab obj_size (calc_objs_per_slab obj_size (pages * 2)) (pages * 2)
      else Some (objs, pages))"

definition kmem_cache_create :: "heap \<Rightarrow> string \<Rightarrow> u64 \<Rightarrow> u64 \<Rightarrow> u32 \<Rightarrow> (vptr \<times> heap) option" where
  "kmem_cache_create h name size0 align0 flags =
     (let size1 = (if size0 < SLAB_MIN_SIZE then SLAB_MIN_SIZE else size0);
          align = (if align0 = 0
                   then (if 8 < size1 \<and> size1 \<le> 16 then 16 else if 16 < size1 then 16 else 8)
                   else align0);
          size = ALIGN_UP size1 align in
      do { (p, h1) \<leftarrow> heap_alloc_pages h 1;
           case p of
             None \<Rightarrow> Some (None, h1)
           | Some cache \<Rightarrow>
               let pages0 = (if size \<le> 256 then 1 else if size \<le> 1024 then 2 else 4) in
               do { (objs, pages) \<leftarrow> grow_slab size (calc_objs_per_slab size pages0) pages0;
                    let c = \<lparr>c_name = name, c_obj_size = size, c_align = align, c_slab_size = pages,
                             c_objs_per_slab = objs, c_flags = flags,
                             slabs_full = None, slabs_partial = None, slabs_empty = None,
                             c_alloc_count = 0, c_free_count = 0, c_slab_count = 0,
                             c_next = cache_list h1\<rparr>
                    in Some (Some cache, h1\<lparr>hp_caches := (hp_caches h1)(cache := c),
                                           cache_list := Some cache\<rparr>) } })"

definition upd_cache :: "u64 \<Rightarrow> (kmem_cache \<Rightarrow> kmem_cache) \<Rightarrow> heap \<Rightarrow> heap" where
  "upd_cache cache f h = h\<lparr>hp_caches := (hp_caches h)(cache := f (hp_caches h cache))\<rparr>"

text \<open>Chaining the objects of a new slab: each in turn becomes the head of the free list.\<close>

definition init_free_list :: "u64 \<Rightarrow> u64 \<Rightarrow> nat \<Rightarrow> (u64 \<Rightarrow> vptr) \<Rightarrow> vptr \<times> (u64 \<Rightarrow> vptr)" where
  "init_free_list obj0 obj_size n_objs nx =
     fold (\<lambda>i (fl, nx). let obj = obj0 + of_nat i * obj_size in (Some obj, nx(obj := fl)))
       [0..<n_objs] (None, nx)"

definition slab_create :: "heap \<Rightarrow> u64 \<Rightarrow> (vptr \<times> heap) option" where
  "slab_create h cache =
     (let c = hp_caches h cache in
      do { (p, h1) \<leftarrow> heap_alloc_pages h (c_slab_size c);
           case p of
             None \<Rightarrow> Some (None, h1)
           | Some mem \<Rightarrow>
               let obj_start = ALIGN_UP (mem + sizeof_slab) (c_align c);
                   (fl, nx) = init_free_list obj_start (c_obj_size c) (unat (c_objs_per_slab c)) (obj_next h1);
                   sl = \<lparr>sl_next = None, sl_prev = None, sl_cache = Some cache, sl_free_list = fl,
                         sl_in_use = 0, sl_total = c_objs_per_slab c, sl_objects = obj_start\<rparr>
               in Some (Some mem,
                    upd_cache cache (\<lambda>c. c\<lparr>c_slab_count := c_slab_count c + 1\<rparr>)
                      (h1\<lparr>hp_slabs := (hp_slabs h1)(mem := sl), obj_next := nx\<rparr>)) })"

definition slab_destroy :: "heap \<Rightarrow> u64 \<Rightarrow> u64 \<Rightarrow> heap option" where
  "slab_destroy h cache slab =
     do { h1 \<leftarrow> heap_free_pages h slab (c_slab_size (hp_caches h cache));
          Some (upd_cache cache (\<lambda>c. c\<lparr>c_slab_count := c_slab_count c - 1\<rparr>) h1) }"

text \<open>The list operations take the head of the list and return the new one.\<close>

definition slab_list_add :: "vptr \<Rightarrow> u64 \<Rightarrow> (u64 \<Rightarrow> slab) \<Rightarrow> vptr \<times> (u64 \<Rightarrow> slab)" where
  "slab_list_add list slab st =
     (let st1 = st(slab := (st slab)\<lparr>sl_prev := None, sl_next := list\<rparr>);
          st2 = (case list of None \<Rightarrow> st1 | Some h \<Rightarrow> st1(h := (st1 h)\<lparr>sl_prev := Some slab\<rparr>))
      in (Some slab, st2))"

definition slab_list_remove :: "vptr \<Rightarrow> u64 \<Rightarrow> (u64 \<Rightarrow> slab) \<Rightarrow> vptr \<times> (u64 \<Rightarrow> slab)" where
  "slab_list_remove list slab st =
     (let (list1, st1) =
        (case sl_prev (st slab) of
           Some p \<Rightarrow> (list, st(p := (st p)\<lparr>sl_next := sl_next (st slab)\<rparr>))
         | None \<Rightarrow> (sl_next (st slab), st));
          st2 = (case sl_next (st1 slab) of
             Some n \<Rightarrow> st1(n := (st1 n)\<lparr>sl_prev := sl_prev (st1 slab)\<rparr>) | None \<Rightarrow> st1)
      in (list1, st2(slab := (st2 slab)\<lparr>sl_prev := None, sl_next := None\<rparr>)))"

definition slab_alloc_obj :: "heap \<Rightarrow> u64 \<Rightarrow> vptr \<times> heap" where
  "slab_alloc_obj h slab =
     (case sl_free_list (hp_slabs h slab) of
        None \<Rightarrow> (None, h)
      | Some obj \<Rightarrow>
          (Some obj, h\<lparr>hp_slabs := (hp_slabs h)(slab := (hp_slabs h slab)
             \<lparr>sl_free_list := obj_next h obj, sl_in_use := sl_in_use (hp_slabs h slab) + 1\<rparr>)\<rparr>))"

definition slab_free_obj :: "heap \<Rightarrow> u64 \<Rightarrow> u64 \<Rightarrow> heap" where
  "slab_free_obj h slab obj =
     h\<lparr>obj_next := (obj_next h)(obj := sl_free_list (hp_slabs h slab)),
       hp_slabs := (hp_slabs h)(slab := (hp_slabs h slab)
         \<lparr>sl_free_list := Some obj, sl_in_use := sl_in_use (hp_slabs h slab) - 1\<rparr>)\<rparr>"

section \<open>Objects\<close>

partial_function (option) find_in_slabs :: "heap \<Rightarrow> u64 \<Rightarrow> vptr \<Rightarrow> u64 \<Rightarrow> vptr option" where
  "find_in_slabs h bytes list addr =
     (case list of
        None \<Rightarrow> Some None
      | Some slab \<Rightarrow>
          if slab \<le> addr \<and> addr < slab + bytes then Some (Some slab)
          else find_in_slabs h bytes (sl_next (hp_slabs h slab)) addr)"

definition find_slab_for_obj :: "heap \<Rightarrow> u64 \<Rightarrow> u64 \<Rightarrow> vptr option" where
  "find_slab_for_obj h cache obj =
     (let c = hp_caches h cache;
          bytes = c_slab_size c * PAGE_SIZE in
      do { r \<leftarrow> find_in_slabs h bytes (slabs_partial c) obj;
           case r of
             Some slab \<Rightarrow> Some (Some slab)
           | None \<Rightarrow> find_in_slabs h bytes (slabs_full c) obj })"

text \<open>Moving a slab between the lists of its cache.\<close>

definition full_add :: "u64 \<Rightarrow> u64 \<Rightarrow> heap \<Rightarrow> heap" where
  "full_add cache slab h =
     (let (l, st) = slab_list_add (slabs_full (hp_caches h cache)) slab (hp_slabs h)
      in upd_cache cache (\<lambda>c. c\<lparr>slabs_full := l\<rparr>) (h\<lparr>hp_slabs := st\<rparr>))"

definition full_remove :: "u64 \<Rightarrow> u64 \<Rightarrow> heap \<Rightarrow> heap" where
  "full_remove cache slab h =
     (let (l, st) = slab_list_remove (slabs_full (hp_caches h cache)) slab (hp_slabs h)
      in upd_cache cache (\<lambda>c. c\<lparr>slabs_full := l\<rparr>) (h\<lparr>hp_slabs := st\<rparr>))"

definition partial_add :: "u64 \<Rightarrow> u64 \<Rightarrow> heap \<Rightarrow> heap" where
  "partial_add cache slab h =
     (let (l, st) = slab_list_add (slabs_partial (hp_caches h cache)) slab (hp_slabs h)
      in upd_cache cache (\<lambda>c. c\<lparr>slabs_partial := l\<rparr>) (h\<lparr>hp_slabs := st\<rparr>))"

definition partial_remove :: "u64 \<Rightarrow> u64 \<Rightarrow> heap \<Rightarrow> heap" where
  "partial_remove cache slab h =
     (let (l, st) = slab_list_remove (slabs_partial (hp_caches h cache)) slab (hp_slabs h)
      in upd_cache cache (\<lambda>c. c\<lparr>slabs_partial := l\<rparr>) (h\<lparr>hp_slabs := st\<rparr>))"

definition empty_add :: "u64 \<Rightarrow> u64 \<Rightarrow> heap \<Rightarrow> heap" where
  "empty_add cache slab h =
     (let (l, st) = slab_list_add (slabs_empty (hp_caches h cache)) slab (hp_slabs h)
      in upd_cache cache (\<lambda>c. c\<lparr>slabs_empty := l\<rparr>) (h\<lparr>hp_slabs := st\<rparr>))"

definition empty_remove :: "u64 \<Rightarrow> u64 \<Rightarrow> heap \<Rightarrow> heap" where
  "empty_remove cache slab h =
     (let (l, st) = slab_list_remove (slabs_empty (hp_caches h cache)) slab (hp_slabs h)
      in upd_cache cache (\<lambda>c. c\<lparr>slabs_empty := l\<rparr>) (h\<lparr>hp_slabs := st\<rparr>))"

definition slab_is_full :: "heap \<Rightarrow> u64 \<Rightarrow> bool" where
  "slab_is_full h slab \<longleftrightarrow> sl_in_use (hp_slabs h slab) = sl_total (hp_slabs h slab)"

text \<open>Filing a slab that just gave out an object and is in no list.\<close>

definition file_slab :: "u64 \<Rightarrow> u64 \<Rightarrow> heap \<Rightarrow> heap" where
  "file_slab cache slab h =
     (if slab_is_full h slab then full_add cache slab h else partial_add cache slab h)"

definition count_alloc :: "u64 \<Rightarrow> vptr \<Rightarrow> heap \<Rightarrow> vptr \<times> heap" where
  "count_alloc cache obj h =
     (let h1 = upd_cache cache (\<lambda>c. c\<lparr>c_alloc_count := c_alloc_count c + 1\<rparr>) h in
      (obj, case obj of
         None \<Rightarrow> h1
       | Some p \<Rightarrow>
           if test_flag (c_flags (hp_caches h1 cache)) SLAB_ZERO
           then h1\<lparr>obj_next := (obj_next h1)(p := None)\<rparr> else h1))"

definition kmem_cache_alloc :: "heap \<Rightarrow> vptr \<Rightarrow> (vptr \<times> heap) option" where
  "kmem_cache_alloc h cp =
     (case cp of
        None \<Rightarrow> Some (None, h)
      | Some cache \<Rightarrow>
          (case slabs_partial (hp_caches h cache) of
             Some slab \<Rightarrow>
               let (obj, h1) = slab_alloc_obj h slab;
                   h2 = (if slab_is_full h1 slab
                         then full_add cache slab (partial_remove cache slab h1) else h1)
               in Some (count_alloc cache obj h2)
           | None \<Rightarrow>
               (case slabs_empty (hp_caches h cache) of
                  Some slab \<Rightarrow>
                    let (obj, h1) = slab_alloc_obj (empty_remove cache slab h) slab
                    in Some (count_alloc cache obj (file_slab cache slab h1))
                | None \<Rightarrow>
                    do { (p, h1) \<leftarrow> slab_create h cache;
                         case p of
                           None \<Rightarrow>
                             if test_flag (c_flags (hp_caches h1 cache)) SLAB_PANIC then None
                             else Some (None, h1)
                         | Some slab \<Rightarrow>
                             let (obj, h2) = slab_alloc_obj h1 slab
                             in Some (count_alloc cache obj (file_slab cache slab h2)) })))"

definition kmem_cache_free :: "heap \<Rightarrow> vptr \<Rightarrow> vptr \<Rightarrow> heap option" where
  "kmem_cache_free h cp op =
     (case (cp, op) of
        (Some cache, Some obj) \<Rightarrow>
          do { r \<leftarrow> find_slab_for_obj h cache obj;
               case r of
                 None \<Rightarrow> Some h
               | Some slab \<Rightarrow>
                   let was_full = slab_is_full h slab;
                       h1 = upd_cache cache (\<lambda>c. c\<lparr>c_free_count := c_free_count c + 1\<rparr>)
                              (slab_free_obj h slab obj) in
                   if was_full then Some (partial_add cache slab (full_remove cache slab h1))
                   else if sl_in_use (hp_slabs h1 slab) = 0 then
                     let h2 = partial_remove cache slab h1 in
                     if slabs_empty (hp_caches h2 cache) = None then Some (empty_add cache slab h2)
                     else slab_destroy h2 cache slab
                   else Some h1 }
      | _ \<Rightarrow> Some h)"

section \<open>General purpose allocation\<close>

definition find_kmalloc_cache :: "u64 \<Rightarrow> nat option" where
  "find_kmalloc_cache sz = List.find (\<lambda>i. sz \<le> kmalloc_sizes i) [0..<KMALLOC_MAX_CACHE]"

definition kmalloc :: "heap \<Rightarrow> u64 \<Rightarrow> (vptr \<times> heap) option" where
  "kmalloc h sz =
     (if sz = 0 then Some (None, h)
      else if SLAB_MAX_SIZE < sz then heap_alloc_pages h ((sz + PAGE_SIZE - 1) div PAGE_SIZE)
      else
        (case find_kmalloc_cache sz of
           None \<Rightarrow> Some (None, h)
         | Some idx \<Rightarrow> kmem_cache_alloc h (kmalloc_caches h idx)))"

text \<open>Of the memory that is cleared only the words that can link free objects are part of the state.\<close>

definition kzalloc :: "heap \<Rightarrow> u64 \<Rightarrow> (vptr \<times> heap) option" where
  "kzalloc h sz =
     do { (p, h1) \<leftarrow> kmalloc h sz;
          case p of
            None \<Rightarrow> Some (None, h1)
          | Some ptr \<Rightarrow>
              Some (Some ptr, h1\<lparr>obj_next := (\<lambda>x. if x - ptr < sz then None else obj_next h1 x)\<rparr>) }"

text \<open>The caches are searched in order for the one with a slab around the pointer.\<close>

fun find_kmalloc_owner :: "heap \<Rightarrow> u64 \<Rightarrow> nat list \<Rightarrow> vptr option" where
  "find_kmalloc_owner h ptr [] = Some None"
| "find_kmalloc_owner h ptr (i # is) =
     (case kmalloc_caches h i of
        None \<Rightarrow> find_kmalloc_owner h ptr is
      | Some cache \<Rightarrow>
          do { r \<leftarrow> find_slab_for_obj h cache ptr;
               case r of Some _ \<Rightarrow> Some (Some cache) | None \<Rightarrow> find_kmalloc_owner h ptr is })"

definition kfree :: "heap \<Rightarrow> vptr \<Rightarrow> heap option" where
  "kfree h op =
     (case op of
        None \<Rightarrow> Some h
      | Some addr \<Rightarrow>
          if addr < KHEAP_START \<or> heap_current h \<le> addr then Some h
          else
            do { r \<leftarrow> find_kmalloc_owner h addr [0..<KMALLOC_MAX_CACHE];
                 case r of None \<Rightarrow> Some h | Some cache \<Rightarrow> kmem_cache_free h (Some cache) (Some addr) })"

definition ksize :: "heap \<Rightarrow> vptr \<Rightarrow> u64 option" where
  "ksize h op =
     (case op of
        None \<Rightarrow> Some 0
      | Some addr \<Rightarrow>
          if addr < KHEAP_START \<or> heap_current h \<le> addr then Some 0
          else
            do { r \<leftarrow> find_kmalloc_owner h addr [0..<KMALLOC_MAX_CACHE];
                 case r of None \<Rightarrow> Some 0 | Some cache \<Rightarrow> Some (c_obj_size (hp_caches h cache)) })"

text \<open>Destroying a cache: every slab of its three lists, then its descriptor.\<close>

partial_function (option) destroy_slabs :: "heap \<Rightarrow> u64 \<Rightarrow> vptr \<Rightarrow> heap option" where
  "destroy_slabs h cache list =
     (case list of
        None \<Rightarrow> Some h
      | Some slab \<Rightarrow>
          let nx = sl_next (hp_slabs h slab) in
          do { h1 \<leftarrow> slab_destroy h cache slab; destroy_slabs h1 cache nx })"

partial_function (option) unlink_cache :: "(u64 \<Rightarrow> kmem_cache) \<Rightarrow> u64 \<Rightarrow> vptr \<Rightarrow> (u64 \<Rightarrow> kmem_cache) option" where
  "unlink_cache cs cache list =
     (case list of
        None \<Rightarrow> Some cs
      | Some c \<Rightarrow>
          if c_next (cs c) = Some cache then Some (cs(c := (cs c)\<lparr>c_next := c_next (cs cache)\<rparr>))
          else unlink_cache cs cache (c_next (cs c)))"

definition kmem_cache_destroy :: "heap \<Rightarrow> vptr \<Rightarrow> heap option" where
  "kmem_cache_destroy h cp =
     (case cp of
        None \<Rightarrow> Some h
      | Some cache \<Rightarrow>
          do { h1 \<leftarrow> destroy_slabs h cache (slabs_full (hp_caches h cache));
               h2 \<leftarrow> destroy_slabs h1 cache (slabs_partial (hp_caches h1 cache));
               h3 \<leftarrow> destroy_slabs h2 cache (slabs_empty (hp_caches h2 cache));
               h4 \<leftarrow> (if cache_list h3 = Some cache
                     then Some (h3\<lparr>cache_list := c_next (hp_caches h3 cache)\<rparr>)
                     else do { cs \<leftarrow> unlink_cache (hp_caches h3) cache (cache_list h3);
                               Some (h3\<lparr>hp_caches := cs\<rparr>) });
               heap_free_pages h4 cache 1 })"

text \<open>\<open>slab_init\<close> creates the caches of the size classes in order and panics if one fails.\<close>

fun create_kmalloc_caches :: "heap \<Rightarrow> nat list \<Rightarrow> heap option" where
  "create_kmalloc_caches h [] = Some h"
| "create_kmalloc_caches h (i # is) =
     do { (p, h1) \<leftarrow> kmem_cache_create h (kmalloc_names i) (kmalloc_sizes i) 0 0;
          case p of
            None \<Rightarrow> None
          | Some c \<Rightarrow> create_kmalloc_caches (h1\<lparr>kmalloc_caches := (kmalloc_caches h1)(i := Some c)\<rparr>) is }"

definition slab_init :: "heap \<Rightarrow> heap option" where
  "slab_init h = create_kmalloc_caches (h\<lparr>heap_current := KHEAP_START\<rparr>) [0..<KMALLOC_MAX_CACHE]"

end
