(* ===== verification/Slab_Pages.thy ===== *)
theory Slab_Pages
  imports Slab
begin

text \<open>
  The page runs of the kernel heap.  \<open>heap_vm\<close> says that the pages of the heap window map distinct
  page frames which are neither free nor used as page tables; taking, mapping, unmapping and
  giving back a frame keep it, so that the roll-back of a failed allocation restores the
  translation it started from and never frees a frame it does not own.
\<close>

section \<open>Frames behind heap pages\<close>

definition in_heap :: "u64 \<Rightarrow> bool" where
  "in_heap v \<longleftrightarrow> KHEAP_START \<le> v \<and> v < KHEAP_END"

definition frame_at :: "vm_state \<Rightarrow> u64 \<Rightarrow> nat option" where
  "frame_at s v = (case leaf s v of Some (d, e) \<Rightarrow> Some (phys_to_pfn (e AND PTE_ADDR_MASK)) | None \<Rightarrow> None)"

definition small_pages :: "vm_state \<Rightarrow> bool" where
  "small_pages s \<longleftrightarrow> (\<forall>v d e. in_heap v \<and> leaf s v = Some (d, e) \<longrightarrow> d = 3 \<and> e AND PTE_ADDR_MASK \<noteq> 0)"

text \<open>A frame that is taken from the allocator and not used for a table or a heap page.\<close>

definition owned :: "vm_state \<Rightarrow> nat \<Rightarrow> bool" where
  "owned s q \<longleftrightarrow> 0 < q \<and> q < total_pages (vm_pmm s) \<and> q \<notin> pmm_free (vm_pmm s) \<and> \<not> is_table s q \<and>
     (\<forall>v. in_heap v \<longrightarrow> frame_at s v \<noteq> Some q)"

definition heap_vm :: "vm_state \<Rightarrow> bool" where
  "heap_vm s \<longleftrightarrow> vm_ok s \<and> small_pages s \<and>
     (\<forall>v q. in_heap v \<and> frame_at s v = Some q \<longrightarrow>
        0 < q \<and> q < total_pages (vm_pmm s) \<and> q \<notin> pmm_free (vm_pmm s) \<and> \<not> is_table s q) \<and>
     (\<forall>v w q. in_heap v \<and> in_heap w \<and> frame_at s v = Some q \<and> frame_at s w = Some q \<longrightarrow> page_of v = page_of w)"

lemma heap_vmD:
  assumes "heap_vm s"
  shows "vm_ok s" "small_pages s"
    "in_heap v \<Longrightarrow> frame_at s v = Some q \<Longrightarrow> 0 < q \<and> q < total_pages (vm_pmm s) \<and> q \<notin> pmm_free (vm_pmm s) \<and> \<not> is_table s q"
    "in_heap v \<Longrightarrow> in_heap w \<Longrightarrow> frame_at s v = Some q \<Longrightarrow> frame_at s w = Some q \<Longrightarrow> page_of v = page_of w"
  using assms unfolding heap_vm_def by blast+

lemma heap_vmI:
  assumes "vm_ok s" "small_pages s"
    and "\<And>v q. in_heap v \<Longrightarrow> frame_at s v = Some q \<Longrightarrow>
      0 < q \<and> q < total_pages (vm_pmm s) \<and> q \<notin> pmm_free (vm_pmm s) \<and> \<not> is_table s q"
    and "\<And>v w q. in_heap v \<Longrightarrow> in_heap w \<Longrightarrow> frame_at s v = Some q \<Longrightarrow> frame_at s w = Some q \<Longrightarrow> page_of v = page_of w"
  shows "heap_vm s"
  unfolding heap_vm_def using assms by blast

lemma vm_pmm_update [simp]:
  "table_of (s\<lparr>vm_pmm := m\<rparr>) d v = table_of s d v" "entry (s\<lparr>vm_pmm := m\<rparr>) d v = entry s d v"
  "leaf (s\<lparr>vm_pmm := m\<rparr>) v = leaf s v" "is_table (s\<lparr>vm_pmm := m\<rparr>) q = is_table s q"
  "tree_ok (s\<lparr>vm_pmm := m\<rparr>) = tree_ok s" "frame_at (s\<lparr>vm_pmm := m\<rparr>) v = frame_at s v"
  "small_pages (s\<lparr>vm_pmm := m\<rparr>) = small_pages s"
proof -
  have t: "table_of (s\<lparr>vm_pmm := m\<rparr>) d v = table_of s d v" for d v
    by (induction d) (simp_all split: option.splits)
  have e: "entry (s\<lparr>vm_pmm := m\<rparr>) d v = entry s d v" for d v
    by (simp add: entry_def t split: option.splits)
  show "table_of (s\<lparr>vm_pmm := m\<rparr>) d v = table_of s d v" "entry (s\<lparr>vm_pmm := m\<rparr>) d v = entry s d v"
    by (rule t, rule e)
  show l: "leaf (s\<lparr>vm_pmm := m\<rparr>) v = leaf s v" for v by (simp add: leaf_def e)
  show "is_table (s\<lparr>vm_pmm := m\<rparr>) q = is_table s q" by (simp add: is_table_def t)
  show "tree_ok (s\<lparr>vm_pmm := m\<rparr>) = tree_ok s" by (simp add: tree_ok_def t)
  show "frame_at (s\<lparr>vm_pmm := m\<rparr>) v = frame_at s v" by (simp add: frame_at_def l)
  show "small_pages (s\<lparr>vm_pmm := m\<rparr>) = small_pages s" by (simp add: small_pages_def l)
qed

text \<open>Changing the free set to one that contains no frame in use keeps the invariant.\<close>

lemma heap_vm_free_set:
  assumes "heap_vm s" "pmm_good m" "total_pages m = total_pages (vm_pmm s)"
    and "\<And>q. q \<in> pmm_free m \<Longrightarrow> q \<notin> pmm_free (vm_pmm s) \<Longrightarrow>
      \<not> is_table s q \<and> (\<forall>v. in_heap v \<longrightarrow> frame_at s v \<noteq> Some q)"
  shows "heap_vm (s\<lparr>vm_pmm := m\<rparr>)"
proof -
  note hv = heap_vmD [OF assms(1)]
  have "phys_to_pfn t \<notin> pmm_free m" if "d \<le> 3" "table_of s d v = Some t" for d v t
    using assms(4) [of "phys_to_pfn t"] hv(1) that by (auto simp: vm_ok_def is_table_def)
  then have "vm_ok (s\<lparr>vm_pmm := m\<rparr>)"
    using hv(1) assms(2,3) by (auto simp: vm_ok_def)
  moreover have "q \<notin> pmm_free m" if "in_heap v" "frame_at s v = Some q" for v q
    using assms(4) [of q] hv(3) [OF that] that by blast
  moreover have "page_of v = page_of w"
    if "in_heap v" "in_heap w" "frame_at s v = Some q" "frame_at s w = Some q" for v w q
    by (rule hv(4) [OF that])
  ultimately show ?thesis
    using hv(2,3) assms(3) unfolding heap_vm_def by (simp only: vm_pmm_update) auto
qed

lemma heap_take_frame:
  assumes "heap_vm s" "alloc_page (vm_pmm s) = (phys, m)" "phys \<noteq> 0"
  obtains q where "phys = pfn_to_phys q" "heap_vm (s\<lparr>vm_pmm := m\<rparr>)" "owned (s\<lparr>vm_pmm := m\<rparr>) q"
    "pmm_free m = pmm_free (vm_pmm s) - {q}" "q \<in> pmm_free (vm_pmm s)"
    "total_pages m = total_pages (vm_pmm s)"
proof -
  note hv = heap_vmD [OF assms(1)]
  have good: "pmm_good (vm_pmm s)" using hv(1) by (simp add: vm_ok_def)
  obtain q where q: "phys = pfn_to_phys q" "0 < q" "q < total_pages (vm_pmm s)" "q \<in> pmm_free (vm_pmm s)"
      "pmm_free m = pmm_free (vm_pmm s) - {q}" "pmm_good m" "total_pages m = total_pages (vm_pmm s)"
    using pmm.alloc_result [OF good assms(2,3)] by metis
  have "\<not> is_table s q"
    using hv(1) q(4) by (auto simp: vm_ok_def is_table_def)
  moreover have "frame_at s v \<noteq> Some q" if "in_heap v" for v
    using hv(3) [OF that] q(4) by blast
  ultimately have "owned (s\<lparr>vm_pmm := m\<rparr>) q"
    using q by (simp add: owned_def)
  moreover have "heap_vm (s\<lparr>vm_pmm := m\<rparr>)"
    using q by (intro heap_vm_free_set [OF assms(1)]) simp_all
  ultimately show ?thesis using that [of q] q by simp
qed

lemma heap_give_frame:
  assumes "heap_vm s" "owned s q"
  obtains m where "free_page (vm_pmm s) (pfn_to_phys q) = Some m" "heap_vm (s\<lparr>vm_pmm := m\<rparr>)"
    "pmm_free m = insert q (pmm_free (vm_pmm s))" "total_pages m = total_pages (vm_pmm s)"
proof -
  have good: "pmm_good (vm_pmm s)" using heap_vmD(1) [OF assms(1)] by (simp add: vm_ok_def)
  obtain m where m: "free_page (vm_pmm s) (pfn_to_phys q) = Some m" "pmm_good m"
      "total_pages m = total_pages (vm_pmm s)" "pmm_free m = insert q (pmm_free (vm_pmm s))"
    using pmm.free_frame [OF good, of q] assms(2) by (auto simp: owned_def)
  moreover have "heap_vm (s\<lparr>vm_pmm := m\<rparr>)"
    using m(2-4) assms(2) by (intro heap_vm_free_set [OF assms(1)]) (simp_all add: owned_def)
  ultimately show ?thesis using that [of m] by simp
qed

lemma frame_at_page: "page_of v = page_of w \<Longrightarrow> frame_at s v = frame_at s w"
  using leaf_page [of v w s] by (simp add: frame_at_def)

text \<open>Mapping an owned frame at a heap page.\<close>

lemma heap_map_frame:
  assumes hv: "heap_vm s" and own: "owned s q" and v: "in_heap v"
    and run: "vmm_map_page s v (pfn_to_phys q) PTE_KERNEL_RW = (r, s')"
  shows "heap_vm s'" and "total_pages (vm_pmm s') = total_pages (vm_pmm s)"
    and "pmm_free (vm_pmm s') \<subseteq> pmm_free (vm_pmm s)"
    and "r = 0 \<Longrightarrow> frame_at s' w = (if page_of w = page_of v then Some q else frame_at s w)"
    and "r \<noteq> 0 \<Longrightarrow> frame_at s' w = frame_at s w" and "r \<noteq> 0 \<Longrightarrow> owned s' q"
proof -
  note h = heap_vmD [OF hv] and sp = vmm_map_page_leaf [OF heap_vmD(1) [OF hv] run]
  note o = own [unfolded owned_def]
  have small: "q < 2 ^ 40" using o h(1) by (auto simp: vm_ok_def)
  then have addr: "pfn_to_phys q AND PTE_ADDR_MASK = pfn_to_phys q" by (rule pfn_to_phys_masked)
  have pfn: "phys_to_pfn (pfn_to_phys q) = q" "pfn_to_phys q \<noteq> 0"
    using small o by (simp_all add: pfn_to_phys_inverse pfn_to_phys_eq_0)
  have f0: "frame_at s' w = (if page_of w = page_of v then Some q else frame_at s w)" if "r = 0" for w
    using sp(3) [OF that, of w] addr pfn by (simp add: frame_at_def)
  have f1: "frame_at s' w = frame_at s w" "leaf s' w = leaf s w" if "r \<noteq> 0" for w
    using sp(2,4) that by (auto simp: frame_at_def)
  have tabs: "\<not> is_table s' x" if "\<not> is_table s x" "x \<notin> pmm_free (vm_pmm s)" for x
    using sp(8) that by blast
  have used: "0 < x \<and> x < total_pages (vm_pmm s') \<and> x \<notin> pmm_free (vm_pmm s') \<and> \<not> is_table s' x"
    if "0 < x \<and> x < total_pages (vm_pmm s) \<and> x \<notin> pmm_free (vm_pmm s) \<and> \<not> is_table s x" for x
    using that tabs sp(6,7) by auto
  have small': "small_pages s'"
  proof (cases "r = 0")
    case True
    then show ?thesis
      using sp(3) h(2) addr pfn(2) unfolding small_pages_def by (auto split: if_splits)
  next
    case False
    then show ?thesis using f1(2) h(2) by (simp add: small_pages_def)
  qed
  show "heap_vm s'"
  proof (rule heap_vmI)
    show "vm_ok s'" "small_pages s'" by (rule sp(1), rule small')
  next
    fix w x
    assume w: "in_heap w" "frame_at s' w = Some x"
    then have "x = q \<or> frame_at s w = Some x"
      using f0 f1(1) by (cases "r = 0") (auto split: if_splits)
    then show "0 < x \<and> x < total_pages (vm_pmm s') \<and> x \<notin> pmm_free (vm_pmm s') \<and> \<not> is_table s' x"
      using used o h(3) [OF w(1)] by blast
  next
    fix w w' x
    assume w: "in_heap w" "in_heap w'" "frame_at s' w = Some x" "frame_at s' w' = Some x"
    show "page_of w = page_of w'"
    proof (cases "r = 0")
      case False
      then show ?thesis using w f1(1) h(4) by metis
    next
      case True
      then show ?thesis using w f0 [OF True] h(4) o by (metis option.inject)
    qed
  qed
  show "total_pages (vm_pmm s') = total_pages (vm_pmm s)" "pmm_free (vm_pmm s') \<subseteq> pmm_free (vm_pmm s)"
    by (rule sp(7), rule sp(6))
  show "r = 0 \<Longrightarrow> frame_at s' w = (if page_of w = page_of v then Some q else frame_at s w)" by (rule f0)
  show "r \<noteq> 0 \<Longrightarrow> frame_at s' w = frame_at s w" by (rule f1(1))
  show "r \<noteq> 0 \<Longrightarrow> owned s' q"
    using used [of q] o f1(1) by (simp add: owned_def)
qed

lemma masked_pfn:
  assumes "t AND PTE_ADDR_MASK = t"
  shows "pfn_to_phys (phys_to_pfn t) = t"
proof -
  have mask: "PTE_ADDR_MASK = push_bit 12 (mask 40)"
    by (simp add: PTE_ADDR_MASK_def mask_eq_decr_exp)
  have low: "12 \<le> n" if "bit t n" for n
    using that arg_cong [OF assms, of "\<lambda>x. bit x n"] unfolding mask by (auto simp: bit_simps)
  have "of_nat (unat (drop_bit 12 t)) = drop_bit 12 t" by simp
  then have "pfn_to_phys (phys_to_pfn t) = push_bit 12 (drop_bit 12 t)"
    by (simp only: pfn_to_phys_def phys_to_pfn_def PAGE_SHIFT_def)
  also have "push_bit 12 (drop_bit 12 t) = t"
    using low by (intro bit_word_eqI) (auto simp: bit_push_bit_iff bit_drop_bit_eq)
  finally show ?thesis .
qed

text \<open>Unmapping a heap page hands its frame to the caller.\<close>

lemma heap_unmap_frame:
  assumes hv: "heap_vm s" and v: "in_heap v" and run: "vmm_unmap_page s v = (p, s')"
  shows "heap_vm s'" and "vm_pmm s' = vm_pmm s"
    and "frame_at s' w = (if page_of w = page_of v then None else frame_at s w)"
    and "frame_at s v = None \<Longrightarrow> p = 0"
    and "frame_at s v = Some q \<Longrightarrow> p = pfn_to_phys q \<and> p \<noteq> 0 \<and> owned s' q"
proof -
  note h = heap_vmD [OF hv] and sp = vmm_unmap_page_leaf [OF heap_vmD(1) [OF hv] run]
  have f: "frame_at s' w = (if page_of w = page_of v then None else frame_at s w)" for w
  proof (cases "leaf s v")
    case None
    then have "s' = s" using sp(6) by simp
    then show ?thesis using None leaf_page [of w v s] by (simp add: frame_at_def)
  next
    case (Some x)
    then obtain e where "leaf s v = Some (3, e)" using h(2) v by (cases x) (auto simp: small_pages_def)
    then show ?thesis using sp(5) by (simp add: frame_at_def)
  qed
  have lf: "leaf s' w = (if page_of w = page_of v \<and> leaf s v \<noteq> None then None else leaf s w)" for w
  proof (cases "leaf s v")
    case None
    then show ?thesis using sp(6) by simp
  next
    case (Some x)
    then obtain e where "leaf s v = Some (3, e)" using h(2) v by (cases x) (auto simp: small_pages_def)
    then show ?thesis using sp(5) by simp
  qed
  show "vm_pmm s' = vm_pmm s" by (rule sp(2))
  show "heap_vm s'"
  proof (rule heap_vmI)
    show "vm_ok s'" by (rule sp(1))
    show "small_pages s'" using h(2) unfolding small_pages_def lf by auto
  next
    fix w x
    assume w: "in_heap w" "frame_at s' w = Some x"
    then show "0 < x \<and> x < total_pages (vm_pmm s') \<and> x \<notin> pmm_free (vm_pmm s') \<and> \<not> is_table s' x"
      using h(3) [OF w(1), of x] f [of w] sp(2,3) by (simp split: if_splits)
  next
    fix w w' x
    assume w: "in_heap w" "in_heap w'" "frame_at s' w = Some x" "frame_at s' w' = Some x"
    then show "page_of w = page_of w'"
      using h(4) [OF w(1,2), of x] f [of w] f [of w'] by (simp split: if_splits)
  qed
  show "frame_at s' w = (if page_of w = page_of v then None else frame_at s w)" by (rule f)
  show "p = 0" if "frame_at s v = None"
    using that sp(6) by (auto simp: frame_at_def split: option.splits)
  show "p = pfn_to_phys q \<and> p \<noteq> 0 \<and> owned s' q" if q: "frame_at s v = Some q"
  proof -
    obtain e where e: "leaf s v = Some (3, e)" "q = phys_to_pfn (e AND PTE_ADDR_MASK)"
      using q h(2) v by (auto simp: frame_at_def small_pages_def split: option.splits)
    have p: "p = e AND PTE_ADDR_MASK" by (rule sp(4) [OF e(1)])
    have "p \<noteq> 0" using e(1) p h(2) v by (simp add: small_pages_def)
    moreover have "p = pfn_to_phys q"
      unfolding p e(2) by (rule masked_pfn [symmetric]) (simp add: and.assoc)
    moreover have "frame_at s' w \<noteq> Some q" if "in_heap w" for w
      using h(4) [OF that v _ q] f [of w] by auto
    ultimately show ?thesis
      using h(3) [OF v q] sp(2,3) by (simp add: owned_def)
  qed
qed

section \<open>Releasing and mapping runs of pages\<close>

definition run_frames :: "vm_state \<Rightarrow> u64 \<Rightarrow> nat \<Rightarrow> nat \<Rightarrow> nat set" where
  "run_frames s v j k = {q. \<exists>i. j \<le> i \<and> i < k \<and> frame_at s (v + of_nat i * PAGE_SIZE) = Some q}"

definition in_run :: "u64 \<Rightarrow> nat \<Rightarrow> nat \<Rightarrow> u64 \<Rightarrow> bool" where
  "in_run v j k w \<longleftrightarrow> (\<exists>i. j \<le> i \<and> i < k \<and> page_of w = nth_page v i)"

lemma in_run_step: "j < k \<Longrightarrow> in_run v j k w \<longleftrightarrow> page_of w = nth_page v j \<or> in_run v (Suc j) k w"
  unfolding in_run_def by (metis Suc_leD Suc_leI le_neq_implies_less le_refl)

lemma in_run_empty [simp]: "\<not> in_run v j j w"
  by (auto simp: in_run_def)

lemma run_frames_step:
  assumes "j < k" and "\<And>w. frame_at s' w = (if page_of w = nth_page v j then None else frame_at s w)"
  shows "run_frames s v j k = set_option (frame_at s (v + of_nat j * PAGE_SIZE)) \<union> run_frames s' v (Suc j) k"
    (is "?l = ?r")
proof (rule set_eqI)
  fix q
  let ?f = "\<lambda>i. frame_at s (v + of_nat i * PAGE_SIZE)"
  have same: "?f i = ?f j" if "nth_page v i = nth_page v j" for i
    by (rule frame_at_page [OF that])
  have "q \<in> ?l \<longleftrightarrow> ?f j = Some q \<or> (\<exists>i. Suc j \<le> i \<and> i < k \<and> ?f i = Some q)"
    unfolding run_frames_def mem_Collect_eq using assms(1)
    by (metis Suc_leD Suc_leI le_neq_implies_less le_refl)
  also have "\<dots> \<longleftrightarrow> ?f j = Some q \<or> (\<exists>i. Suc j \<le> i \<and> i < k \<and> frame_at s' (v + of_nat i * PAGE_SIZE) = Some q)"
    using assms(2) same by (metis option.distinct(1))
  finally show "q \<in> ?l \<longleftrightarrow> q \<in> ?r"
    by (simp add: run_frames_def)
qed

lemma heap_release_run:
  assumes "heap_vm s" and "\<And>i. j \<le> i \<Longrightarrow> i < j + n \<Longrightarrow> in_heap (v + of_nat i * PAGE_SIZE)"
  shows "\<exists>s'. heap_release s v j n = Some s' \<and> heap_vm s' \<and>
    (\<forall>w. frame_at s' w = (if in_run v j (j + n) w then None else frame_at s w)) \<and>
    total_pages (vm_pmm s') = total_pages (vm_pmm s) \<and>
    pmm_free (vm_pmm s') = pmm_free (vm_pmm s) \<union> run_frames s v j (j + n)"
  using assms
proof (induction n arbitrary: j s)
  case 0
  then show ?case by (auto simp: run_frames_def in_run_def)
next
  case (Suc n)
  let ?v = "v + of_nat j * PAGE_SIZE"
  obtain p s1 where run: "vmm_unmap_page s ?v = (p, s1)" by force
  have inh: "in_heap ?v" using Suc.prems(2) [of j] by simp
  note un = heap_unmap_frame [OF Suc.prems(1) inh run]
  have rest: "\<And>i. Suc j \<le> i \<Longrightarrow> i < Suc j + n \<Longrightarrow> in_heap (v + of_nat i * PAGE_SIZE)"
    using Suc.prems(2) by simp
  have step: "in_run v j (j + Suc n) w \<longleftrightarrow> page_of w = nth_page v j \<or> in_run v (Suc j) (Suc j + n) w" for w
    using in_run_step [of j "j + Suc n" v w] by simp
  have frames: "run_frames s v j (j + Suc n) = set_option (frame_at s ?v) \<union> run_frames s1 v (Suc j) (Suc j + n)"
    using run_frames_step [of j "j + Suc n" s1 v s] un(3) by simp
  show ?case
  proof (cases "frame_at s ?v")
    case None
    then have "heap_release s v j (Suc n) = heap_release s1 v (Suc j) n"
      using run un(4) by simp
    moreover obtain s' where "heap_release s1 v (Suc j) n = Some s'" "heap_vm s'"
        "\<And>w. frame_at s' w = (if in_run v (Suc j) (Suc j + n) w then None else frame_at s1 w)"
        "total_pages (vm_pmm s') = total_pages (vm_pmm s1)"
        "pmm_free (vm_pmm s') = pmm_free (vm_pmm s1) \<union> run_frames s1 v (Suc j) (Suc j + n)"
      using Suc.IH [of s1 "Suc j"] un(1) rest by blast
    ultimately show ?thesis
      using un(2,3) step frames None by (intro exI [of _ s']) auto
  next
    case (Some q)
    note q = un(5) [OF Some]
    obtain m where m: "free_page (vm_pmm s1) (pfn_to_phys q) = Some m" "heap_vm (s1\<lparr>vm_pmm := m\<rparr>)"
        "pmm_free m = insert q (pmm_free (vm_pmm s1))" "total_pages m = total_pages (vm_pmm s1)"
      using heap_give_frame [OF un(1)] q by metis
    have "heap_release s v j (Suc n) = heap_release (s1\<lparr>vm_pmm := m\<rparr>) v (Suc j) n"
      using run q m(1) by auto
    moreover have "run_frames (s1\<lparr>vm_pmm := m\<rparr>) v (Suc j) (Suc j + n) = run_frames s1 v (Suc j) (Suc j + n)"
      by (simp add: run_frames_def)
    moreover obtain s' where "heap_release (s1\<lparr>vm_pmm := m\<rparr>) v (Suc j) n = Some s'" "heap_vm s'"
        "\<And>w. frame_at s' w = (if in_run v (Suc j) (Suc j + n) w then None else frame_at s1 w)"
        "total_pages (vm_pmm s') = total_pages m"
        "pmm_free (vm_pmm s') = pmm_free m \<union> run_frames (s1\<lparr>vm_pmm := m\<rparr>) v (Suc j) (Suc j + n)"
      using Suc.IH [of "s1\<lparr>vm_pmm := m\<rparr>" "Suc j"] m(2) rest by auto
    ultimately show ?thesis
      using un(2,3) m(3,4) step frames Some by (intro exI [of _ s']) auto
  qed
qed

lemma in_run_Suc: "j \<le> k \<Longrightarrow> in_run v j (Suc k) w \<longleftrightarrow> in_run v j k w \<or> page_of w = nth_page v k"
  unfolding in_run_def by (metis less_SucE less_SucI lessI)

lemma in_run_mono: "in_run v j k w \<Longrightarrow> j' \<le> j \<Longrightarrow> k \<le> k' \<Longrightarrow> in_run v j' k' w"
  unfolding in_run_def by (meson le_trans less_le_trans)

lemma in_run_split:
  assumes "j \<le> i" "i \<le> k"
  shows "in_run v j k w \<longleftrightarrow> in_run v j i w \<or> in_run v i k w"
proof
  assume "in_run v j k w"
  then obtain x where "j \<le> x" "x < k" "page_of w = nth_page v x" by (auto simp: in_run_def)
  then show "in_run v j i w \<or> in_run v i k w"
    unfolding in_run_def by (metis not_less)
next
  assume "in_run v j i w \<or> in_run v i k w"
  then show "in_run v j k w" using assms in_run_mono by blast
qed

lemma in_run_other:
  assumes "in_run v j k w" "i < j \<or> k \<le> i" "i < 2 ^ 36" "k \<le> 2 ^ 36"
  shows "page_of w \<noteq> nth_page v i"
proof
  assume i: "page_of w = nth_page v i"
  obtain x where x: "j \<le> x" "x < k" "page_of w = nth_page v x" using assms(1) by (auto simp: in_run_def)
  have "nth_page v x = nth_page v i" by (rule trans [OF x(3) [symmetric] i])
  then have "x = i" using x(2) assms(3,4) by (intro page_of_step_inj [of v]) auto
  with x assms(2) show False by auto
qed

text \<open>The loop that maps a run: the frames of the new pages are taken from the free set; on failure
  every page of the run from its start is unmapped again.\<close>

definition map_result :: "vm_state \<Rightarrow> u64 \<Rightarrow> nat \<Rightarrow> nat \<Rightarrow> bool \<Rightarrow> vm_state \<Rightarrow> bool" where
  "map_result s v i k ok s' \<longleftrightarrow> heap_vm s' \<and> total_pages (vm_pmm s') = total_pages (vm_pmm s) \<and>
    (\<forall>w. \<not> in_run v 0 k w \<longrightarrow> frame_at s' w = frame_at s w) \<and>
    (if ok then (\<forall>w. in_run v 0 i w \<longrightarrow> frame_at s' w = frame_at s w) \<and> (\<forall>w. in_run v i k w \<longrightarrow> frame_at s' w \<noteq> None)
     else (\<forall>w. in_run v 0 k w \<longrightarrow> frame_at s' w = None))"

lemma heap_map_undo:
  assumes "heap_vm s2" and "\<And>j. j < k \<Longrightarrow> in_heap (v + of_nat j * PAGE_SIZE)" and "i \<le> k"
    and "\<And>w. frame_at s2 w = frame_at s w" "total_pages (vm_pmm s2) = total_pages (vm_pmm s)"
    and "\<And>w. in_run v i k w \<Longrightarrow> frame_at s w = None"
  obtains s' where "heap_release s2 v 0 i = Some s'" "map_result s v i k False s'"
proof -
  obtain s' where s': "heap_release s2 v 0 i = Some s'" "heap_vm s'"
      "\<And>w. frame_at s' w = (if in_run v 0 i w then None else frame_at s2 w)"
      "total_pages (vm_pmm s') = total_pages (vm_pmm s2)"
    using heap_release_run [OF assms(1), of 0 i v] assms(2,3) by auto
  have "map_result s v i k False s'"
    unfolding map_result_def using s' assms(4-6) in_run_split [of 0 i k v] assms(3)
      in_run_mono [of v 0 i _ 0 k] by auto
  with s'(1) show ?thesis by (rule that)
qed

lemma map_result_step:
  assumes "map_result s2 v (Suc i) k ok s'" and "i < k" "k \<le> 2 ^ 36"
    and "\<And>w. frame_at s2 w = (if page_of w = nth_page v i then Some q else frame_at s w)"
    and "total_pages (vm_pmm s2) = total_pages (vm_pmm s)"
  shows "map_result s v i k ok s'"
proof -
  have a: "in_run v 0 k w" if "page_of w = nth_page v i" for w
    using that assms(2) unfolding in_run_def by blast
  have b: "frame_at s2 w = frame_at s w" if "in_run v 0 i w" for w
    using in_run_other [OF that, of i] assms(2-4) by auto
  have c: "in_run v 0 (Suc i) w \<longleftrightarrow> in_run v 0 i w \<or> page_of w = nth_page v i" for w
    by (rule in_run_Suc) simp
  show ?thesis
    using assms(1,4,5) a b c in_run_step [OF assms(2)] unfolding map_result_def by (auto split: if_splits)
qed

lemma heap_map_pages_run:
  assumes "heap_vm s" and "\<And>j. j < i + n \<Longrightarrow> in_heap (v + of_nat j * PAGE_SIZE)"
    and "\<And>w. in_run v i (i + n) w \<Longrightarrow> frame_at s w = None" and "i + n \<le> 2 ^ 36"
  shows "\<exists>ok s'. heap_map_pages s v i n = Some (ok, s') \<and> map_result s v i (i + n) ok s'"
  using assms
proof (induction n arbitrary: i s)
  case 0
  then show ?case by (intro exI [of _ True] exI [of _ s]) (simp add: map_result_def)
next
  case (Suc n)
  obtain phys m where al: "alloc_page (vm_pmm s) = (phys, m)" by force
  have good: "pmm_good (vm_pmm s)" using heap_vmD(1) [OF Suc.prems(1)] by (simp add: vm_ok_def)
  show ?case
  proof (cases "phys = 0")
    case True
    then have "m = vm_pmm s" using pmm.alloc_fail [OF good] al by simp
    moreover obtain s' where "heap_release s v 0 i = Some s'" "map_result s v i (i + Suc n) False s'"
      by (rule heap_map_undo [OF Suc.prems(1), of "i + Suc n" v i s]) (use Suc.prems in auto)
    ultimately show ?thesis using True al by auto
  next
    case False
    obtain q where q: "phys = pfn_to_phys q" "heap_vm (s\<lparr>vm_pmm := m\<rparr>)" "owned (s\<lparr>vm_pmm := m\<rparr>) q"
        "total_pages m = total_pages (vm_pmm s)"
      using heap_take_frame [OF Suc.prems(1) al False] by metis
    obtain r s2 where run: "vmm_map_page (s\<lparr>vm_pmm := m\<rparr>) (v + of_nat i * PAGE_SIZE) (pfn_to_phys q) PTE_KERNEL_RW = (r, s2)"
      by force
    have inh: "in_heap (v + of_nat i * PAGE_SIZE)" using Suc.prems(2) [of i] by simp
    note mp = heap_map_frame [OF q(2,3) inh run]
    show ?thesis
    proof (cases "r = 0")
      case r: False
      obtain m2 where m2: "free_page (vm_pmm s2) (pfn_to_phys q) = Some m2" "heap_vm (s2\<lparr>vm_pmm := m2\<rparr>)"
          "total_pages m2 = total_pages (vm_pmm s2)"
        using heap_give_frame [OF mp(1) mp(6) [OF r]] by metis
      obtain s' where "heap_release (s2\<lparr>vm_pmm := m2\<rparr>) v 0 i = Some s'" "map_result s v i (i + Suc n) False s'"
        by (rule heap_map_undo [OF m2(2), of "i + Suc n" v i s]) (use Suc.prems mp(2,5) m2(3) q(4) r in auto)
      then show ?thesis using al False r run q(1) m2(1) by auto
    next
      case True
      note f = mp(4) [OF True]
      have "\<exists>ok s'. heap_map_pages s2 v (Suc i) n = Some (ok, s') \<and> map_result s2 v (Suc i) (Suc i + n) ok s'"
      proof (rule Suc.IH [OF mp(1)])
        show "in_heap (v + of_nat j * PAGE_SIZE)" if "j < Suc i + n" for j
          using that Suc.prems(2) by simp
        show "Suc i + n \<le> 2 ^ 36" using Suc.prems(4) by simp
        show "frame_at s2 w = None" if "in_run v (Suc i) (Suc i + n) w" for w
          using that f [of w] in_run_other [OF that, of i] Suc.prems(3) [of w] Suc.prems(4)
            in_run_mono [OF that, of i "i + Suc n"] by simp
      qed
      then obtain ok s' where IH: "heap_map_pages s2 v (Suc i) n = Some (ok, s')" "map_result s2 v (Suc i) (Suc i + n) ok s'"
        by blast
      have "map_result s2 v (Suc i) (i + Suc n) ok s'" using IH(2) by simp
      then have "map_result s v i (i + Suc n) ok s'"
        by (rule map_result_step [where q = q]) (use f Suc.prems(4) mp(2) q(4) in auto)
      then show ?thesis using al False True run q(1) IH(1) by simp
    qed
  qed
qed

end
