(* ===== verification/Slab_Window.thy ===== *)
theory Slab_Window
  imports Slab_Pages
begin

section \<open>The heap window\<close>

text \<open>Pages are told apart by the 36 bits of their numbers; inside the window these are as good as
  the whole address.\<close>

lemma window_page:
  assumes "in_heap w"
  shows "unat w div 4096 = 0xFFFF000000000 + unat (page_of w)" "0xFFFF88000 \<le> unat (page_of w)" "unat (page_of w) < 0xFFFFC0000"
proof -
  let ?n = "unat w div 4096"
  have "0xFFFFFFFF88000000 \<le> unat w" "unat w < 0xFFFFFFFFC0000000"
    using assms by (simp_all add: in_heap_def KHEAP_START_def KHEAP_END_def word_le_nat_alt word_less_nat_alt)
  then have n: "0xFFFFFFFF88000 \<le> ?n" "?n < 0xFFFFFFFFC0000" by auto
  define k where "k = ?n - 0xFFFF000000000"
  have k: "?n = 0xFFFF000000000 + k" "0xFFFF88000 \<le> k" "k < 0xFFFFC0000"
    using n by (simp_all add: k_def)
  moreover have "unat (page_of w) = k"
  proof -
    have "unat (page_of w) = (k + 65535 * 2 ^ 36) mod 2 ^ 36"
      using k(1) by (simp add: unat_page_of add.commute)
    also have "\<dots> = k mod 2 ^ 36" by (rule mod_mult_self1)
    finally show ?thesis using k(3) by simp
  qed
  ultimately show "?n = 0xFFFF000000000 + unat (page_of w)" "0xFFFF88000 \<le> unat (page_of w)" "unat (page_of w) < 0xFFFFC0000"
    by simp_all
qed

lemma window_inj:
  assumes "in_heap w" "in_heap v"
  shows "page_of w = page_of v \<longleftrightarrow> unat w div 4096 = unat v div 4096"
  using window_page(1) [OF assms(1)] window_page(1) [OF assms(2)] by (auto simp: word_unat_eq_iff)

lemma unat_nth_addr:
  assumes "unat v + k * 4096 < 2 ^ 64" "i \<le> k"
  shows "unat (v + of_nat i * PAGE_SIZE) = unat v + i * 4096"
proof -
  have "i * 4096 \<le> k * 4096" using assms(2) by simp
  then have "i * 4096 < 2 ^ 64" "unat v + i * 4096 < 2 ^ 64" using assms(1) by linarith+
  then show ?thesis
    by (simp add: unat_word_ariths PAGE_SIZE_def unat_of_nat)
qed

lemma window_addr:
  assumes "KHEAP_START \<le> v" "unat v + n * 4096 \<le> unat KHEAP_END" "i < n"
  shows "in_heap (v + of_nat i * PAGE_SIZE)"
proof -
  have "unat v + n * 4096 < 2 ^ 64" using assms(2) by (simp add: KHEAP_END_def)
  then have "unat (v + of_nat i * PAGE_SIZE) = unat v + i * 4096"
    using assms(3) by (simp add: unat_nth_addr)
  moreover have "i * 4096 < n * 4096" using assms(3) by simp
  ultimately show ?thesis
    using assms(1,2) by (simp add: in_heap_def word_le_nat_alt word_less_nat_alt)
qed

lemma in_run_window:
  assumes "in_heap w" "KHEAP_START \<le> v" "unat v + n * 4096 \<le> unat KHEAP_END" "4096 dvd unat v"
  shows "in_run v 0 n w \<longleftrightarrow> unat v \<le> unat w \<and> unat w < unat v + n * 4096"
proof -
  have small: "unat v + n * 4096 < 2 ^ 64"
    using assms(3) by (simp add: KHEAP_END_def)
  have addr: "unat (v + of_nat i * PAGE_SIZE) = unat v + i * 4096" if "i < n" for i
    using unat_nth_addr [OF small] that by simp
  have win: "in_heap (v + of_nat i * PAGE_SIZE)" if "i < n" for i
    using window_addr [OF assms(2,3) that] .
  have "in_run v 0 n w \<longleftrightarrow> (\<exists>i < n. unat w div 4096 = (unat v + i * 4096) div 4096)"
    unfolding in_run_def using window_inj [OF assms(1) win] addr by auto
  also have "\<dots> \<longleftrightarrow> (\<exists>i < n. unat w div 4096 = unat v div 4096 + i)"
    using assms(4) by (simp add: add.commute)
  also have "\<dots> \<longleftrightarrow> unat v div 4096 \<le> unat w div 4096 \<and> unat w div 4096 < unat v div 4096 + n"
    by (auto intro!: exI [of _ "unat w div 4096 - unat v div 4096"])
  also have "\<dots> \<longleftrightarrow> unat v \<le> unat w \<and> unat w < unat v + n * 4096"
    using assms(4) by (auto elim!: dvdE)
  finally show ?thesis .
qed

definition heap_ok :: "heap \<Rightarrow> bool" where
  "heap_ok h \<longleftrightarrow> heap_vm (hp_vm h) \<and> KHEAP_START \<le> heap_current h \<and> heap_current h \<le> KHEAP_END \<and>
     4096 dvd unat (heap_current h) \<and>
     (\<forall>v. heap_current h \<le> v \<and> v < KHEAP_END \<longrightarrow> frame_at (hp_vm h) v = None)"

text \<open>What a request for pages gives: nothing, and then no translation of the heap window changes, or
  the run of pages at the old end of the heap, all of them mapped.\<close>

definition pages_result :: "heap \<Rightarrow> u64 \<Rightarrow> vptr \<Rightarrow> heap \<Rightarrow> bool" where
  "pages_result h count p h' \<longleftrightarrow>
    (case p of
       None \<Rightarrow> heap_current h' = heap_current h \<and> (\<forall>w. in_heap w \<longrightarrow> frame_at (hp_vm h') w = frame_at (hp_vm h) w)
     | Some v \<Rightarrow> v = heap_current h \<and> unat (heap_current h') = unat v + unat count * 4096 \<and>
         (\<forall>w. in_heap w \<longrightarrow>
            (if v \<le> w \<and> w < heap_current h' then frame_at (hp_vm h') w \<noteq> None
             else frame_at (hp_vm h') w = frame_at (hp_vm h) w)))"

lemma heap_alloc_pages_spec:
  assumes "heap_ok h" and "unat (heap_current h) + unat count * 4096 < 2 ^ 64"
  shows "\<exists>p h'. heap_alloc_pages h count = Some (p, h') \<and> heap_ok h' \<and>
    hp_slabs h' = hp_slabs h \<and> hp_caches h' = hp_caches h \<and> obj_next h' = obj_next h \<and>
    pages_result h count p h'"
proof -
  note ok = assms(1) [unfolded heap_ok_def]
  let ?v = "heap_current h" and ?n = "unat count"
  have tot: "unat (?v + count * PAGE_SIZE) = unat ?v + ?n * 4096"
    using assms(2) unat_nth_addr [of ?v ?n ?n] by simp
  show ?thesis
  proof (cases "KHEAP_END < ?v + count * PAGE_SIZE")
    case True
    then show ?thesis using assms(1) by (simp add: heap_alloc_pages_def pages_result_def Let_def)
  next
    case False
    then have fit: "unat ?v + ?n * 4096 \<le> unat KHEAP_END"
      using tot by (simp add: word_less_nat_alt)
    have v: "KHEAP_START \<le> ?v" "4096 dvd unat ?v" using ok by simp_all
    note addr = window_addr [OF v(1) fit]
    have "?n \<le> 2 ^ 36"
      using fit v(1) by (simp add: KHEAP_START_def KHEAP_END_def word_le_nat_alt)
    moreover have "frame_at (hp_vm h) w = None" if run: "in_run ?v 0 ?n w" for w
    proof -
      obtain i where i: "i < ?n" "page_of w = nth_page ?v i" using run by (auto simp: in_run_def)
      have "unat (?v + of_nat i * PAGE_SIZE) = unat ?v + i * 4096"
        using unat_nth_addr [OF assms(2)] i(1) by simp
      then have "frame_at (hp_vm h) (?v + of_nat i * PAGE_SIZE) = None"
        using ok addr [OF i(1)] by (simp add: in_heap_def word_le_nat_alt)
      then show ?thesis using frame_at_page [OF i(2)] by simp
    qed
    ultimately obtain b s where run: "heap_map_pages (hp_vm h) ?v 0 ?n = Some (b, s)"
        and res: "map_result (hp_vm h) ?v 0 ?n b s"
      using heap_map_pages_run [of "hp_vm h" 0 ?n ?v] ok addr by auto
    have vm: "heap_vm s" using res by (simp add: map_result_def)
    have win: "in_run ?v 0 ?n w \<longleftrightarrow> ?v \<le> w \<and> w < ?v + count * PAGE_SIZE" if "in_heap w" for w
      using in_run_window [OF that v(1) fit v(2)] tot by (simp add: word_le_nat_alt word_less_nat_alt)
    show ?thesis
    proof (cases b)
      case True
      let ?h = "h\<lparr>hp_vm := s, heap_current := ?v + count * PAGE_SIZE\<rparr>"
      have fr: "if ?v \<le> w \<and> w < ?v + count * PAGE_SIZE then frame_at s w \<noteq> None
          else frame_at s w = frame_at (hp_vm h) w" if "in_heap w" for w
        using res win [OF that] True by (simp add: map_result_def)
      have "heap_ok ?h"
      proof -
        have "frame_at s w = None" if "?v + count * PAGE_SIZE \<le> w" "w < KHEAP_END" for w
        proof -
          have "?v \<le> w" using that(1) tot by (simp add: word_le_nat_alt)
          moreover from this have "in_heap w" using that(2) v(1) by (auto simp: in_heap_def)
          ultimately show ?thesis using fr [of w] that ok by (simp add: not_less [symmetric])
        qed
        then show ?thesis
          using ok vm fit tot v by (auto simp: heap_ok_def word_le_nat_alt)
      qed
      moreover have "heap_alloc_pages h count = Some (Some ?v, ?h)"
        using False run True by (simp add: heap_alloc_pages_def Let_def)
      ultimately show ?thesis using tot fr by (simp add: pages_result_def)
    next
      case b: False
      let ?h = "h\<lparr>hp_vm := s\<rparr>"
      have fr: "frame_at s w = frame_at (hp_vm h) w" if "in_heap w" for w
      proof (cases "in_run ?v 0 ?n w")
        case True
        then show ?thesis using res win [OF that] b ok that by (auto simp: map_result_def in_heap_def)
      next
        case False
        then show ?thesis using res by (simp add: map_result_def)
      qed
      have "heap_ok ?h"
        using ok vm fr by (auto simp: heap_ok_def in_heap_def)
      moreover have "heap_alloc_pages h count = Some (None, ?h)"
        using False run b by (simp add: heap_alloc_pages_def Let_def)
      ultimately show ?thesis using fr by (simp add: pages_result_def)
    qed
  qed
qed

end
