(* ===== verification/Slab_Geometry.thy ===== *)
theory Slab_Geometry
  imports Slab_Window
begin

text \<open>
  The geometry of slabs: whatever size a cache is created for, every object of a slab lies inside
  the slab, behind its descriptor, and objects do not overlap.
\<close>

section \<open>Geometry\<close>

lemma unat_ALIGN_UP_pow2:
  assumes "unat x + 2 ^ a \<le> 2 ^ 64" "a < 64"
  shows "unat (ALIGN_UP x (2 ^ a)) = (unat x + (2 ^ a - 1)) div 2 ^ a * 2 ^ a"
proof -
  have m: "(2 ^ a - 1 :: u64) = mask a" by (simp add: mask_eq_decr_exp)
  have lt: "(2 :: nat) ^ a < 2 ^ 64" using assms(2) by (rule power_strict_increasing) simp
  have "unat (of_nat (2 ^ a - 1) :: u64) = 2 ^ a - 1"
    unfolding unat_of_nat using lt by simp
  then have "unat (mask a :: u64) = 2 ^ a - 1"
    by (simp add: mask_eq_decr_exp of_nat_diff)
  then have "unat (x + mask a) = unat x + (2 ^ a - 1)"
    using assms(1) by (simp add: unat_word_ariths)
  then show ?thesis
    using unat_and_not_mask [of "x + mask a" a] by (simp add: ALIGN_UP_def m)
qed

definition geom_ok :: "kmem_cache \<Rightarrow> bool" where
  "geom_ok k \<longleftrightarrow>
     (\<exists>a \<le> 12. c_align k = 2 ^ a \<and> 2 ^ a dvd unat (c_obj_size k)) \<and> 0 < unat (c_obj_size k) \<and>
     1 \<le> unat (c_objs_per_slab k) \<and> 1 \<le> unat (c_slab_size k) \<and> unat (c_slab_size k) \<le> 16 \<and>
     unat (c_objs_per_slab k) * unat (c_obj_size k) + 48 \<le> unat (c_slab_size k) * 4096"

abbreviation slab_bytes :: "kmem_cache \<Rightarrow> nat" where
  "slab_bytes k \<equiv> unat (c_slab_size k) * 4096"

definition obj_at :: "kmem_cache \<Rightarrow> u64 \<Rightarrow> nat \<Rightarrow> u64" where
  "obj_at k s i = ALIGN_UP (s + sizeof_slab) (c_align k) + of_nat i * c_obj_size k"

definition slab_objs :: "kmem_cache \<Rightarrow> u64 \<Rightarrow> u64 set" where
  "slab_objs k s = obj_at k s ` {..<unat (c_objs_per_slab k)}"

text \<open>Where a slab may lie.\<close>

definition slab_place :: "kmem_cache \<Rightarrow> u64 \<Rightarrow> bool" where
  "slab_place k s \<longleftrightarrow> KHEAP_START \<le> s \<and> 4096 dvd unat s \<and> unat s + slab_bytes k \<le> unat KHEAP_END"

lemma align_up_ge: "0 < a \<Longrightarrow> x \<le> (x + (a - 1)) div a * (a :: nat)"
proof -
  assume "0 < a"
  moreover have "(x + (a - 1)) div a * a + (x + (a - 1)) mod a = x + (a - 1)" by simp
  moreover have "(x + (a - 1)) mod a \<le> a - 1" using \<open>0 < a\<close> mod_less_divisor [of a "x + (a - 1)"] by linarith
  ultimately show ?thesis by linarith
qed

lemma align_up_le:
  assumes "(a :: nat) dvd m" "x \<le> m" "0 < a"
  shows "(x + (a - 1)) div a * a \<le> m"
proof -
  obtain r where r: "m = r * a" using assms(1) by (metis dvdE mult.commute)
  have "(x + (a - 1)) div a < Suc r"
    using assms(2,3) r by (intro less_mult_imp_div_less) simp
  then show ?thesis unfolding r by (intro mult_le_mono1) simp
qed

lemma obj_at_inside:
  assumes "geom_ok k" "slab_place k s" "i < unat (c_objs_per_slab k)"
  obtains d where "unat (obj_at k s i) = unat s + d + i * unat (c_obj_size k)" "48 \<le> d"
    "d + unat (c_objs_per_slab k) * unat (c_obj_size k) \<le> slab_bytes k"
    "\<And>j. j < unat (c_objs_per_slab k) \<Longrightarrow> unat (obj_at k s j) = unat s + d + j * unat (c_obj_size k)"
proof -
  obtain a where a: "a \<le> 12" "c_align k = 2 ^ a" "2 ^ a dvd unat (c_obj_size k)"
    using assms(1) by (auto simp: geom_ok_def)
  let ?A = "2 ^ a :: nat" and ?n = "unat (c_objs_per_slab k)" and ?z = "unat (c_obj_size k)"
  have fit: "?n * ?z + 48 \<le> slab_bytes k" using assms(1) by (simp add: geom_ok_def)
  have top: "unat s + slab_bytes k \<le> 0xFFFFFFFFC0000000"
    using assms(2) by (simp add: slab_place_def KHEAP_END_def)
  have "?A \<le> 2 ^ 12" using a(1) by (rule power_increasing) simp
  then have A: "?A \<le> 4096" by simp
  have "?A dvd 2 ^ 12" using a(1) by (rule le_imp_power_dvd)
  then have dvd: "?A dvd 4096" by simp
  have s48: "unat (s + 48) = unat s + 48"
    using top fit by (simp add: unat_word_ariths)
  define d where "d = (48 + (?A - 1)) div ?A * ?A"
  have "?A dvd unat s" using assms(2) dvd by (auto simp: slab_place_def intro: dvd_trans)
  then obtain q where q: "unat s = ?A * q" by blast
  have "unat (ALIGN_UP (s + 48) (c_align k)) = (unat s + 48 + (?A - 1)) div ?A * ?A"
    using unat_ALIGN_UP_pow2 [of "s + 48" a] s48 top fit A a(1,2) by simp
  also have "\<dots> = unat s + d"
  proof -
    have "(48 + (?A - 1) + ?A * q) div ?A = q + (48 + (?A - 1)) div ?A"
      by (rule div_mult_self2) simp
    moreover have "unat s + 48 + (?A - 1) = 48 + (?A - 1) + ?A * q" unfolding q by simp
    ultimately show ?thesis
      unfolding d_def by (metis add_mult_distrib mult.commute q)
  qed
  finally have start: "unat (ALIGN_UP (s + 48) (c_align k)) = unat s + d" .
  have d48: "48 \<le> d" unfolding d_def by (rule align_up_ge) simp
  have "?A dvd slab_bytes k - ?n * ?z"
    using dvd a(3) by (intro dvd_diff_nat) (auto intro: dvd_mult)
  then have room: "d \<le> slab_bytes k - ?n * ?z"
    unfolding d_def using fit by (intro align_up_le) auto
  have addr: "unat (obj_at k s j) = unat s + d + j * ?z" if "j < ?n" for j
  proof -
    have "j * ?z \<le> ?n * ?z" using that by simp
    then have "unat s + d + j * ?z \<le> 0xFFFFFFFFC0000000" using room fit top by linarith
    then have "unat s + d + j * ?z < 2 ^ 64" "j * ?z < 2 ^ 64" by simp_all
    moreover have "unat (c_objs_per_slab k) < 2 ^ LENGTH(32)" by (rule unsigned_less)
    then have "j < 2 ^ 64" using that by simp
    ultimately show ?thesis
      using start by (simp add: obj_at_def unat_word_ariths unat_of_nat)
  qed
  show thesis
    by (rule that [of d]) (use addr assms(3) d48 room fit in auto)
qed

text \<open>Objects of a slab are told apart by their index, and lie inside the slab.\<close>

lemma obj_at_inj:
  assumes "geom_ok k" "slab_place k s" "i < unat (c_objs_per_slab k)" "j < unat (c_objs_per_slab k)"
    "obj_at k s i = obj_at k s j"
  shows "i = j"
proof -
  obtain d where "\<And>j. j < unat (c_objs_per_slab k) \<Longrightarrow> unat (obj_at k s j) = unat s + d + j * unat (c_obj_size k)"
    using obj_at_inside [OF assms(1-3)] by metis
  then have "i * unat (c_obj_size k) = j * unat (c_obj_size k)"
    using assms(3-5) by (metis add_left_cancel)
  then show ?thesis using assms(1) by (simp add: geom_ok_def)
qed

lemma slab_objs_inside:
  assumes "geom_ok k" "slab_place k s" "x \<in> slab_objs k s"
  shows "unat s + 48 \<le> unat x" and "unat x + unat (c_obj_size k) \<le> unat s + slab_bytes k"
proof -
  obtain i where i: "i < unat (c_objs_per_slab k)" "x = obj_at k s i"
    using assms(3) by (auto simp: slab_objs_def)
  obtain d where d: "unat x = unat s + d + i * unat (c_obj_size k)" "48 \<le> d"
      "d + unat (c_objs_per_slab k) * unat (c_obj_size k) \<le> slab_bytes k"
    using obj_at_inside [OF assms(1,2) i(1)] i(2) by metis
  then show "unat s + 48 \<le> unat x" by simp
  have "(i + 1) * unat (c_obj_size k) \<le> unat (c_objs_per_slab k) * unat (c_obj_size k)"
    using i(1) by (intro mult_le_mono1) simp
  with d show "unat x + unat (c_obj_size k) \<le> unat s + slab_bytes k" by simp
qed

lemma card_slab_objs:
  assumes "geom_ok k" "slab_place k s"
  shows "card (slab_objs k s) = unat (c_objs_per_slab k)" "finite (slab_objs k s)"
proof -
  have "inj_on (obj_at k s) {..<unat (c_objs_per_slab k)}"
    using obj_at_inj [OF assms] by (auto simp: inj_on_def)
  then show "card (slab_objs k s) = unat (c_objs_per_slab k)"
    by (simp add: slab_objs_def card_image)
qed (simp add: slab_objs_def)

definition grown :: "u64 \<Rightarrow> u32 \<times> u64 \<Rightarrow> bool" where
  "grown sz r \<longleftrightarrow> snd r \<in> {1, 2, 4, 8, 16} \<and> fst r = calc_objs_per_slab sz (snd r) \<and> (2 \<le> fst r \<or> snd r = 16)"

lemma grow_slab_step:
  assumes "p \<in> {1, 2, 4, 8}" "\<exists>r. grow_slab sz (calc_objs_per_slab sz (p * 2)) (p * 2) = Some r \<and> grown sz r"
  shows "\<exists>r. grow_slab sz (calc_objs_per_slab sz p) p = Some r \<and> grown sz r"
proof (cases "calc_objs_per_slab sz p < 2")
  case True
  have "p < 16" using assms(1) by auto
  with True show ?thesis using assms(2) by (simp add: grow_slab.simps [of sz _ p])
next
  case False
  then have "grow_slab sz (calc_objs_per_slab sz p) p = Some (calc_objs_per_slab sz p, p)"
    by (simp add: grow_slab.simps [of sz _ p])
  with False assms(1) show ?thesis by (auto simp: grown_def)
qed

text \<open>The loop ends, with at least two objects or sixteen pages.\<close>

lemma grow_slab_result:
  assumes "p \<in> {1, 2, 4}"
  shows "\<exists>r. grow_slab sz (calc_objs_per_slab sz p) p = Some r \<and> grown sz r"
proof -
  have "\<exists>r. grow_slab sz (calc_objs_per_slab sz 16) 16 = Some r \<and> grown sz r"
    by (simp add: grow_slab.simps [of sz _ 16] grown_def)
  then have "\<exists>r. grow_slab sz (calc_objs_per_slab sz 8) 8 = Some r \<and> grown sz r"
    using grow_slab_step [of 8 sz] by simp
  then have 4: "\<exists>r. grow_slab sz (calc_objs_per_slab sz 4) 4 = Some r \<and> grown sz r"
    using grow_slab_step [of 4 sz] by simp
  then have 2: "\<exists>r. grow_slab sz (calc_objs_per_slab sz 2) 2 = Some r \<and> grown sz r"
    using grow_slab_step [of 2 sz] by simp
  then have "\<exists>r. grow_slab sz (calc_objs_per_slab sz 1) 1 = Some r \<and> grown sz r"
    using grow_slab_step [of 1 sz] by simp
  with 2 4 assms show ?thesis by auto
qed

lemma unat_calc_objs:
  assumes "p \<in> {1, 2, 4, 8, 16}" "0 < unat sz"
  shows "unat (calc_objs_per_slab sz p) = (unat p * 4096 - 48) div unat sz"
proof -
  have "unat (p * PAGE_SIZE - 48) = unat p * 4096 - 48" "unat p * 4096 - 48 < 2 ^ 32"
    using assms(1) by (auto simp: PAGE_SIZE_def)
  moreover from this(2) have "(unat p * 4096 - 48) div unat sz < 2 ^ 32"
    by (rule le_less_trans [OF div_le_dividend])
  ultimately show ?thesis
    by (simp add: calc_objs_per_slab_def unat_div unsigned_ucast_eq take_bit_nat_eq_self)
qed

lemma grown_geom:
  assumes "grown sz r" "0 < unat sz" "unat sz \<le> 32768" "2 ^ a dvd unat sz" "a \<le> 12"
    "c_obj_size k = sz" "c_align k = 2 ^ a" "c_slab_size k = snd r" "c_objs_per_slab k = fst r"
  shows "geom_ok k"
proof -
  let ?p = "snd r"
  have p: "?p \<in> {1, 2, 4, 8, 16}" and o: "fst r = calc_objs_per_slab sz ?p" and two: "2 \<le> fst r \<or> ?p = 16"
    using assms(1) unfolding grown_def by blast+
  have n: "unat (fst r) = (unat ?p * 4096 - 48) div unat sz"
    unfolding o by (rule unat_calc_objs [OF p assms(2)])
  have bnd: "1 \<le> unat ?p" "unat ?p \<le> 16" using p by auto
  have "1 \<le> unat (fst r)"
  proof (cases "?p = 16")
    case True
    then have "unat (fst r) = 65488 div unat sz" using n by simp
    moreover have "unat sz div unat sz \<le> 65488 div unat sz" using assms(3) by (intro div_le_mono) simp
    ultimately show ?thesis using assms(2) by simp
  next
    case False
    then have "2 \<le> unat (fst r)" using two by (simp add: word_le_nat_alt)
    then show ?thesis by simp
  qed
  moreover have "unat (fst r) * unat sz \<le> unat ?p * 4096 - 48"
    unfolding n by (rule div_times_less_eq_dividend)
  ultimately show ?thesis
    using assms(2,4-9) bnd by (auto simp: geom_ok_def)
qed

end
