(* ===== verification/Slab_Objects.thy ===== *)
theory Slab_Objects
  imports Slab_Geometry
begin

text \<open>
  The object caches of the kernel heap.  \<open>cache_base\<close> relates a cache to its three lists of slabs
  and the chain of free objects of every slab; \<open>cache_live\<close> abstracts from it the set of live
  objects.  Allocating and freeing objects refine adding to and removing from that set.
\<close>

section \<open>Lists of slabs\<close>

abbreviation nxs :: "(u64 \<Rightarrow> slab) \<Rightarrow> u64 \<Rightarrow> vptr" where "nxs st \<equiv> \<lambda>x. sl_next (st x)"
abbreviation pvs :: "(u64 \<Rightarrow> slab) \<Rightarrow> u64 \<Rightarrow> vptr" where "pvs st \<equiv> \<lambda>x. sl_prev (st x)"

text \<open>Two stores that agree but for the links of the slabs in \<open>X\<close>.\<close>

definition same_body :: "u64 set \<Rightarrow> (u64 \<Rightarrow> slab) \<Rightarrow> (u64 \<Rightarrow> slab) \<Rightarrow> bool" where
  "same_body X st st' \<longleftrightarrow>
     (\<forall>x. sl_free_list (st' x) = sl_free_list (st x) \<and> sl_in_use (st' x) = sl_in_use (st x) \<and>
          sl_total (st' x) = sl_total (st x) \<and> (x \<notin> X \<longrightarrow> st' x = st x))"

lemma slab_list_add_dll:
  assumes "dll (nxs st) (pvs st) None xs" "s \<notin> set xs" "slab_list_add (first_of xs) s st = (l, st')"
  shows "l = first_of (s # xs)" "dll (nxs st') (pvs st') None (s # xs)" "same_body (insert s (set xs)) st st'"
proof -
  have st': "st' = (let st1 = st(s := (st s)\<lparr>sl_prev := None, sl_next := first_of xs\<rparr>)
      in case first_of xs of None \<Rightarrow> st1 | Some h \<Rightarrow> st1(h := (st1 h)\<lparr>sl_prev := Some s\<rparr>))"
    using assms(3) by (auto simp: slab_list_add_def Let_def)
  show "l = first_of (s # xs)" using assms(3) by (auto simp: slab_list_add_def Let_def)
  have hd: "first_of xs \<noteq> Some s" using assms(2) first_of_in_set by fastforce
  show "dll (nxs st') (pvs st') None (s # xs)"
    using hd by (intro dll_push_front [OF assms(1,2)]) (auto simp: st' Let_def split: option.splits)
  show "same_body (insert s (set xs)) st st'"
    using hd first_of_in_set [of xs] by (auto simp: same_body_def st' Let_def split: option.splits)
qed

lemma slab_list_remove_dll:
  assumes "dll (nxs st) (pvs st) None (xs @ s # ys)"
    "slab_list_remove (first_of (xs @ s # ys)) s st = (l, st')"
  shows "l = first_of (xs @ ys)" "dll (nxs st') (pvs st') None (xs @ ys)"
    "same_body (set (xs @ s # ys)) st st'"
proof -
  note f = dll_fields [OF assms(1)]
  have dist: "distinct (xs @ s # ys)" by (rule dll_distinct [OF assms(1)])
  have nn: "first_of ys \<noteq> Some s" "last_of xs \<noteq> Some s"
    using dist first_of_in_set last_of_in_set by fastforce+
  have ne: "last_of xs \<noteq> Some y \<or> first_of ys \<noteq> Some y" for y
    using dist first_of_in_set [of ys y] last_of_in_set [of xs y] by auto
  define st1 where "st1 = (case last_of xs of Some p \<Rightarrow> st(p := (st p)\<lparr>sl_next := first_of ys\<rparr>) | None \<Rightarrow> st)"
  define st2 where "st2 = (case first_of ys of Some n \<Rightarrow> st1(n := (st1 n)\<lparr>sl_prev := last_of xs\<rparr>) | None \<Rightarrow> st1)"
  have s1: "sl_next (st1 s) = first_of ys" "sl_prev (st1 s) = last_of xs"
    using nn f by (auto simp: st1_def split: option.splits)
  have res: "(l, st') = (if xs = [] then first_of ys else first_of (xs @ s # ys),
      st2(s := (st2 s)\<lparr>sl_prev := None, sl_next := None\<rparr>))"
    using assms(2) nn
    by (auto simp: slab_list_remove_def st2_def st1_def f Let_def split: option.splits)
  show "l = first_of (xs @ ys)" using res by (cases xs) auto
  show "dll (nxs st') (pvs st') None (xs @ ys)"
    using res nn ne by (intro dll_unlink [OF assms(1)])
      (auto simp: st2_def st1_def split: option.splits)
  show "same_body (set (xs @ s # ys)) st st'"
    using res first_of_in_set [of ys] last_of_in_set [of xs]
    by (auto simp: same_body_def st2_def st1_def split: option.splits)
qed

section \<open>Caches\<close>

fun chain :: "(u64 \<Rightarrow> vptr) \<Rightarrow> vptr \<Rightarrow> u64 list \<Rightarrow> bool" where
  "chain nx p [] = (p = None)"
| "chain nx p (x # xs) = (p = Some x \<and> chain nx (nx x) xs)"

lemma chain_cong: "(\<And>x. x \<in> set xs \<Longrightarrow> nx x = nx' x) \<Longrightarrow> chain nx p xs = chain nx' p xs"
  by (induction xs arbitrary: p) auto

definition slab_rep :: "(u64 \<Rightarrow> slab) \<Rightarrow> (u64 \<Rightarrow> vptr) \<Rightarrow> kmem_cache \<Rightarrow> u64 \<Rightarrow> u64 list \<Rightarrow> bool" where
  "slab_rep st nx k s xs \<longleftrightarrow> sl_total (st s) = c_objs_per_slab k \<and> chain nx (sl_free_list (st s)) xs \<and>
     distinct xs \<and> set xs \<subseteq> slab_objs k s \<and> unat (sl_in_use (st s)) + length xs = unat (c_objs_per_slab k)"

datatype which = Full | Partial | Empty

definition list_head :: "kmem_cache \<Rightarrow> which \<Rightarrow> vptr" where
  "list_head k w = (case w of Full \<Rightarrow> slabs_full k | Partial \<Rightarrow> slabs_partial k | Empty \<Rightarrow> slabs_empty k)"

definition all_slabs :: "(which \<Rightarrow> u64 list) \<Rightarrow> u64 set \<Rightarrow> u64 set" where
  "all_slabs ls D = (\<Union>w. set (ls w)) \<union> D"

text \<open>A cache with the slabs \<open>D\<close> taken out of its lists.\<close>

definition cache_base :: "heap \<Rightarrow> u64 \<Rightarrow> (which \<Rightarrow> u64 list) \<Rightarrow> u64 set \<Rightarrow> (u64 \<Rightarrow> u64 list) \<Rightarrow> bool" where
  "cache_base h c ls D fr \<longleftrightarrow> geom_ok (hp_caches h c) \<and>
     (\<forall>w. list_head (hp_caches h c) w = first_of (ls w) \<and> dll (nxs (hp_slabs h)) (pvs (hp_slabs h)) None (ls w) \<and>
          set (ls w) \<inter> D = {}) \<and>
     (\<forall>v w. v \<noteq> w \<longrightarrow> set (ls v) \<inter> set (ls w) = {}) \<and>
     (\<forall>s \<in> all_slabs ls D. slab_rep (hp_slabs h) (obj_next h) (hp_caches h c) s (fr s) \<and>
        slab_place (hp_caches h c) s \<and> unat s + slab_bytes (hp_caches h c) \<le> unat (heap_current h)) \<and>
     (\<forall>s \<in> all_slabs ls D. \<forall>t \<in> all_slabs ls D. s \<noteq> t \<longrightarrow>
        unat s + slab_bytes (hp_caches h c) \<le> unat t \<or> unat t + slab_bytes (hp_caches h c) \<le> unat s)"

lemma cache_baseD:
  assumes "cache_base h c ls D fr"
  shows "geom_ok (hp_caches h c)" "list_head (hp_caches h c) w = first_of (ls w)"
    "dll (nxs (hp_slabs h)) (pvs (hp_slabs h)) None (ls w)" "set (ls w) \<inter> D = {}"
    "v \<noteq> w \<Longrightarrow> set (ls v) \<inter> set (ls w) = {}"
    "s \<in> all_slabs ls D \<Longrightarrow> slab_rep (hp_slabs h) (obj_next h) (hp_caches h c) s (fr s)"
    "s \<in> all_slabs ls D \<Longrightarrow> slab_place (hp_caches h c) s"
    "s \<in> all_slabs ls D \<Longrightarrow> unat s + slab_bytes (hp_caches h c) \<le> unat (heap_current h)"
    "s \<in> all_slabs ls D \<Longrightarrow> t \<in> all_slabs ls D \<Longrightarrow> s \<noteq> t \<Longrightarrow>
      unat s + slab_bytes (hp_caches h c) \<le> unat t \<or> unat t + slab_bytes (hp_caches h c) \<le> unat s"
  using assms unfolding cache_base_def by blast+

lemma cache_baseI:
  assumes "geom_ok (hp_caches h c)" "\<And>w. list_head (hp_caches h c) w = first_of (ls w)"
    "\<And>w. dll (nxs (hp_slabs h)) (pvs (hp_slabs h)) None (ls w)" "\<And>w. set (ls w) \<inter> D = {}"
    "\<And>v w. v \<noteq> w \<Longrightarrow> set (ls v) \<inter> set (ls w) = {}"
    "\<And>s. s \<in> all_slabs ls D \<Longrightarrow> slab_rep (hp_slabs h) (obj_next h) (hp_caches h c) s (fr s)"
    "\<And>s. s \<in> all_slabs ls D \<Longrightarrow> slab_place (hp_caches h c) s"
    "\<And>s. s \<in> all_slabs ls D \<Longrightarrow> unat s + slab_bytes (hp_caches h c) \<le> unat (heap_current h)"
    "\<And>s t. s \<in> all_slabs ls D \<Longrightarrow> t \<in> all_slabs ls D \<Longrightarrow> s \<noteq> t \<Longrightarrow>
      unat s + slab_bytes (hp_caches h c) \<le> unat t \<or> unat t + slab_bytes (hp_caches h c) \<le> unat s"
  shows "cache_base h c ls D fr"
  unfolding cache_base_def using assms by blast

lemma cache_base_drop: "cache_base h c ls D fr \<Longrightarrow> cache_base h c ls {} fr"
  unfolding cache_base_def all_slabs_def by auto

text \<open>Which slabs belong in which list.\<close>

definition filed :: "heap \<Rightarrow> u64 \<Rightarrow> (which \<Rightarrow> u64 list) \<Rightarrow> (u64 \<Rightarrow> u64 list) \<Rightarrow> bool" where
  "filed h c ls fr \<longleftrightarrow> (\<forall>s \<in> set (ls Full). fr s = []) \<and> (\<forall>s \<in> set (ls Partial). fr s \<noteq> []) \<and>
     (\<forall>s \<in> set (ls Empty). length (fr s) = unat (c_objs_per_slab (hp_caches h c)))"

definition live_of :: "kmem_cache \<Rightarrow> u64 set \<Rightarrow> (u64 \<Rightarrow> u64 list) \<Rightarrow> u64 set" where
  "live_of k S fr = (\<Union>s \<in> S. slab_objs k s - set (fr s))"

definition cache_live :: "heap \<Rightarrow> u64 \<Rightarrow> u64 set \<Rightarrow> bool" where
  "cache_live h c L \<longleftrightarrow> heap_ok h \<and> (\<exists>ls fr. cache_base h c ls {} fr \<and> filed h c ls fr \<and>
     L = live_of (hp_caches h c) (all_slabs ls {}) fr)"

definition same_geom :: "kmem_cache \<Rightarrow> kmem_cache \<Rightarrow> bool" where
  "same_geom k k' \<longleftrightarrow> c_obj_size k' = c_obj_size k \<and> c_align k' = c_align k \<and> c_slab_size k' = c_slab_size k \<and>
     c_objs_per_slab k' = c_objs_per_slab k"

lemma same_geomD:
  assumes "same_geom k k'"
  shows "geom_ok k' = geom_ok k" "slab_objs k' = slab_objs k" "slab_place k' = slab_place k"
    "c_slab_size k' = c_slab_size k" "c_objs_per_slab k' = c_objs_per_slab k" "c_obj_size k' = c_obj_size k"
  using assms by (auto simp: same_geom_def geom_ok_def slab_objs_def obj_at_def slab_place_def fun_eq_iff)

lemma same_body_rep: "same_body X st st' \<Longrightarrow> slab_rep st' nx k s xs = slab_rep st nx k s xs"
  by (simp add: same_body_def slab_rep_def)

lemma all_slabs_split: "all_slabs ls D = (\<Union>v \<in> - {w}. set (ls v)) \<union> (set (ls w) \<union> D)"
  by (auto simp: all_slabs_def)

lemma all_slabs_three: "all_slabs ls D = set (ls Full) \<union> set (ls Partial) \<union> set (ls Empty) \<union> D"
proof -
  have "(\<Union>w. set (ls w)) = set (ls Full) \<union> set (ls Partial) \<union> set (ls Empty)"
  proof (intro equalityI subsetI)
    fix x
    assume "x \<in> (\<Union>w. set (ls w))"
    then obtain w where "x \<in> set (ls w)" by blast
    then show "x \<in> set (ls Full) \<union> set (ls Partial) \<union> set (ls Empty)" by (cases w) auto
  qed blast
  then show ?thesis by (simp add: all_slabs_def)
qed

lemma cache_base_relink:
  assumes base: "cache_base h c ls D fr"
    and h': "obj_next h' = obj_next h" "heap_current h' = heap_current h"
    and k': "same_geom (hp_caches h c) (hp_caches h' c)"
      "list_head (hp_caches h' c) = (list_head (hp_caches h c))(w := first_of xs)"
    and xs: "dll (nxs (hp_slabs h')) (pvs (hp_slabs h')) None xs" "same_body X (hp_slabs h) (hp_slabs h')"
      "X \<subseteq> set (ls w) \<union> D" "set xs \<union> D' = set (ls w) \<union> D" "set xs \<inter> D' = {}"
  shows "cache_base h' c (ls(w := xs)) D' fr"
proof -
  have all: "all_slabs (ls(w := xs)) D' = all_slabs ls D"
    unfolding all_slabs_split [where w = w] using xs(4) by simp
  note B = cache_baseD [OF base]
  note g = same_geomD [OF k'(1)]
  have out: "set (ls v) \<inter> D' = {}" "set (ls v) \<inter> set xs = {}" "set xs \<inter> set (ls v) = {}" if "v \<noteq> w" for v
    using B(5) [OF that] B(4) [of v] xs(4) by blast+
  show ?thesis
  proof (rule cache_baseI)
    show "geom_ok (hp_caches h' c)" using B(1) g(1) by simp
    show "list_head (hp_caches h' c) v = first_of ((ls(w := xs)) v)" for v
      using B(2) k'(2) by simp
    show "set ((ls(w := xs)) v) \<inter> D' = {}" for v using out(1) xs(5) by simp
    show "set ((ls(w := xs)) u) \<inter> set ((ls(w := xs)) v) = {}" if "u \<noteq> v" for u v
      using that out(2,3) B(5) [OF that] by (cases "u = w"; cases "v = w") simp_all
    show "dll (nxs (hp_slabs h')) (pvs (hp_slabs h')) None ((ls(w := xs)) v)" for v
    proof (cases "v = w")
      case False
      have "hp_slabs h' x = hp_slabs h x" if "x \<in> set (ls v)" for x
        using xs(2,3) B(5) [OF False] B(4) [of v] that unfolding same_body_def by blast
      then show ?thesis using False by (simp add: dll_frame [OF B(3)])
    qed (simp add: xs(1))
    fix s
    assume s: "s \<in> all_slabs (ls(w := xs)) D'"
    show "slab_rep (hp_slabs h') (obj_next h') (hp_caches h' c) s (fr s)"
      using B(6) [of s] s all h' g xs(2) by (simp add: slab_rep_def same_body_def)
    show "slab_place (hp_caches h' c) s" "unat s + slab_bytes (hp_caches h' c) \<le> unat (heap_current h')"
      using B(7,8) s all h' g by simp_all
    fix t
    assume t: "t \<in> all_slabs (ls(w := xs)) D'" "s \<noteq> t"
    show "unat s + slab_bytes (hp_caches h' c) \<le> unat t \<or> unat t + slab_bytes (hp_caches h' c) \<le> unat s"
      using B(9) s t all g(4) by simp
  qed
qed

lemma list_head_upd [simp]:
  "list_head (k\<lparr>slabs_full := l\<rparr>) = (list_head k)(Full := l)"
  "list_head (k\<lparr>slabs_partial := l\<rparr>) = (list_head k)(Partial := l)"
  "list_head (k\<lparr>slabs_empty := l\<rparr>) = (list_head k)(Empty := l)"
  "list_head (k\<lparr>c_slab_count := n\<rparr>) = list_head k" "list_head (k\<lparr>c_alloc_count := n\<rparr>) = list_head k"
  "list_head (k\<lparr>c_free_count := n\<rparr>) = list_head k"
  by (auto simp: list_head_def fun_eq_iff split: which.splits)

lemma list_head_simps: "list_head k Full = slabs_full k" "list_head k Partial = slabs_partial k" "list_head k Empty = slabs_empty k"
  by (simp_all add: list_head_def)

definition list_add :: "which \<Rightarrow> u64 \<Rightarrow> u64 \<Rightarrow> heap \<Rightarrow> heap" where
  "list_add w = (case w of Full \<Rightarrow> full_add | Partial \<Rightarrow> partial_add | Empty \<Rightarrow> empty_add)"

definition list_remove :: "which \<Rightarrow> u64 \<Rightarrow> u64 \<Rightarrow> heap \<Rightarrow> heap" where
  "list_remove w = (case w of Full \<Rightarrow> full_remove | Partial \<Rightarrow> partial_remove | Empty \<Rightarrow> empty_remove)"

lemma cache_base_add:
  assumes "cache_base h c ls D fr" "s \<in> D"
  shows "cache_base (list_add w c s h) c (ls(w := s # ls w)) (D - {s}) fr"
proof -
  have b: "dll (nxs (hp_slabs h)) (pvs (hp_slabs h)) None (ls w)" "s \<notin> set (ls w)"
      "list_head (hp_caches h c) w = first_of (ls w)" "set (ls w) \<inter> D = {}"
    using assms by (auto simp: cache_base_def)
  obtain l st' where add: "slab_list_add (first_of (ls w)) s (hp_slabs h) = (l, st')" by force
  note sp = slab_list_add_dll [OF b(1,2) add]
  show ?thesis
    by (rule cache_base_relink [OF assms(1), where X = "insert s (set (ls w))"])
      (use sp b assms(2) add in \<open>auto simp: list_add_def full_add_def partial_add_def empty_add_def upd_cache_def
        list_head_simps same_geom_def split: which.splits\<close>)
qed

lemma cache_base_remove:
  assumes "cache_base h c ls D fr" "ls w = xs @ s # ys"
  shows "cache_base (list_remove w c s h) c (ls(w := xs @ ys)) (insert s D) fr"
proof -
  have b: "dll (nxs (hp_slabs h)) (pvs (hp_slabs h)) None (xs @ s # ys)"
      "list_head (hp_caches h c) w = first_of (xs @ s # ys)" "set (xs @ s # ys) \<inter> D = {}"
    using assms unfolding cache_base_def by metis+
  have dist: "distinct (xs @ s # ys)" by (rule dll_distinct [OF b(1)])
  obtain l st' where rem: "slab_list_remove (first_of (xs @ s # ys)) s (hp_slabs h) = (l, st')" by force
  note sp = slab_list_remove_dll [OF b(1) rem]
  show ?thesis
    by (rule cache_base_relink [OF assms(1), where X = "set (xs @ s # ys)"])
      (use sp b(2,3) assms(2) rem dist in \<open>auto simp: list_remove_def full_remove_def partial_remove_def empty_remove_def upd_cache_def
        list_head_simps same_geom_def split: which.splits\<close>)
qed

section \<open>Taking and returning an object\<close>

lemma slab_objs_disjoint:
  assumes "cache_base h c ls D fr" "s \<in> all_slabs ls D" "t \<in> all_slabs ls D" "s \<noteq> t"
  shows "slab_objs (hp_caches h c) s \<inter> slab_objs (hp_caches h c) t = {}"
proof -
  note B = cache_baseD [OF assms(1)]
  have size: "0 < unat (c_obj_size (hp_caches h c))" using B(1) by (simp add: geom_ok_def)
  show ?thesis
    using slab_objs_inside [OF B(1) B(7) [OF assms(2)]] slab_objs_inside [OF B(1) B(7) [OF assms(3)]]
      B(9) [OF assms(2-4)] size by fastforce
qed

text \<open>Changing the free chain of one slab, and the link words of its objects only.\<close>

lemma cache_base_slab:
  assumes base: "cache_base h c ls D fr" and s: "s \<in> all_slabs ls D"
    and h': "hp_caches h' c = hp_caches h c" "heap_current h' = heap_current h"
      "\<And>t. sl_next (hp_slabs h' t) = sl_next (hp_slabs h t) \<and> sl_prev (hp_slabs h' t) = sl_prev (hp_slabs h t)"
      "\<And>t. t \<noteq> s \<Longrightarrow> hp_slabs h' t = hp_slabs h t"
      "\<And>x. x \<notin> slab_objs (hp_caches h c) s \<Longrightarrow> obj_next h' x = obj_next h x"
    and rep: "slab_rep (hp_slabs h') (obj_next h') (hp_caches h c) s ys"
  shows "cache_base h' c ls D (fr(s := ys))"
proof -
  note B = cache_baseD [OF base]
  show ?thesis
  proof (rule cache_baseI)
    show "dll (nxs (hp_slabs h')) (pvs (hp_slabs h')) None (ls w)" for w
      using h'(3) by (intro dll_frame [OF B(3)]) simp_all
    fix t
    assume t: "t \<in> all_slabs ls D"
    show "slab_rep (hp_slabs h') (obj_next h') (hp_caches h' c) t ((fr(s := ys)) t)"
    proof (cases "t = s")
      case True
      then show ?thesis using rep h'(1) by simp
    next
      case False
      have old: "slab_rep (hp_slabs h) (obj_next h) (hp_caches h c) t (fr t)" by (rule B(6) [OF t])
      have "obj_next h' x = obj_next h x" if "x \<in> set (fr t)" for x
        using slab_objs_disjoint [OF base s t] False old that by (intro h'(5)) (auto simp: slab_rep_def)
      then have "chain (obj_next h') p (fr t) = chain (obj_next h) p (fr t)" for p
        by (intro chain_cong) simp
      then show ?thesis using old False h'(1,4) by (simp add: slab_rep_def)
    qed
  qed (use B(1,2,4,5,7,8,9) h'(1,2) in \<open>simp_all\<close>)
qed

lemma slab_alloc_obj_base:
  assumes base: "cache_base h c ls D fr" and s: "s \<in> all_slabs ls D" "fr s = x # xs"
  obtains h' where "slab_alloc_obj h s = (Some x, h')" "cache_base h' c ls D (fr(s := xs))"
    "hp_vm h' = hp_vm h" "heap_current h' = heap_current h" "hp_caches h' = hp_caches h"
    "slab_is_full h' s \<longleftrightarrow> xs = []"
proof -
  note rep = cache_baseD(6) [OF base s(1), unfolded s(2) slab_rep_def]
  let ?sl = "(hp_slabs h s)\<lparr>sl_free_list := obj_next h x, sl_in_use := sl_in_use (hp_slabs h s) + 1\<rparr>"
  let ?h = "h\<lparr>hp_slabs := (hp_slabs h)(s := ?sl)\<rparr>"
  have run: "slab_alloc_obj h s = (Some x, ?h)"
    using rep by (simp add: slab_alloc_obj_def)
  have "unat (sl_in_use (hp_slabs h s)) + 1 < 2 ^ 32"
  proof -
    have "unat (c_objs_per_slab (hp_caches h c)) < 2 ^ LENGTH(32)" by (rule unsigned_less)
    with rep show ?thesis by simp
  qed
  then have inc: "unat (sl_in_use (hp_slabs h s) + 1) = unat (sl_in_use (hp_slabs h s)) + 1"
    by (simp add: unat_word_ariths)
  have "slab_rep (hp_slabs ?h) (obj_next ?h) (hp_caches h c) s xs"
    using rep inc by (simp add: slab_rep_def)
  then have "cache_base ?h c ls D (fr(s := xs))"
    by (intro cache_base_slab [OF base s(1)]) simp_all
  moreover have "slab_is_full ?h s \<longleftrightarrow> xs = []"
  proof -
    have "slab_is_full ?h s \<longleftrightarrow> unat (sl_in_use (hp_slabs h s) + 1) = unat (c_objs_per_slab (hp_caches h c))"
      using rep by (simp add: slab_is_full_def word_unat_eq_iff)
    also have "\<dots> \<longleftrightarrow> length xs = 0"
    proof -
      have "unat (sl_in_use (hp_slabs h s)) + 1 + length xs = unat (c_objs_per_slab (hp_caches h c))"
        using rep by simp
      with inc show ?thesis by linarith
    qed
    finally show ?thesis by simp
  qed
  ultimately show ?thesis using run by (intro that [of ?h]) simp_all
qed

lemma slab_full_iff:
  assumes "cache_base h c ls D fr" "s \<in> all_slabs ls D"
  shows "slab_is_full h s \<longleftrightarrow> fr s = []"
proof -
  have "unat (sl_in_use (hp_slabs h s)) + length (fr s) = unat (sl_total (hp_slabs h s))"
    using cache_baseD(6) [OF assms] by (simp add: slab_rep_def)
  then show ?thesis by (auto simp: slab_is_full_def word_unat_eq_iff)
qed

lemma slab_free_obj_base:
  assumes base: "cache_base h c ls D fr" and s: "s \<in> all_slabs ls D"
    and x: "x \<in> slab_objs (hp_caches h c) s" "x \<notin> set (fr s)"
  shows "cache_base (slab_free_obj h s x) c ls D (fr(s := x # fr s))"
    and "sl_in_use (hp_slabs (slab_free_obj h s x) s) = 0 \<longleftrightarrow> length (x # fr s) = unat (c_objs_per_slab (hp_caches h c))"
proof -
  note B = cache_baseD [OF base]
  note rep = B(6) [OF s, unfolded slab_rep_def]
  let ?k = "hp_caches h c" and ?h = "slab_free_obj h s x"
  have "card (set (x # fr s)) \<le> card (slab_objs ?k s)"
    using card_slab_objs(2) [OF B(1) B(7) [OF s]] rep x by (intro card_mono) auto
  then have room: "length (x # fr s) \<le> unat (c_objs_per_slab ?k)"
    using card_slab_objs(1) [OF B(1) B(7) [OF s]] rep x(2) by (simp add: distinct_card)
  have dec: "unat (sl_in_use (hp_slabs h s) - 1) = unat (sl_in_use (hp_slabs h s)) - 1"
    using room rep by (intro unat_minus_one) auto
  have "chain ((obj_next h)(x := sl_free_list (hp_slabs h s))) p (fr s) = chain (obj_next h) p (fr s)" for p
    using x(2) by (intro chain_cong) auto
  then have "slab_rep (hp_slabs ?h) (obj_next ?h) ?k s (x # fr s)"
    using rep dec room x by (simp add: slab_rep_def slab_free_obj_def)
  then show "cache_base ?h c ls D (fr(s := x # fr s))"
    using x(1) by (intro cache_base_slab [OF base s]) (auto simp: slab_free_obj_def)
  have "sl_in_use (hp_slabs ?h s) = 0 \<longleftrightarrow> unat (sl_in_use (hp_slabs h s)) - 1 = 0"
    using dec by (simp add: slab_free_obj_def flip: unat_eq_zero)
  then show "sl_in_use (hp_slabs ?h s) = 0 \<longleftrightarrow> length (x # fr s) = unat (c_objs_per_slab ?k)"
    using room rep by auto
qed

section \<open>Finding the slab of an object\<close>

lemma find_in_slabs_dll:
  assumes "dll (nxs (hp_slabs h)) pv p xs"
  shows "find_in_slabs h bytes (first_of xs) addr =
    Some (List.find (\<lambda>s. s \<le> addr \<and> addr < s + bytes) xs)"
  using assms
proof (induction xs arbitrary: p)
  case Nil
  then show ?case by (simp add: find_in_slabs.simps)
next
  case (Cons s xs)
  then have "sl_next (hp_slabs h s) = first_of xs" "dll (nxs (hp_slabs h)) pv (Some s) xs" by simp_all
  then show ?case
    using Cons.IH by (simp add: find_in_slabs.simps [of h bytes "Some s"])
qed

lemma slab_range:
  assumes base: "cache_base h c ls D fr" and s: "s \<in> all_slabs ls D" and t: "t \<in> all_slabs ls D"
    and x: "x \<in> slab_objs (hp_caches h c) s"
  shows "t \<le> x \<and> x < t + c_slab_size (hp_caches h c) * PAGE_SIZE \<longleftrightarrow> t = s"
proof -
  note B = cache_baseD [OF base]
  let ?k = "hp_caches h c"
  have size: "0 < unat (c_obj_size ?k)" using B(1) by (simp add: geom_ok_def)
  have "unat (c_slab_size ?k * PAGE_SIZE) = slab_bytes ?k"
    using B(1) by (simp add: geom_ok_def unat_word_ariths PAGE_SIZE_def)
  moreover have "unat u + slab_bytes ?k < 2 ^ 64" if "u \<in> all_slabs ls D" for u
    using B(7) [OF that] by (simp add: slab_place_def KHEAP_END_def)
  ultimately have top: "unat (u + c_slab_size ?k * PAGE_SIZE) = unat u + slab_bytes ?k" if "u \<in> all_slabs ls D" for u
    using that by (simp add: unat_word_ariths)
  have "t \<le> x \<and> x < t + c_slab_size ?k * PAGE_SIZE \<longleftrightarrow> unat t \<le> unat x \<and> unat x < unat t + slab_bytes ?k"
    using top [OF t] by (simp add: word_le_nat_alt word_less_nat_alt)
  also have "\<dots> \<longleftrightarrow> t = s"
    using slab_objs_inside [OF B(1) B(7) [OF s] x] size B(9) [OF s t] by (cases "t = s") auto
  finally show ?thesis .
qed

lemma find_unique:
  assumes "\<And>t. t \<in> set xs \<Longrightarrow> P t \<longleftrightarrow> t = s"
  shows "List.find P xs = (if s \<in> set xs then Some s else None)"
  using assms by (induction xs) auto

lemma find_slab_for_obj_base:
  assumes base: "cache_base h c ls D fr" and s: "s \<in> set (ls Partial) \<union> set (ls Full)"
    and x: "x \<in> slab_objs (hp_caches h c) s"
  shows "find_slab_for_obj h c x = Some (Some s)"
proof -
  note B = cache_baseD [OF base]
  have all: "t \<in> all_slabs ls D" if "t \<in> set (ls w)" for t w using that by (auto simp: all_slabs_def)
  have s': "s \<in> all_slabs ls D" using s all by blast
  have "List.find (\<lambda>t. t \<le> x \<and> x < t + c_slab_size (hp_caches h c) * PAGE_SIZE) (ls w) =
      (if s \<in> set (ls w) then Some s else None)" for w
    using slab_range [OF base s' all x] by (rule find_unique)
  then have "find_in_slabs h (c_slab_size (hp_caches h c) * PAGE_SIZE) (list_head (hp_caches h c) w) x =
      Some (if s \<in> set (ls w) then Some s else None)" for w
    unfolding B(2) find_in_slabs_dll [OF B(3)] by simp
  then show ?thesis
    using s by (auto simp: find_slab_for_obj_def Let_def list_head_simps [symmetric] split: if_splits)
qed

section \<open>Allocation\<close>

lemma upd_cache_simps [simp]:
  "hp_vm (upd_cache c f h) = hp_vm h" "heap_current (upd_cache c f h) = heap_current h"
  "hp_slabs (upd_cache c f h) = hp_slabs h" "obj_next (upd_cache c f h) = obj_next h"
  "hp_caches (upd_cache c f h) = (hp_caches h)(c := f (hp_caches h c))"
  by (simp_all add: upd_cache_def)

lemma list_ops_frame [simp]:
  "hp_vm (list_add w c s h) = hp_vm h" "heap_current (list_add w c s h) = heap_current h"
  "hp_vm (list_remove w c s h) = hp_vm h" "heap_current (list_remove w c s h) = heap_current h"
  "same_geom (hp_caches h c) (hp_caches (list_add w c s h) c)"
  "same_geom (hp_caches h c) (hp_caches (list_remove w c s h) c)"
  by (cases w; simp add: list_add_def list_remove_def full_add_def partial_add_def empty_add_def
      full_remove_def partial_remove_def empty_remove_def same_geom_def case_prod_beta)+

lemma heap_ok_cong: "hp_vm h' = hp_vm h \<Longrightarrow> heap_current h' = heap_current h \<Longrightarrow> heap_ok h' = heap_ok h"
  by (simp add: heap_ok_def)

lemma cache_base_counter:
  assumes "cache_base h c ls D fr" "hp_slabs h' = hp_slabs h" "obj_next h' = obj_next h"
    "heap_current h' = heap_current h" "same_geom (hp_caches h c) (hp_caches h' c)"
    "list_head (hp_caches h' c) = list_head (hp_caches h c)"
  shows "cache_base h' c ls D fr"
  using assms same_geomD [OF assms(5)] unfolding cache_base_def by (simp add: slab_rep_def)

lemma count_alloc_base:
  assumes base: "cache_base h c ls D fr" and s: "s \<in> all_slabs ls D"
    and x: "x \<in> slab_objs (hp_caches h c) s" "x \<notin> set (fr s)"
  obtains h' where "count_alloc c (Some x) h = (Some x, h')" "cache_base h' c ls D fr"
    "hp_vm h' = hp_vm h" "heap_current h' = heap_current h" "same_geom (hp_caches h c) (hp_caches h' c)"
proof -
  let ?h1 = "upd_cache c (\<lambda>c. c\<lparr>c_alloc_count := c_alloc_count c + 1\<rparr>) h"
  let ?h2 = "?h1\<lparr>obj_next := (obj_next ?h1)(x := None)\<rparr>"
  have geom: "same_geom (hp_caches h c) (hp_caches ?h1 c)" by (simp add: same_geom_def)
  have b1: "cache_base ?h1 c ls D fr"
    using geom by (intro cache_base_counter [OF base]) simp_all
  have x1: "x \<in> slab_objs (hp_caches ?h1 c) s" using x(1) same_geomD(2) [OF geom] by simp
  have rep: "slab_rep (hp_slabs ?h1) (obj_next ?h1) (hp_caches ?h1 c) s (fr s)" by (rule cache_baseD(6) [OF b1 s])
  have "chain ((obj_next ?h1)(x := None)) p (fr s) = chain (obj_next ?h1) p (fr s)" for p
    using x(2) by (intro chain_cong) auto
  then have "slab_rep (hp_slabs ?h2) (obj_next ?h2) (hp_caches ?h1 c) s (fr s)"
    using rep by (simp add: slab_rep_def)
  then have "cache_base ?h2 c ls D (fr(s := fr s))"
    using x1 by (intro cache_base_slab [OF b1 s]) auto
  then have b2: "cache_base ?h2 c ls D fr" by simp
  show ?thesis
  proof (cases "test_flag (c_flags (hp_caches ?h1 c)) SLAB_ZERO")
    case True
    then show ?thesis using b2 geom by (intro that [of ?h2]) (simp_all add: count_alloc_def Let_def)
  next
    case False
    then show ?thesis using b1 geom by (intro that [of ?h1]) (simp_all add: count_alloc_def Let_def)
  qed
qed

lemma live_of_take:
  assumes "s \<in> S" "fr s = x # xs" "x \<notin> set xs" "x \<in> slab_objs k s"
  shows "live_of k S (fr(s := xs)) = insert x (live_of k S fr)"
  using assms by (auto simp: live_of_def split: if_splits)

lemma not_live:
  assumes "cache_base h c ls D fr" "s \<in> all_slabs ls D" "x \<in> set (fr s)"
  shows "x \<notin> live_of (hp_caches h c) (all_slabs ls D) fr"
proof
  assume "x \<in> live_of (hp_caches h c) (all_slabs ls D) fr"
  then obtain t where t: "t \<in> all_slabs ls D" "x \<in> slab_objs (hp_caches h c) t" "x \<notin> set (fr t)"
    by (auto simp: live_of_def)
  moreover have "x \<in> slab_objs (hp_caches h c) s"
    using cache_baseD(6) [OF assms(1,2)] assms(3) by (auto simp: slab_rep_def)
  ultimately show False using slab_objs_disjoint [OF assms(1,2) t(1)] assms(3) by blast
qed

lemma live_of_cong: "same_geom k k' \<Longrightarrow> live_of k' S fr = live_of k S fr"
  by (simp add: live_of_def same_geomD(2))

text \<open>The end of an allocation: a slab out of the lists that just gave out \<open>x\<close> is filed again.\<close>

lemma file_slab_live:
  assumes base: "cache_base h c ls {s} fr" and ok: "heap_ok h" and filed: "filed h c ls fr"
    and full: "slab_is_full h s \<longleftrightarrow> fr s = []" and x: "x \<in> slab_objs (hp_caches h c) s" "x \<notin> set (fr s)"
  obtains h' where "count_alloc c (Some x) (file_slab c s h) = (Some x, h')"
    "cache_live h' c (live_of (hp_caches h c) (all_slabs ls {s}) fr)"
proof -
  define w where "w = (if fr s = [] then Full else Partial)"
  let ?ls = "ls(w := s # ls w)"
  have fil: "file_slab c s h = list_add w c s h"
    using full by (simp add: file_slab_def w_def list_add_def)
  let ?h1 = "list_add w c s h"
  have geom: "same_geom (hp_caches h c) (hp_caches ?h1 c)" by simp
  have b1: "cache_base ?h1 c ?ls {} fr"
    using cache_base_add [OF base, of s w] by simp
  have all: "all_slabs ?ls {} = all_slabs ls {s}"
    unfolding all_slabs_split [where w = w] by simp
  have notin: "s \<notin> set (ls v)" for v using cache_baseD(4) [OF base, of v] by simp
  have f1: "filed ?h1 c ?ls fr"
    using filed same_geomD(5) [OF geom] by (simp add: filed_def w_def)
  obtain h' where h': "count_alloc c (Some x) ?h1 = (Some x, h')" "cache_base h' c ?ls {} fr"
      "hp_vm h' = hp_vm ?h1" "heap_current h' = heap_current ?h1" "same_geom (hp_caches ?h1 c) (hp_caches h' c)"
    by (rule count_alloc_base [OF b1, of s x])
      (use x same_geomD(2) [OF geom] all in \<open>simp_all add: all_slabs_def\<close>)
  have "filed h' c ?ls fr" using f1 same_geomD(5) [OF h'(5)] by (simp add: filed_def)
  moreover have "heap_ok h'" using ok h'(3,4) heap_ok_cong [of h' h] by simp
  moreover have "live_of (hp_caches h' c) (all_slabs ?ls {}) fr = live_of (hp_caches h c) (all_slabs ls {s}) fr"
    unfolding all live_of_cong [OF h'(5)] live_of_cong [OF geom] ..
  ultimately have "cache_live h' c (live_of (hp_caches h c) (all_slabs ls {s}) fr)"
    using h'(2) unfolding cache_live_def by metis
  then show ?thesis using h'(1) fil by (intro that [of h']) simp_all
qed

lemma init_free_list_chain:
  assumes "\<And>i j. i < n \<Longrightarrow> j < n \<Longrightarrow> a + of_nat i * sz = a + of_nat j * sz \<Longrightarrow> i = j"
    and "init_free_list a sz n nx = (fl, nx')"
  shows "chain nx' fl (rev (map (\<lambda>i. a + of_nat i * sz) [0..<n]))"
    and "x \<notin> (\<lambda>i. a + of_nat i * sz) ` {..<n} \<Longrightarrow> nx' x = nx x"
proof -
  let ?o = "\<lambda>i. a + of_nat i * sz"
  have "chain nx' fl (rev (map ?o [0..<n])) \<and> (\<forall>x. x \<notin> ?o ` {..<n} \<longrightarrow> nx' x = nx x)"
    using assms
  proof (induction n arbitrary: fl nx')
    case 0
    then show ?case by (simp add: init_free_list_def)
  next
    case (Suc n)
    obtain fl1 nx1 where r: "init_free_list a sz n nx = (fl1, nx1)" by force
    then have eq: "fl = Some (?o n)" "nx' = nx1(?o n := fl1)"
      using Suc.prems(2) by (simp_all add: init_free_list_def Let_def)
    have IH: "chain nx1 fl1 (rev (map ?o [0..<n]))" "\<forall>x. x \<notin> ?o ` {..<n} \<longrightarrow> nx1 x = nx x"
      using Suc.IH [OF _ r] Suc.prems(1) by auto
    have new: "?o n \<notin> ?o ` {..<n}"
    proof
      assume "?o n \<in> ?o ` {..<n}"
      then obtain j where "j < n" "?o n = ?o j" by auto
      then show False using Suc.prems(1) [of n j] by simp
    qed
    have "nx' x = nx1 x" if "x \<in> ?o ` {..<n}" for x
    proof -
      have "x \<noteq> ?o n" using that new by blast
      then show ?thesis using eq(2) by simp
    qed
    then have "chain nx' fl1 (rev (map ?o [0..<n])) = chain nx1 fl1 (rev (map ?o [0..<n]))"
      by (intro chain_cong) (simp add: atLeast0LessThan)
    then have "chain nx' fl1 (rev (map ?o [0..<n]))" using IH(1) by simp
    moreover have "nx' (?o n) = fl1" using eq(2) by simp
    ultimately have "chain nx' fl (rev (map ?o [0..<Suc n]))" using eq(1) by simp
    moreover have "nx' x = nx x" if "x \<notin> ?o ` {..<Suc n}" for x
      using that IH(2) eq(2) by (simp add: lessThan_Suc)
    ultimately show ?case by blast
  qed
  then show "chain nx' fl (rev (map ?o [0..<n]))" "x \<notin> ?o ` {..<n} \<Longrightarrow> nx' x = nx x" by simp_all
qed

lemma cache_base_new_slab:
  assumes base: "cache_base h c ls {} fr"
    and place: "slab_place (hp_caches h c) m" "\<And>s. s \<in> all_slabs ls {} \<Longrightarrow> unat s + slab_bytes (hp_caches h c) \<le> unat m"
    and h': "unat m + slab_bytes (hp_caches h c) \<le> unat (heap_current h')" "same_geom (hp_caches h c) (hp_caches h' c)"
      "list_head (hp_caches h' c) = list_head (hp_caches h c)"
      "\<And>s. s \<noteq> m \<Longrightarrow> hp_slabs h' s = hp_slabs h s"
      "\<And>x. x \<notin> slab_objs (hp_caches h c) m \<Longrightarrow> obj_next h' x = obj_next h x"
    and rep: "slab_rep (hp_slabs h') (obj_next h') (hp_caches h c) m ys"
  shows "cache_base h' c ls {m} (fr(m := ys))"
proof -
  note B = cache_baseD [OF base] and g = same_geomD [OF h'(2)]
  let ?k = "hp_caches h c"
  have pos: "0 < slab_bytes ?k" "0 < unat (c_obj_size ?k)" using B(1) by (simp_all add: geom_ok_def)
  have new: "m \<notin> all_slabs ls {}" using place(2) pos(1) by fastforce
  have all: "all_slabs ls {m} = insert m (all_slabs ls {})" by (auto simp: all_slabs_def)
  have sep: "slab_objs ?k s \<inter> slab_objs ?k m = {}" if "s \<in> all_slabs ls {}" for s
    using slab_objs_inside [OF B(1) B(7) [OF that]] slab_objs_inside [OF B(1) place(1)] place(2) [OF that] pos
    by fastforce
  show ?thesis
  proof (rule cache_baseI)
    show "dll (nxs (hp_slabs h')) (pvs (hp_slabs h')) None (ls w)" for w
    proof (rule dll_frame [OF B(3)])
      fix y
      assume "y \<in> set (ls w)"
      then have "y \<noteq> m" using new by (auto simp: all_slabs_def)
      then show "sl_next (hp_slabs h' y) = sl_next (hp_slabs h y)" "sl_prev (hp_slabs h' y) = sl_prev (hp_slabs h y)"
        using h'(4) by simp_all
    qed
    show "set (ls w) \<inter> {m} = {}" for w using new by (auto simp: all_slabs_def)
    fix t
    assume t: "t \<in> all_slabs ls {m}"
    show "slab_rep (hp_slabs h') (obj_next h') (hp_caches h' c) t ((fr(m := ys)) t)"
    proof (cases "t = m")
      case True
      then show ?thesis using rep g by (simp add: slab_rep_def)
    next
      case False
      with t all have t': "t \<in> all_slabs ls {}" by simp
      note old = B(6) [OF t']
      have "obj_next h' x = obj_next h x" if "x \<in> set (fr t)" for x
        using sep [OF t'] old that by (intro h'(5)) (auto simp: slab_rep_def)
      then have "chain (obj_next h') p (fr t) = chain (obj_next h) p (fr t)" for p
        by (intro chain_cong) simp
      then show ?thesis using old False h'(4) g by (simp add: slab_rep_def)
    qed
    show "slab_place (hp_caches h' c) t" using t all B(7) place(1) g(3) by auto
    show "unat t + slab_bytes (hp_caches h' c) \<le> unat (heap_current h')"
      using t all place(2) h'(1) g(4) by fastforce
    fix u
    assume u: "u \<in> all_slabs ls {m}" "t \<noteq> u"
    show "unat t + slab_bytes (hp_caches h' c) \<le> unat u \<or> unat u + slab_bytes (hp_caches h' c) \<le> unat t"
      using t u all B(9) place(2) g(4) by auto
  qed (use B(1,2,5) g(1) h'(3) in \<open>simp_all\<close>)
qed

lemma slab_create_base:
  assumes base: "cache_base h c ls {} fr" and ok: "heap_ok h"
  shows "(\<exists>h'. slab_create h c = Some (None, h') \<and> heap_ok h' \<and> cache_base h' c ls {} fr \<and>
       hp_caches h' = hp_caches h) \<or>
    (\<exists>m h' ys. slab_create h c = Some (Some m, h') \<and> heap_ok h' \<and> cache_base h' c ls {m} (fr(m := ys)) \<and>
       same_geom (hp_caches h c) (hp_caches h' c) \<and> m \<notin> all_slabs ls {} \<and>
       set ys = slab_objs (hp_caches h c) m \<and> length ys = unat (c_objs_per_slab (hp_caches h c)))"
proof -
  note B = cache_baseD [OF base]
  let ?k = "hp_caches h c"
  have geom: "geom_ok ?k" by (rule B(1))
  then have "unat (c_slab_size ?k) * 4096 \<le> 65536" by (simp add: geom_ok_def)
  moreover have "unat (heap_current h) \<le> unat KHEAP_END" using ok by (simp add: heap_ok_def word_le_nat_alt)
  ultimately have "unat (heap_current h) + unat (c_slab_size ?k) * 4096 < 2 ^ 64" by (simp add: KHEAP_END_def)
  from heap_alloc_pages_spec [OF ok this]
  obtain p h1 where al: "heap_alloc_pages h (c_slab_size ?k) = Some (p, h1)" and ok1: "heap_ok h1"
      and same: "hp_slabs h1 = hp_slabs h" "hp_caches h1 = hp_caches h" "obj_next h1 = obj_next h"
      and res: "pages_result h (c_slab_size ?k) p h1"
    by blast
  show ?thesis
  proof (cases p)
    case None
    then have "slab_create h c = Some (None, h1)" using al by (simp add: slab_create_def Let_def)
    moreover have "cache_base h1 c ls {} fr"
      using same res None by (intro cache_base_counter [OF base]) (simp_all add: same_geom_def pages_result_def)
    ultimately show ?thesis using ok1 same by blast
  next
    case (Some m)
    then have m: "m = heap_current h" "unat (heap_current h1) = unat m + slab_bytes ?k" using res by (simp_all add: pages_result_def)
    have place: "slab_place ?k m"
      using ok ok1 m by (simp add: slab_place_def heap_ok_def word_le_nat_alt)
    let ?n = "unat (c_objs_per_slab ?k)" and ?a = "ALIGN_UP (m + sizeof_slab) (c_align ?k)"
    obtain fl nx where ifl: "init_free_list ?a (c_obj_size ?k) ?n (obj_next h1) = (fl, nx)" by force
    have inj: "i = j" if "i < ?n" "j < ?n" "?a + of_nat i * c_obj_size ?k = ?a + of_nat j * c_obj_size ?k" for i j
      using obj_at_inj [OF geom place that(1,2)] that(3) by (simp add: obj_at_def)
    note ch = init_free_list_chain [OF inj ifl]
    have objs: "slab_objs ?k m = (\<lambda>i. ?a + of_nat i * c_obj_size ?k) ` {..<?n}"
      by (simp add: slab_objs_def obj_at_def image_def)
    let ?ys = "rev (map (\<lambda>i. ?a + of_nat i * c_obj_size ?k) [0..<?n])"
    have ys: "set ?ys = slab_objs ?k m" "length ?ys = ?n" "distinct ?ys"
      using inj by (auto simp: objs lessThan_atLeast0 distinct_map inj_on_def)
    let ?sl = "\<lparr>sl_next = None, sl_prev = None, sl_cache = Some c, sl_free_list = fl,
        sl_in_use = 0, sl_total = c_objs_per_slab ?k, sl_objects = ?a\<rparr>"
    let ?h = "upd_cache c (\<lambda>c. c\<lparr>c_slab_count := c_slab_count c + 1\<rparr>)
        (h1\<lparr>hp_slabs := (hp_slabs h1)(m := ?sl), obj_next := nx\<rparr>)"
    have run: "slab_create h c = Some (Some m, ?h)"
      using al Some ifl by (simp add: slab_create_def Let_def)
    have below: "unat s + slab_bytes ?k \<le> unat m" if "s \<in> all_slabs ls {}" for s
      using B(8) [OF that] m(1) by simp
    have "slab_rep (hp_slabs ?h) (obj_next ?h) ?k m ?ys"
      using ch(1) ys by (simp add: slab_rep_def)
    then have "cache_base ?h c ls {m} (fr(m := ?ys))"
      using m(2) same ch(2) objs
      by (intro cache_base_new_slab [OF base place below])
        (simp_all add: same_geom_def)
    moreover have "m \<notin> all_slabs ls {}" using below geom by (fastforce simp: geom_ok_def)
    moreover have "heap_ok ?h" using ok1 heap_ok_cong [of ?h h1] by simp
    moreover have "same_geom ?k (hp_caches ?h c)" using same by (simp add: same_geom_def)
    ultimately show ?thesis using run ys by blast
  qed
qed

text \<open>Taking an object from a slab that is out of the lists, and filing the slab.\<close>

definition take_and_file :: "u64 \<Rightarrow> u64 \<Rightarrow> heap \<Rightarrow> vptr \<times> heap" where
  "take_and_file c s h = (case slab_alloc_obj h s of (obj, h1) \<Rightarrow> count_alloc c obj (file_slab c s h1))"

text \<open>What an allocation does to the live set.\<close>

definition alloc_to :: "(vptr \<times> heap) option \<Rightarrow> u64 \<Rightarrow> u64 set \<Rightarrow> bool" where
  "alloc_to r c L \<longleftrightarrow> (\<exists>x h'. r = Some (Some x, h') \<and> x \<notin> L \<and> cache_live h' c (insert x L))"

lemma take_and_file_live:
  assumes b: "cache_base h c ls {s} fr" and ok: "heap_ok h" and fl: "filed h c ls fr" and ne: "fr s \<noteq> []"
  shows "alloc_to (Some (take_and_file c s h)) c (live_of (hp_caches h c) (all_slabs ls {s}) fr)"
proof -
  let ?L = "live_of (hp_caches h c) (all_slabs ls {s}) fr"
  obtain x xs where x: "fr s = x # xs" using ne by (cases "fr s") auto
  have s: "s \<in> all_slabs ls {s}" by (simp add: all_slabs_def)
  have rep: "slab_rep (hp_slabs h) (obj_next h) (hp_caches h c) s (x # xs)"
    using cache_baseD(6) [OF b s] x by simp
  then have x': "x \<in> slab_objs (hp_caches h c) s" "x \<notin> set xs" by (simp_all add: slab_rep_def)
  have nin: "s \<notin> set (ls w)" for w using cache_baseD(4) [OF b, of w] by simp
  obtain h2 where h2: "slab_alloc_obj h s = (Some x, h2)" "cache_base h2 c ls {s} (fr(s := xs))"
      "hp_vm h2 = hp_vm h" "heap_current h2 = heap_current h" "hp_caches h2 = hp_caches h"
    using slab_alloc_obj_base [OF b s x] by metis
  have f2: "filed h2 c ls (fr(s := xs))"
    using fl nin [of Full] nin [of Partial] nin [of Empty] h2(5) by (auto simp: filed_def)
  have ok2: "heap_ok h2" using ok heap_ok_cong [OF h2(3,4)] by simp
  have full: "slab_is_full h2 s \<longleftrightarrow> (fr(s := xs)) s = []" by (rule slab_full_iff [OF h2(2) s])
  have x2: "x \<in> slab_objs (hp_caches h2 c) s" "x \<notin> set ((fr(s := xs)) s)" using x' h2(5) by simp_all
  obtain h' where h': "count_alloc c (Some x) (file_slab c s h2) = (Some x, h')"
      "cache_live h' c (live_of (hp_caches h2 c) (all_slabs ls {s}) (fr(s := xs)))"
    by (rule file_slab_live [OF h2(2) ok2 f2 full x2])
  have "live_of (hp_caches h c) (all_slabs ls {s}) (fr(s := xs)) = insert x ?L"
    by (rule live_of_take [of s "all_slabs ls {s}" fr, OF s x x'(2,1)])
  moreover have "x \<notin> ?L" by (rule not_live [OF b s]) (simp add: x)
  ultimately show ?thesis using h2(1,5) h' by (auto simp: alloc_to_def take_and_file_def)
qed

lemma alloc_partial_full:
  assumes b: "cache_base h c ls {} fr" and ok: "heap_ok h" and fl: "filed h c ls fr"
    and ls: "ls Partial = s # ps" and x: "fr s = [x]" and run: "slab_alloc_obj h s = (Some x, h2)"
    and b2: "cache_base h2 c ls {} (fr(s := []))"
    and h2: "hp_vm h2 = hp_vm h" "heap_current h2 = heap_current h" "hp_caches h2 = hp_caches h"
  shows "alloc_to (Some (count_alloc c (Some x) (full_add c s (partial_remove c s h2)))) c
    (live_of (hp_caches h c) (all_slabs ls {}) fr)"
proof -
  let ?k = "hp_caches h c" and ?h3 = "list_remove Partial c s h2" and ?ls = "ls(Partial := ps)" and ?fr = "fr(s := [])"
  have s: "s \<in> set (ls Partial)" using ls by simp
  then have sa: "s \<in> all_slabs ls {}" by (auto simp: all_slabs_def)
  have rep: "slab_rep (hp_slabs h) (obj_next h) ?k s [x]" using cache_baseD(6) [OF b sa] x by simp
  have b3: "cache_base ?h3 c ?ls {s} ?fr"
    using cache_base_remove [OF b2, of Partial "[]" s ps] ls by simp
  have g: "same_geom ?k (hp_caches ?h3 c)" using list_ops_frame(6) [of h2 c Partial s] h2(3) by simp
  have full: "slab_is_full ?h3 s \<longleftrightarrow> ?fr s = []"
    by (rule slab_full_iff [OF b3]) (simp add: all_slabs_def)
  have "distinct (ls Partial)" by (rule dll_distinct [OF cache_baseD(3) [OF b]])
  moreover have "s \<notin> set (ls Full)" "s \<notin> set (ls Empty)"
    using cache_baseD(5) [OF b, of Full Partial] cache_baseD(5) [OF b, of Empty Partial] s by auto
  ultimately have f3: "filed ?h3 c ?ls ?fr"
    using fl ls same_geomD(5) [OF g] by (auto simp: filed_def)
  have ok3: "heap_ok ?h3" using ok heap_ok_cong [of ?h3 h] h2 by simp
  have x3: "x \<in> slab_objs (hp_caches ?h3 c) s" using rep same_geomD(2) [OF g] by (simp add: slab_rep_def)
  obtain h' where h': "count_alloc c (Some x) (file_slab c s ?h3) = (Some x, h')"
      "cache_live h' c (live_of (hp_caches ?h3 c) (all_slabs ?ls {s}) ?fr)"
    by (rule file_slab_live [OF b3 ok3 f3 full x3]) simp_all
  have "live_of (hp_caches ?h3 c) (all_slabs ?ls {s}) ?fr = live_of ?k (all_slabs ls {}) ?fr"
    unfolding live_of_cong [OF g] all_slabs_split [where w = Partial] using ls by simp
  also have "\<dots> = insert x (live_of ?k (all_slabs ls {}) fr)"
    using rep by (intro live_of_take [where x = x] sa) (simp_all add: x slab_rep_def)
  finally have "cache_live h' c (insert x (live_of ?k (all_slabs ls {}) fr))" using h'(2) by simp
  moreover have "file_slab c s ?h3 = full_add c s (partial_remove c s h2)"
    using full by (simp add: file_slab_def list_remove_def)
  moreover have "x \<notin> live_of ?k (all_slabs ls {}) fr" by (rule not_live [OF b sa]) (simp add: x)
  ultimately show ?thesis using h'(1) by (auto simp: alloc_to_def)
qed

lemma alloc_partial_more:
  assumes b: "cache_base h c ls {} fr" and ok: "heap_ok h" and fl: "filed h c ls fr"
    and s: "s \<in> set (ls Partial)" and x: "fr s = x # xs" "xs \<noteq> []" and run: "slab_alloc_obj h s = (Some x, h2)"
    and b2: "cache_base h2 c ls {} (fr(s := xs))"
    and h2: "hp_vm h2 = hp_vm h" "heap_current h2 = heap_current h" "hp_caches h2 = hp_caches h"
  shows "alloc_to (Some (count_alloc c (Some x) h2)) c (live_of (hp_caches h c) (all_slabs ls {}) fr)"
proof -
  let ?k = "hp_caches h c"
  have sa: "s \<in> all_slabs ls {}" using s by (auto simp: all_slabs_def)
  have rep: "slab_rep (hp_slabs h) (obj_next h) ?k s (x # xs)" using cache_baseD(6) [OF b sa] x by simp
  then have x': "x \<in> slab_objs ?k s" "x \<notin> set xs" by (simp_all add: slab_rep_def)
  obtain h' where h': "count_alloc c (Some x) h2 = (Some x, h')" "cache_base h' c ls {} (fr(s := xs))"
      "hp_vm h' = hp_vm h2" "heap_current h' = heap_current h2" "same_geom (hp_caches h2 c) (hp_caches h' c)"
    by (rule count_alloc_base [OF b2 sa, of x]) (use x' h2(3) in simp_all)
  have "s \<notin> set (ls Full)" "s \<notin> set (ls Empty)"
    using cache_baseD(5) [OF b, of Full Partial] cache_baseD(5) [OF b, of Empty Partial] s by auto
  then have "filed h' c ls (fr(s := xs))"
    using fl x(2) same_geomD(5) [OF h'(5)] h2(3) by (auto simp: filed_def)
  moreover have "heap_ok h'" using ok heap_ok_cong [of h' h] h'(3,4) h2 by simp
  moreover have "live_of (hp_caches h' c) (all_slabs ls {}) (fr(s := xs)) = insert x (live_of ?k (all_slabs ls {}) fr)"
    unfolding live_of_cong [OF h'(5)] h2(3) by (rule live_of_take [of s "all_slabs ls {}" fr, OF sa x(1) x'(2,1)])
  ultimately have "cache_live h' c (insert x (live_of ?k (all_slabs ls {}) fr))"
    using h'(2) unfolding cache_live_def by metis
  moreover have "x \<notin> live_of ?k (all_slabs ls {}) fr" by (rule not_live [OF b sa]) (simp add: x)
  ultimately show ?thesis using h'(1) by (auto simp: alloc_to_def)
qed

lemma alloc_partial:
  assumes b: "cache_base h c ls {} fr" and ok: "heap_ok h" and fl: "filed h c ls fr" and ls: "ls Partial = s # ps"
  shows "alloc_to (kmem_cache_alloc h (Some c)) c (live_of (hp_caches h c) (all_slabs ls {}) fr)"
proof -
  have s: "s \<in> set (ls Partial)" using ls by simp
  then have sa: "s \<in> all_slabs ls {}" by (auto simp: all_slabs_def)
  obtain x xs where x: "fr s = x # xs" using fl s by (auto simp: filed_def neq_Nil_conv)
  have head: "slabs_partial (hp_caches h c) = Some s"
    using cache_baseD(2) [OF b, of Partial] ls by (simp add: list_head_simps)
  obtain h2 where h2: "slab_alloc_obj h s = (Some x, h2)" "cache_base h2 c ls {} (fr(s := xs))"
      "hp_vm h2 = hp_vm h" "heap_current h2 = heap_current h" "hp_caches h2 = hp_caches h"
      "slab_is_full h2 s \<longleftrightarrow> xs = []"
    using slab_alloc_obj_base [OF b sa x] by metis
  show ?thesis
  proof (cases "xs = []")
    case True
    then have "kmem_cache_alloc h (Some c) = Some (count_alloc c (Some x) (full_add c s (partial_remove c s h2)))"
      using head h2(1,6) by (simp add: kmem_cache_alloc_def Let_def)
    then show ?thesis
      using alloc_partial_full [OF b ok fl ls _ h2(1) _ h2(3,4,5)] x h2(2) True by simp
  next
    case False
    then have "kmem_cache_alloc h (Some c) = Some (count_alloc c (Some x) h2)"
      using head h2(1,6) by (simp add: kmem_cache_alloc_def Let_def)
    then show ?thesis
      using alloc_partial_more [OF b ok fl s x False h2(1,2,3,4,5)] by simp
  qed
qed

lemma alloc_empty:
  assumes b: "cache_base h c ls {} fr" and ok: "heap_ok h" and fl: "filed h c ls fr"
    and ls: "ls Partial = []" "ls Empty = s # es"
  shows "alloc_to (kmem_cache_alloc h (Some c)) c (live_of (hp_caches h c) (all_slabs ls {}) fr)"
proof -
  let ?k = "hp_caches h c" and ?h1 = "list_remove Empty c s h" and ?ls = "ls(Empty := es)"
  have b1: "cache_base ?h1 c ?ls {s} fr" using cache_base_remove [OF b, of Empty "[]" s es] ls by simp
  have g: "same_geom ?k (hp_caches ?h1 c)" by simp
  have "1 \<le> unat (c_objs_per_slab ?k)" using cache_baseD(1) [OF b] by (simp add: geom_ok_def)
  moreover have "length (fr s) = unat (c_objs_per_slab ?k)" using fl ls by (simp add: filed_def)
  ultimately have ne: "fr s \<noteq> []" by auto
  have f1: "filed ?h1 c ?ls fr" using fl ls same_geomD(5) [OF g] by (auto simp: filed_def)
  have ok1: "heap_ok ?h1" using ok heap_ok_cong [of ?h1 h] by simp
  have "live_of (hp_caches ?h1 c) (all_slabs ?ls {s}) fr = live_of ?k (all_slabs ls {}) fr"
    unfolding live_of_cong [OF g] all_slabs_split [where w = Empty] using ls by simp
  moreover have "slabs_partial ?k = None" "slabs_empty ?k = Some s"
    using cache_baseD(2) [OF b, of Partial] cache_baseD(2) [OF b, of Empty] ls by (simp_all add: list_head_simps)
  then have "kmem_cache_alloc h (Some c) = Some (take_and_file c s ?h1)"
    by (simp add: kmem_cache_alloc_def list_remove_def take_and_file_def case_prod_beta Let_def)
  ultimately show ?thesis using take_and_file_live [OF b1 ok1 f1 ne] by simp
qed

lemma alloc_new:
  assumes b: "cache_base h c ls {} fr" and fl: "filed h c ls fr" and ls: "ls Partial = []" "ls Empty = []"
    and h1: "slab_create h c = Some (Some m, h1)" "heap_ok h1" "cache_base h1 c ls {m} (fr(m := ys))"
      "same_geom (hp_caches h c) (hp_caches h1 c)" "m \<notin> all_slabs ls {}" "set ys = slab_objs (hp_caches h c) m"
      "length ys = unat (c_objs_per_slab (hp_caches h c))"
  shows "alloc_to (kmem_cache_alloc h (Some c)) c (live_of (hp_caches h c) (all_slabs ls {}) fr)"
proof -
  let ?k = "hp_caches h c"
  have nin: "m \<notin> set (ls w)" for w using h1(5) by (auto simp: all_slabs_def)
  have "1 \<le> unat (c_objs_per_slab ?k)" using cache_baseD(1) [OF b] by (simp add: geom_ok_def)
  then have ne: "(fr(m := ys)) m \<noteq> []" using h1(7) by auto
  have f1: "filed h1 c ls (fr(m := ys))"
    using fl nin [of Full] nin [of Partial] nin [of Empty] same_geomD(5) [OF h1(4)] by (auto simp: filed_def)
  have all: "all_slabs ls {m} = insert m (all_slabs ls {})" by (auto simp: all_slabs_def)
  have "live_of (hp_caches h1 c) (all_slabs ls {m}) (fr(m := ys)) = live_of ?k (all_slabs ls {}) fr"
    unfolding live_of_cong [OF h1(4)] all using h1(5,6) by (auto simp: live_of_def split: if_splits)
  moreover have "slabs_partial ?k = None" "slabs_empty ?k = None"
    using cache_baseD(2) [OF b, of Partial] cache_baseD(2) [OF b, of Empty] ls by (simp_all add: list_head_simps)
  then have "kmem_cache_alloc h (Some c) = Some (take_and_file c m h1)"
    using h1(1) by (simp add: kmem_cache_alloc_def take_and_file_def case_prod_beta Let_def)
  ultimately show ?thesis using take_and_file_live [OF h1(3,2) f1 ne] by metis
qed

lemma kmem_cache_alloc_spec:
  assumes "cache_live h c L"
  shows "alloc_to (kmem_cache_alloc h (Some c)) c L \<or>
    (\<exists>h'. kmem_cache_alloc h (Some c) =
       (if test_flag (c_flags (hp_caches h c)) SLAB_PANIC then None else Some (None, h')) \<and> cache_live h' c L)"
proof -
  obtain ls fr where ok: "heap_ok h" and b: "cache_base h c ls {} fr" and fl: "filed h c ls fr"
      and L: "L = live_of (hp_caches h c) (all_slabs ls {}) fr"
    using assms by (auto simp: cache_live_def)
  consider s ps where "ls Partial = s # ps" | s es where "ls Partial = []" "ls Empty = s # es"
    | "ls Partial = []" "ls Empty = []"
    by (meson neq_Nil_conv)
  then show ?thesis
  proof cases
    case 1
    then show ?thesis using alloc_partial [OF b ok fl] L by simp
  next
    case 2
    then show ?thesis using alloc_empty [OF b ok fl] L by simp
  next
    case 3
    from slab_create_base [OF b ok] show ?thesis
    proof (elim disjE exE conjE)
      fix h'
      assume h': "slab_create h c = Some (None, h')" "heap_ok h'" "cache_base h' c ls {} fr" "hp_caches h' = hp_caches h"
      have "filed h' c ls fr" using fl h'(4) by (simp add: filed_def)
      then have "cache_live h' c L" using h' L unfolding cache_live_def by metis
      moreover have "slabs_partial (hp_caches h c) = None" "slabs_empty (hp_caches h c) = None"
        using cache_baseD(2) [OF b, of Partial] cache_baseD(2) [OF b, of Empty] 3 by (simp_all add: list_head_simps)
      then have "kmem_cache_alloc h (Some c) =
          (if test_flag (c_flags (hp_caches h c)) SLAB_PANIC then None else Some (None, h'))"
        using h'(1,4) by (simp add: kmem_cache_alloc_def)
      ultimately show ?thesis by blast
    next
      fix m h1 ys
      assume "slab_create h c = Some (Some m, h1)" "heap_ok h1" "cache_base h1 c ls {m} (fr(m := ys))"
        "same_geom (hp_caches h c) (hp_caches h1 c)" "m \<notin> all_slabs ls {}" "set ys = slab_objs (hp_caches h c) m"
        "length ys = unat (c_objs_per_slab (hp_caches h c))"
      from alloc_new [OF b fl 3 this] show ?thesis using L by simp
    qed
  qed
qed

section \<open>Freeing\<close>

lemma slab_destroy_base:
  assumes b: "cache_base h c ls {s} fr" and ok: "heap_ok h"
  obtains h' where "slab_destroy h c s = Some h'" "heap_ok h'" "cache_base h' c ls {} fr"
    "same_geom (hp_caches h c) (hp_caches h' c)"
proof -
  let ?k = "hp_caches h c"
  have s: "s \<in> all_slabs ls {s}" by (simp add: all_slabs_def)
  have place: "KHEAP_START \<le> s" "unat s + unat (c_slab_size ?k) * 4096 \<le> unat KHEAP_END"
    using cache_baseD(7) [OF b s] by (simp_all add: slab_place_def)
  have hv: "heap_vm (hp_vm h)" using ok by (simp add: heap_ok_def)
  have "in_heap (s + of_nat i * PAGE_SIZE)" if "i < 0 + unat (c_slab_size ?k)" for i
    using window_addr [OF place] that by simp
  from heap_release_run [OF hv this]
  obtain v where v: "heap_release (hp_vm h) s 0 (unat (c_slab_size ?k)) = Some v" "heap_vm v"
      "\<And>w. frame_at v w = (if in_run s 0 (0 + unat (c_slab_size ?k)) w then None else frame_at (hp_vm h) w)"
    by blast
  let ?h = "upd_cache c (\<lambda>c. c\<lparr>c_slab_count := c_slab_count c - 1\<rparr>) (h\<lparr>hp_vm := v\<rparr>)"
  have g: "same_geom ?k (hp_caches ?h c)" by (simp add: same_geom_def)
  have "cache_base ?h c ls {s} fr"
    using g by (intro cache_base_counter [OF b]) (simp_all add: list_head_def fun_eq_iff split: which.splits)
  then have "cache_base ?h c ls {} fr" by (rule cache_base_drop)
  moreover have "heap_ok ?h" using ok v(2,3) by (simp add: heap_ok_def)
  moreover have "slab_destroy h c s = Some ?h" using v(1) by (simp add: slab_destroy_def heap_free_pages_def)
  ultimately show ?thesis using g that by blast
qed

text \<open>The objects of a slab that is taken away are no longer live; here none of them was.\<close>

lemma live_of_put:
  assumes "cache_base h c ls {} fr" "s \<in> all_slabs ls {}" "x \<in> slab_objs (hp_caches h c) s"
  shows "live_of (hp_caches h c) (all_slabs ls {}) (fr(s := x # fr s)) =
    live_of (hp_caches h c) (all_slabs ls {}) fr - {x}"
proof -
  have "x \<notin> slab_objs (hp_caches h c) t" if "t \<in> all_slabs ls {}" "t \<noteq> s" for t
    using slab_objs_disjoint [OF assms(1,2) that(1)] that(2) assms(3) by blast
  then show ?thesis using assms(2) by (auto simp: live_of_def split: if_splits)
qed

lemma full_free_list:
  assumes "cache_base h c ls D fr" "s \<in> all_slabs ls D" "length (fr s) = unat (c_objs_per_slab (hp_caches h c))"
  shows "slab_objs (hp_caches h c) s - set (fr s) = {}"
proof -
  note rep = cache_baseD(6) [OF assms(1,2), unfolded slab_rep_def]
  note geo = card_slab_objs [OF cache_baseD(1) [OF assms(1)] cache_baseD(7) [OF assms(1,2)]]
  have "card (set (fr s)) = card (slab_objs (hp_caches h c) s)"
    using rep assms(3) geo(1) by (simp add: distinct_card)
  then have "set (fr s) = slab_objs (hp_caches h c) s" using rep geo(2) by (intro card_subset_eq) auto
  then show ?thesis by simp
qed

text \<open>The three ends of a free, after the object is back in its slab.\<close>

lemma free_was_full:
  assumes b: "cache_base h c ls {} fr" and ok: "heap_ok h" and fl: "filed h c ls (fr(s := []))"
    and s: "s \<in> set (ls Full)" and ne: "fr s \<noteq> []"
  shows "cache_live (partial_add c s (full_remove c s h)) c (live_of (hp_caches h c) (all_slabs ls {}) fr)"
proof -
  obtain xs ys where ls: "ls Full = xs @ s # ys" using split_list [OF s] by blast
  let ?h1 = "list_remove Full c s h" and ?ls1 = "ls(Full := xs @ ys)"
  let ?h2 = "list_add Partial c s ?h1" and ?ls2 = "?ls1(Partial := s # ?ls1 Partial)"
  have b1: "cache_base ?h1 c ?ls1 {s} fr" by (rule cache_base_remove [OF b ls])
  then have b2: "cache_base ?h2 c ?ls2 {} fr" using cache_base_add [OF b1, of s Partial] by simp
  have g1: "same_geom (hp_caches h c) (hp_caches ?h1 c)" and g2: "same_geom (hp_caches ?h1 c) (hp_caches ?h2 c)"
    by simp_all
  have nin: "s \<notin> set (?ls1 v)" for v using cache_baseD(4) [OF b1, of v] by blast
  have "filed ?h2 c ?ls2 fr"
    using fl ne nin [of Full] nin [of Partial] nin [of Empty] same_geomD(5) [OF g1] same_geomD(5) [OF g2] ls
    by (fastforce simp: filed_def split: if_splits)
  moreover have "all_slabs ?ls2 {} = all_slabs ls {}"
    using ls by (auto simp: all_slabs_three)
  then have "live_of (hp_caches ?h2 c) (all_slabs ?ls2 {}) fr = live_of (hp_caches h c) (all_slabs ls {}) fr"
    using live_of_cong [OF g1] live_of_cong [OF g2] by metis
  moreover have "heap_ok ?h2" using ok heap_ok_cong [of ?h2 h] by simp
  ultimately have "cache_live ?h2 c (live_of (hp_caches h c) (all_slabs ls {}) fr)"
    using b2 unfolding cache_live_def by metis
  then show ?thesis by (simp add: list_add_def list_remove_def)
qed

lemma free_last:
  assumes b: "cache_base h c ls {} fr" and ok: "heap_ok h" and fl: "filed h c ls fr"
    and s: "s \<in> set (ls Partial)" and full: "length (fr s) = unat (c_objs_per_slab (hp_caches h c))"
  shows "\<exists>h'. (let h2 = partial_remove c s h in
      if slabs_empty (hp_caches h2 c) = None then Some (empty_add c s h2) else slab_destroy h2 c s) = Some h' \<and>
    cache_live h' c (live_of (hp_caches h c) (all_slabs ls {}) fr)"
proof -
  let ?L = "live_of (hp_caches h c) (all_slabs ls {}) fr"
  obtain xs ys where ls: "ls Partial = xs @ s # ys" using split_list [OF s] by blast
  let ?h1 = "list_remove Partial c s h" and ?ls1 = "ls(Partial := xs @ ys)"
  have b1: "cache_base ?h1 c ?ls1 {s} fr" by (rule cache_base_remove [OF b ls])
  have g1: "same_geom (hp_caches h c) (hp_caches ?h1 c)" by simp
  have ok1: "heap_ok ?h1" using ok heap_ok_cong [of ?h1 h] by simp
  have f1: "filed ?h1 c ?ls1 fr" using fl ls same_geomD(5) [OF g1] by (simp add: filed_def)
  have sa: "s \<in> all_slabs ls {}" using s by (auto simp: all_slabs_def)
  have all: "all_slabs ls {} = insert s (all_slabs ?ls1 {})" using ls by (auto simp: all_slabs_three)
  have L: "?L = live_of (hp_caches ?h1 c) (all_slabs ?ls1 {}) fr"
    unfolding all live_of_cong [OF g1] using full_free_list [where s = s, OF b sa full] by (auto simp: live_of_def)
  show ?thesis
  proof (cases "slabs_empty (hp_caches ?h1 c) = None")
    case True
    let ?h2 = "list_add Empty c s ?h1" and ?ls2 = "?ls1(Empty := s # ?ls1 Empty)"
    have b2: "cache_base ?h2 c ?ls2 {} fr" using cache_base_add [OF b1, of s Empty] by simp
    have g2: "same_geom (hp_caches ?h1 c) (hp_caches ?h2 c)" by simp
    have "filed ?h2 c ?ls2 fr" using f1 full same_geomD(5) [OF g1] same_geomD(5) [OF g2] by (simp add: filed_def)
    moreover have "all_slabs ?ls2 {} = all_slabs ls {}" using ls by (auto simp: all_slabs_three)
    then have "live_of (hp_caches ?h2 c) (all_slabs ?ls2 {}) fr = ?L"
      using live_of_cong [OF g1] live_of_cong [OF g2] by metis
    moreover have "heap_ok ?h2" using ok heap_ok_cong [of ?h2 h] by simp
    ultimately have "cache_live ?h2 c ?L" using b2 unfolding cache_live_def by metis
    then show ?thesis using True by (simp add: list_add_def list_remove_def)
  next
    case False
    obtain h' where h': "slab_destroy ?h1 c s = Some h'" "heap_ok h'" "cache_base h' c ?ls1 {} fr"
        "same_geom (hp_caches ?h1 c) (hp_caches h' c)"
      by (rule slab_destroy_base [OF b1 ok1])
    have "filed h' c ?ls1 fr" using f1 same_geomD(5) [OF h'(4)] by (simp add: filed_def)
    then have "cache_live h' c ?L" using h'(2,3) L live_of_cong [OF h'(4)] unfolding cache_live_def by metis
    then show ?thesis using False h'(1) by (auto simp: list_remove_def Let_def)
  qed
qed

lemma kmem_cache_free_spec:
  assumes "cache_live h c L" "x \<in> L"
  shows "\<exists>h'. kmem_cache_free h (Some c) (Some x) = Some h' \<and> cache_live h' c (L - {x})"
proof -
  obtain ls fr where ok: "heap_ok h" and b: "cache_base h c ls {} fr" and fl: "filed h c ls fr"
      and L: "L = live_of (hp_caches h c) (all_slabs ls {}) fr"
    using assms(1) by (auto simp: cache_live_def)
  let ?k = "hp_caches h c"
  obtain s where s: "s \<in> all_slabs ls {}" "x \<in> slab_objs ?k s" "x \<notin> set (fr s)"
    using assms(2) L by (auto simp: live_of_def)
  have "s \<notin> set (ls Empty)"
    using full_free_list [OF b s(1)] fl s(2,3) by (auto simp: filed_def)
  then have used: "s \<in> set (ls Partial) \<union> set (ls Full)" using s(1) by (auto simp: all_slabs_three)
  have found: "find_slab_for_obj h c x = Some (Some s)" by (rule find_slab_for_obj_base [OF b used s(2)])
  let ?h0 = "slab_free_obj h s x"
  define g where "g = fr(s := x # fr s)"
  define h1 where "h1 = upd_cache c (\<lambda>c. c\<lparr>c_free_count := c_free_count c + 1\<rparr>) ?h0"
  have caches0: "hp_caches ?h0 = hp_caches h" "hp_vm ?h0 = hp_vm h" "heap_current ?h0 = heap_current h"
    by (simp_all add: slab_free_obj_def)
  have geo: "same_geom ?k (hp_caches h1 c)" by (simp add: h1_def same_geom_def caches0)
  have "same_geom (hp_caches ?h0 c) (hp_caches h1 c)" by (simp add: h1_def same_geom_def)
  then have b1: "cache_base h1 c ls {} g"
    unfolding g_def by (intro cache_base_counter [OF slab_free_obj_base(1) [OF b s]])
      (simp_all add: h1_def list_head_def fun_eq_iff split: which.splits)
  have ok1: "heap_ok h1" using ok heap_ok_cong [of h1 h] caches0 by (simp add: h1_def)
  have L1: "live_of (hp_caches h1 c) (all_slabs ls {}) g = L - {x}"
    unfolding live_of_cong [OF geo] L g_def by (rule live_of_put [OF b s(1,2)])
  have empty: "sl_in_use (hp_slabs h1 s) = 0 \<longleftrightarrow> length (g s) = unat (c_objs_per_slab (hp_caches h1 c))"
    using slab_free_obj_base(2) [OF b s] same_geomD(5) [OF geo] by (simp add: h1_def g_def)
  have free: "kmem_cache_free h (Some c) (Some x) =
      (if slab_is_full h s then Some (partial_add c s (full_remove c s h1))
       else if sl_in_use (hp_slabs h1 s) = 0 then
         (let h2 = partial_remove c s h1 in
          if slabs_empty (hp_caches h2 c) = None then Some (empty_add c s h2) else slab_destroy h2 c s)
       else Some h1)"
    using found by (simp add: kmem_cache_free_def h1_def [symmetric] del: upd_cache_simps cong: if_cong)
  show ?thesis
  proof (cases "slab_is_full h s")
    case True
    then have "fr s = []" using slab_full_iff [OF b s(1)] by simp
    then have "s \<in> set (ls Full)" using used fl by (auto simp: filed_def)
    moreover have "filed h1 c ls (g(s := []))"
      using fl \<open>fr s = []\<close> same_geomD(5) [OF geo] by (simp add: filed_def g_def fun_upd_idem)
    ultimately have "cache_live (partial_add c s (full_remove c s h1)) c (live_of (hp_caches h1 c) (all_slabs ls {}) g)"
      by (intro free_was_full [OF b1 ok1]) (simp_all add: g_def)
    then have "cache_live (partial_add c s (full_remove c s h1)) c (L - {x})" unfolding L1 .
    then show ?thesis using free True by simp
  next
    case False
    then have "fr s \<noteq> []" using slab_full_iff [OF b s(1)] by simp
    then have part: "s \<in> set (ls Partial)" using used fl by (auto simp: filed_def)
    then have nin: "s \<notin> set (ls Full)" "s \<notin> set (ls Empty)"
      using cache_baseD(5) [OF b, of Partial Full] cache_baseD(5) [OF b, of Partial Empty] by auto
    have f1: "filed h1 c ls g" using fl nin same_geomD(5) [OF geo] by (auto simp: filed_def g_def)
    show ?thesis
    proof (cases "sl_in_use (hp_slabs h1 s) = 0")
      case True
      with empty have "length (g s) = unat (c_objs_per_slab (hp_caches h1 c))" by blast
      from free_last [OF b1 ok1 f1 part this, unfolded L1] show ?thesis
        using free False True by simp
    next
      case c: False
      have "cache_live h1 c (L - {x})" using b1 ok1 f1 L1 unfolding cache_live_def by metis
      then show ?thesis using free False c by simp
    qed
  qed
qed

end
