(* ===== verification/Slab_Correct.thy ===== *)
theory Slab_Correct
  imports Slab_Objects
begin

text \<open>
  The contract of an object cache, as a locale over the allocate and free operations and the set of
  live objects, its instance on \<open>kmem_cache_alloc\<close> and \<open>kmem_cache_free\<close>, and the properties of
  the kernel heap.
\<close>

section \<open>The contract of an object cache\<close>

locale object_cache =
  fixes alloc :: "'h \<Rightarrow> ('a option \<times> 'h) option"
    and free :: "'h \<Rightarrow> 'a \<Rightarrow> 'h option"
    and live :: "'h \<Rightarrow> 'a set \<Rightarrow> bool"
    and quiet :: "'h \<Rightarrow> bool"
  assumes alloc_live: "live h L \<Longrightarrow> quiet h \<Longrightarrow>
      \<exists>r h'. alloc h = Some (r, h') \<and> (case r of None \<Rightarrow> live h' L | Some x \<Rightarrow> x \<notin> L \<and> live h' (insert x L))"
    and free_live: "live h L \<Longrightarrow> x \<in> L \<Longrightarrow> \<exists>h'. free h x = Some h' \<and> live h' (L - {x})"
begin

text \<open>Freeing what was just allocated restores the live set.\<close>

lemma alloc_then_free:
  assumes "live h L" "quiet h" "alloc h = Some (Some x, h1)"
  shows "\<exists>h2. free h1 x = Some h2 \<and> live h2 L"
proof -
  have x: "x \<notin> L" "live h1 (insert x L)" using alloc_live [OF assms(1,2)] assms(3) by auto
  obtain h2 where "free h1 x = Some h2" "live h2 (insert x L - {x})" using free_live [OF x(2), of x] by auto
  then show ?thesis using x(1) by auto
qed

text \<open>Freeing a list of distinct live objects, one after the other.\<close>

fun free_all :: "'h \<Rightarrow> 'a list \<Rightarrow> 'h option" where
  "free_all h [] = Some h"
| "free_all h (x # xs) = do { h1 \<leftarrow> free h x; free_all h1 xs }"

lemma free_all_live:
  assumes "live h L" "distinct xs" "set xs \<subseteq> L"
  shows "\<exists>h'. free_all h xs = Some h' \<and> live h' (L - set xs)"
  using assms
proof (induction xs arbitrary: h L)
  case (Cons x xs)
  obtain h1 where h1: "free h x = Some h1" "live h1 (L - {x})" using free_live [OF Cons.prems(1), of x] Cons.prems(3) by auto
  moreover have "set xs \<subseteq> L - {x}" using Cons.prems(2,3) by auto
  ultimately obtain h' where "free_all h1 xs = Some h'" "live h' (L - {x} - set xs)"
    using Cons.IH [OF h1(2)] Cons.prems(2) by auto
  moreover have "L - {x} - set xs = L - set (x # xs)" by auto
  ultimately show ?case using h1(1) by auto
qed auto

end

interpretation cache: object_cache "\<lambda>h. kmem_cache_alloc h (Some c)" "\<lambda>h x. kmem_cache_free h (Some c) (Some x)"
  "\<lambda>h. cache_live h c" "\<lambda>h. \<not> test_flag (c_flags (hp_caches h c)) SLAB_PANIC" for c
proof
  fix h L
  assume "cache_live h c L" "\<not> test_flag (c_flags (hp_caches h c)) SLAB_PANIC"
  then show "\<exists>r h'. kmem_cache_alloc h (Some c) = Some (r, h') \<and>
      (case r of None \<Rightarrow> cache_live h' c L | Some x \<Rightarrow> x \<notin> L \<and> cache_live h' c (insert x L))"
    using kmem_cache_alloc_spec [of h c L] by (force simp: alloc_to_def)
next
  fix h L x
  assume "cache_live h c L" "x \<in> L"
  then show "\<exists>h'. kmem_cache_free h (Some c) (Some x) = Some h' \<and> cache_live h' c (L - {x})"
    by (rule kmem_cache_free_spec)
qed

section \<open>Facts about caches\<close>

lemma cache_live_writes:
  assumes "cache_live h c L" and "\<And>y. y \<notin> L \<Longrightarrow> nx y = obj_next h y"
  shows "cache_live (h\<lparr>obj_next := nx\<rparr>) c L"
proof -
  obtain ls fr where ok: "heap_ok h" and b: "cache_base h c ls {} fr" and fl: "filed h c ls fr"
      and L: "L = live_of (hp_caches h c) (all_slabs ls {}) fr"
    using assms(1) by (auto simp: cache_live_def)
  let ?h = "h\<lparr>obj_next := nx\<rparr>"
  have rep: "slab_rep (hp_slabs h) nx (hp_caches h c) s (fr s)" if s: "s \<in> all_slabs ls {}" for s
  proof -
    have "nx y = obj_next h y" if "y \<in> set (fr s)" for y
      using not_live [OF b s that] L assms(2) by simp
    then have "chain nx p (fr s) = chain (obj_next h) p (fr s)" for p by (intro chain_cong)
    then show ?thesis using cache_baseD(6) [OF b s] by (simp add: slab_rep_def)
  qed
  have "cache_base ?h c ls {} fr"
  proof (rule cache_baseI)
    show "slab_rep (hp_slabs ?h) (obj_next ?h) (hp_caches ?h c) s (fr s)" if "s \<in> all_slabs ls {}" for s
      using rep [OF that] by simp
    show "set (ls v) \<inter> set (ls w) = {}" if "v \<noteq> w" for v w using cache_baseD(5) [OF b that] .
  qed (use cache_baseD(1-4,7-9) [OF b] in simp_all)
  moreover have "heap_ok ?h" using ok heap_ok_cong [of ?h h] by simp
  moreover have "filed ?h c ls fr" using fl by (simp add: filed_def)
  moreover have "L = live_of (hp_caches ?h c) (all_slabs ls {}) fr" using L by simp
  ultimately show ?thesis unfolding cache_live_def by blast
qed

lemma obj_at_gap:
  assumes "geom_ok k" "slab_place k s" "x \<in> slab_objs k s" "y \<in> slab_objs k s" "x \<noteq> y"
  shows "unat x + unat (c_obj_size k) \<le> unat y \<or> unat y + unat (c_obj_size k) \<le> unat x"
proof -
  obtain i j where i: "i < unat (c_objs_per_slab k)" "x = obj_at k s i" and j: "j < unat (c_objs_per_slab k)" "y = obj_at k s j"
    using assms(3,4) by (auto simp: slab_objs_def)
  obtain d where d: "\<And>j. j < unat (c_objs_per_slab k) \<Longrightarrow> unat (obj_at k s j) = unat s + d + j * unat (c_obj_size k)"
    using obj_at_inside [OF assms(1,2) i(1)] by metis
  have "i \<noteq> j" using i j assms(5) by auto
  then have "Suc i \<le> j \<or> Suc j \<le> i" by auto
  then have "Suc i * unat (c_obj_size k) \<le> j * unat (c_obj_size k) \<or> Suc j * unat (c_obj_size k) \<le> i * unat (c_obj_size k)"
    using mult_le_mono1 by blast
  then show ?thesis using d [OF i(1)] d [OF j(1)] i(2) j(2) by auto
qed

lemma cache_live_apart:
  assumes "cache_live h c L" "x \<in> L" "y \<in> L" "x \<noteq> y"
  shows "unat x + unat (c_obj_size (hp_caches h c)) \<le> unat y \<or> unat y + unat (c_obj_size (hp_caches h c)) \<le> unat x"
proof -
  obtain ls fr where b: "cache_base h c ls {} fr" and L: "L = live_of (hp_caches h c) (all_slabs ls {}) fr"
    using assms(1) by (auto simp: cache_live_def)
  note B = cache_baseD [OF b]
  obtain s t where s: "s \<in> all_slabs ls {}" "x \<in> slab_objs (hp_caches h c) s"
      and t: "t \<in> all_slabs ls {}" "y \<in> slab_objs (hp_caches h c) t"
    using assms(2,3) L by (auto simp: live_of_def)
  show ?thesis
  proof (cases "s = t")
    case True
    then show ?thesis using obj_at_gap [OF B(1) B(7) [OF s(1)] s(2)] t(2) assms(4) by simp
  next
    case False
    have "unat s + slab_bytes (hp_caches h c) \<le> unat t \<or> unat t + slab_bytes (hp_caches h c) \<le> unat s"
      using B(9) [OF s(1) t(1) False] .
    then show ?thesis
      using slab_objs_inside [OF B(1) B(7) [OF s(1)] s(2)] slab_objs_inside [OF B(1) B(7) [OF t(1)] t(2)]
      by linarith
  qed
qed

lemma cache_live_inside:
  assumes "cache_live h c L" "x \<in> L"
  shows "KHEAP_START \<le> x" "unat x + unat (c_obj_size (hp_caches h c)) \<le> unat (heap_current h)"
proof -
  obtain ls fr where b: "cache_base h c ls {} fr" and L: "L = live_of (hp_caches h c) (all_slabs ls {}) fr"
    using assms(1) by (auto simp: cache_live_def)
  note B = cache_baseD [OF b]
  obtain s where s: "s \<in> all_slabs ls {}" "x \<in> slab_objs (hp_caches h c) s" using assms(2) L by (auto simp: live_of_def)
  note i = slab_objs_inside [OF B(1) B(7) [OF s(1)] s(2)]
  show "KHEAP_START \<le> x" using i(1) B(7) [OF s(1)] by (simp add: slab_place_def word_le_nat_alt)
  show "unat x + unat (c_obj_size (hp_caches h c)) \<le> unat (heap_current h)" using i(2) B(8) [OF s(1)] by linarith
qed

section \<open>Creating a cache\<close>

lemma align_size:
  assumes "unat sz \<le> 32768" "0 < unat sz" "a \<le> 12"
  shows "unat sz \<le> unat (ALIGN_UP sz (2 ^ a))" "unat (ALIGN_UP sz (2 ^ a)) \<le> 32768" "2 ^ a dvd unat (ALIGN_UP sz (2 ^ a))"
proof -
  have "(2 :: nat) ^ a \<le> 2 ^ 12" using assms(3) by (rule power_increasing) simp
  then have A: "(2 :: nat) ^ a \<le> 4096" by simp
  have "(2 :: nat) ^ a dvd 2 ^ 15" using assms(3) by (intro le_imp_power_dvd) simp
  then have dvd: "(2 :: nat) ^ a dvd 32768" by simp
  have u: "unat (ALIGN_UP sz (2 ^ a)) = (unat sz + (2 ^ a - 1)) div 2 ^ a * 2 ^ a"
    using assms A by (intro unat_ALIGN_UP_pow2) simp_all
  show "unat sz \<le> unat (ALIGN_UP sz (2 ^ a))" unfolding u by (rule align_up_ge) simp
  show "unat (ALIGN_UP sz (2 ^ a)) \<le> 32768" unfolding u by (rule align_up_le [OF dvd assms(1)]) simp
  show "2 ^ a dvd unat (ALIGN_UP sz (2 ^ a))" unfolding u by simp
qed

lemma kmem_cache_create_spec:
  assumes "heap_ok h" "unat sz \<le> 32768" "align = 0 \<or> (\<exists>a \<le> 12. align = 2 ^ a)"
  shows "\<exists>p h'. kmem_cache_create h name sz align flags = Some (p, h') \<and> heap_ok h' \<and>
    (\<forall>c. p = Some c \<longrightarrow> cache_live h' c {} \<and> geom_ok (hp_caches h' c) \<and>
       unat sz \<le> unat (c_obj_size (hp_caches h' c)) \<and> (align = 0 \<longrightarrow> c_align (hp_caches h' c) = 16) \<and>
       (align \<noteq> 0 \<longrightarrow> c_align (hp_caches h' c) = align) \<and> c_flags (hp_caches h' c) = flags)"
proof -
  define sz1 where "sz1 = (if sz < SLAB_MIN_SIZE then SLAB_MIN_SIZE else sz)"
  define al where "al = (if align = 0 then 16 else align)"
  have sz1: "16 \<le> unat sz1" "unat sz1 \<le> 32768" "unat sz \<le> unat sz1"
    using assms(2) by (auto simp: sz1_def SLAB_MIN_SIZE_def word_less_nat_alt)
  have dflt: "(if 8 < sz1 \<and> sz1 \<le> 16 then 16 else if 16 < sz1 then 16 else 8) = (16 :: u64)"
    using sz1(1) by (auto simp: word_less_nat_alt word_le_nat_alt)
  have "\<exists>a \<le> 12. al = 2 ^ a"
    using assms(3) exI [of "\<lambda>a. a \<le> 12 \<and> (16 :: u64) = 2 ^ a" 4] by (auto simp: al_def)
  then obtain a where a: "a \<le> 12" "al = 2 ^ a" by blast
  define sz2 where "sz2 = ALIGN_UP sz1 al"
  have pos1: "0 < unat sz1" using sz1(1) by simp
  have sz2: "unat sz1 \<le> unat sz2" "unat sz2 \<le> 32768" "2 ^ a dvd unat sz2"
    using align_size [OF sz1(2) pos1 a(1)] unfolding sz2_def a(2) by blast+
  define pages where "pages = (if sz2 \<le> 256 then 1 else if sz2 \<le> 1024 then 2 else 4 :: u64)"
  have "pages \<in> {1, 2, 4}" by (simp add: pages_def)
  then obtain r where r: "grow_slab sz2 (calc_objs_per_slab sz2 pages) pages = Some r" "grown sz2 r"
    using grow_slab_result by blast
  have "unat (heap_current h) \<le> unat KHEAP_END" using assms(1) by (simp add: heap_ok_def word_le_nat_alt)
  then have "unat (heap_current h) + unat (1 :: u64) * 4096 < 2 ^ 64" by (simp add: KHEAP_END_def)
  from heap_alloc_pages_spec [OF assms(1) this]
  obtain p h1 where al1: "heap_alloc_pages h 1 = Some (p, h1)" "heap_ok h1" by blast
  show ?thesis
  proof (cases p)
    case None
    then have "kmem_cache_create h name sz align flags = Some (None, h1)"
      using al1(1) by (simp add: kmem_cache_create_def Let_def)
    then show ?thesis using al1(2) by simp
  next
    case (Some c)
    define k where "k = \<lparr>c_name = name, c_obj_size = sz2, c_align = al, c_slab_size = snd r, c_objs_per_slab = fst r,
        c_flags = flags, slabs_full = None, slabs_partial = None, slabs_empty = None,
        c_alloc_count = 0, c_free_count = 0, c_slab_count = 0, c_next = cache_list h1\<rparr>"
    let ?h = "h1\<lparr>hp_caches := (hp_caches h1)(c := k), cache_list := Some c\<rparr>"
    have "kmem_cache_create h name sz align flags = Some (Some c, ?h)"
      unfolding kmem_cache_create_def Let_def sz1_def [symmetric] dflt al_def [symmetric] sz2_def [symmetric]
        pages_def [symmetric] al1(1) Some k_def by (simp add: r(1) case_prod_beta)
    moreover have geo: "geom_ok k"
      using sz1(1) sz2 a by (intro grown_geom [OF r(2), of a]) (simp_all add: k_def)
    moreover have "cache_base ?h c (\<lambda>w. []) {} (\<lambda>s. [])"
      using geo by (intro cache_baseI) (auto simp: k_def list_head_def all_slabs_def split: which.splits)
    moreover have "heap_ok ?h" using al1(2) heap_ok_cong [of ?h h1] by simp
    moreover have "cache_live ?h c {}" unfolding cache_live_def
      using calculation(3,4) by (intro conjI exI [of _ "\<lambda>w. []"] exI [of _ "\<lambda>s. []"])
        (simp_all add: live_of_def all_slabs_def filed_def)
    moreover have "hp_caches ?h c = k" "c_obj_size k = sz2" "c_align k = al" "c_flags k = flags"
      by (simp_all add: k_def)
    moreover have "unat sz \<le> unat sz2" using sz1(3) sz2(1) by simp
    ultimately show ?thesis by (simp add: al_def)
  qed
qed

lemma find_kmalloc_cache_fit:
  assumes "sz \<le> SLAB_MAX_SIZE"
  shows "\<exists>i < KMALLOC_MAX_CACHE. find_kmalloc_cache sz = Some i \<and> sz \<le> kmalloc_sizes i \<and> (\<forall>j < i. kmalloc_sizes j < sz)"
proof -
  have "sz \<le> kmalloc_sizes 8" using assms by (simp add: SLAB_MAX_SIZE_def kmalloc_sizes_def)
  then have "\<exists>x < 12. sz \<le> kmalloc_sizes x" by (intro exI [of _ 8]) simp
  then have "find_kmalloc_cache sz \<noteq> None"
    unfolding find_kmalloc_cache_def find_None_iff by (auto simp: KMALLOC_MAX_CACHE_def)
  then obtain i where "find_kmalloc_cache sz = Some i" by blast
  moreover from this obtain j where "j < KMALLOC_MAX_CACHE" "i = j" "sz \<le> kmalloc_sizes i" "\<forall>k < j. \<not> sz \<le> kmalloc_sizes k"
    unfolding find_kmalloc_cache_def find_Some_iff by auto
  ultimately show ?thesis by (auto simp: not_le)
qed

section \<open>A small heap\<close>

text \<open>One cache with one slab of one object, which is live; no page of the window is mapped yet.\<close>

definition sample_cache :: kmem_cache where
  "sample_cache = \<lparr>c_name = ''sample'', c_obj_size = 64, c_align = 16, c_slab_size = 1, c_objs_per_slab = 1,
     c_flags = 0, slabs_full = Some KHEAP_START, slabs_partial = None, slabs_empty = None,
     c_alloc_count = 1, c_free_count = 0, c_slab_count = 1, c_next = None\<rparr>"

definition sample_heap :: heap where
  "sample_heap = \<lparr>hp_vm = sample_vm, heap_current = KHEAP_START + 0x1000, cache_list = Some 1,
     kmalloc_caches = (\<lambda>i. None), hp_caches = (\<lambda>c. sample_cache),
     hp_slabs = (\<lambda>s. \<lparr>sl_next = None, sl_prev = None, sl_cache = Some 1, sl_free_list = None,
        sl_in_use = 1, sl_total = 1, sl_objects = KHEAP_START + 48\<rparr>),
     obj_next = (\<lambda>x. None)\<rparr>"

lemma sample_vm_leaf: "leaf sample_vm v = None"
proof -
  have e: "entry sample_vm d v \<in> {0, pt_mem sample_vm (0x1000 * (of_nat d + 1)) (lvl_index d v)}" if "d \<le> 3" for d
    unfolding entry_def sample_vm_table_of [OF that] by simp
  have "entry sample_vm 1 v \<in> {0, 0x3003}" "entry sample_vm 2 v \<in> {0, 0x4003}" "entry sample_vm 3 v = 0"
    using e [of 1] e [of 2] e [of 3] by (auto simp: sample_vm_def)
  then show ?thesis by (auto simp: leaf_def is_huge_def test_flag_def)
qed

lemma sample_heap_ok: "heap_ok sample_heap"
  by (simp add: heap_ok_def sample_heap_def heap_vm_def sample_vm_ok small_pages_def sample_vm_leaf frame_at_def
      KHEAP_START_def KHEAP_END_def)

lemma sample_geom: "geom_ok sample_cache"
  by (simp add: geom_ok_def sample_cache_def exI [of _ 4])

lemma sample_cache_live: "cache_live sample_heap 1 {KHEAP_START + 48}"
proof -
  define ls where "ls w = (if w = Full then [KHEAP_START] else [])" for w
  have all: "all_slabs ls {} = {KHEAP_START}" by (simp add: all_slabs_three ls_def)
  have c: "hp_caches sample_heap 1 = sample_cache" by (simp add: sample_heap_def)
  have "cache_base sample_heap 1 ls {} (\<lambda>s. [])"
  proof (rule cache_baseI)
    show "geom_ok (hp_caches sample_heap 1)" unfolding c by (rule sample_geom)
    show "list_head (hp_caches sample_heap 1) w = first_of (ls w)" for w
      unfolding c by (cases w) (simp_all add: list_head_def sample_cache_def ls_def)
    show "dll (nxs (hp_slabs sample_heap)) (pvs (hp_slabs sample_heap)) None (ls w)" for w
      by (simp add: ls_def sample_heap_def)
    show "set (ls v) \<inter> set (ls w) = {}" if "v \<noteq> w" for v w using that by (auto simp: ls_def)
    fix s
    assume "s \<in> all_slabs ls {}"
    then have s: "s = KHEAP_START" unfolding all by simp
    show "slab_rep (hp_slabs sample_heap) (obj_next sample_heap) (hp_caches sample_heap 1) s []"
      unfolding c by (simp add: slab_rep_def sample_heap_def sample_cache_def)
    show "slab_place (hp_caches sample_heap 1) s"
      unfolding c s by (simp add: slab_place_def sample_cache_def KHEAP_START_def KHEAP_END_def)
    show "unat s + slab_bytes (hp_caches sample_heap 1) \<le> unat (heap_current sample_heap)"
      unfolding c s by (simp add: sample_cache_def sample_heap_def KHEAP_START_def)
    show "unat s + slab_bytes (hp_caches sample_heap 1) \<le> unat t \<or> unat t + slab_bytes (hp_caches sample_heap 1) \<le> unat s"
      if "t \<in> all_slabs ls {}" "s \<noteq> t" for t using that s unfolding all by simp
  qed simp
  moreover have "filed sample_heap 1 ls (\<lambda>s. [])" by (simp add: filed_def ls_def)
  moreover have "live_of (hp_caches sample_heap 1) (all_slabs ls {}) (\<lambda>s. []) = {KHEAP_START + 48}"
    unfolding all c by (simp add: live_of_def slab_objs_def obj_at_def sample_cache_def ALIGN_UP_def KHEAP_START_def lessThan_Suc)
  ultimately show ?thesis unfolding cache_live_def using sample_heap_ok by metis
qed

section \<open>Properties\<close>

text \<open>C9. Allocating an object refines adding a fresh element to the set of live objects: the object returned was not
  live, and the cache then has exactly one more live object.  When the heap has no page left the result is
  NULL and the live set is unchanged.  (A cache created with \<open>SLAB_PANIC\<close> halts the kernel instead.)\<close>

theorem kmem_cache_alloc_refines:
  assumes "cache_live h c L" and "\<not> test_flag (c_flags (hp_caches h c)) SLAB_PANIC"
  shows "\<exists>r h'. kmem_cache_alloc h (Some c) = Some (r, h') \<and>
    (case r of None \<Rightarrow> cache_live h' c L | Some x \<Rightarrow> x \<notin> L \<and> cache_live h' c (insert x L))"
  using assms by (rule cache.alloc_live)

theorem kmem_cache_alloc_refines_witness:
  "\<exists>r h'. kmem_cache_alloc sample_heap (Some 1) = Some (r, h') \<and>
    (case r of None \<Rightarrow> cache_live h' 1 {KHEAP_START + 48}
     | Some x \<Rightarrow> x \<notin> {KHEAP_START + 48} \<and> cache_live h' 1 (insert x {KHEAP_START + 48}))"
  by (rule kmem_cache_alloc_refines [OF sample_cache_live])
    (simp add: sample_heap_def sample_cache_def test_flag_def)

text \<open>C10. Freeing a live object refines removing it from the live set, whichever list its slab is on and whether the
  slab stays, moves to another list, or is given back to the page allocator.\<close>

theorem kmem_cache_free_refines:
  assumes "cache_live h c L" and "x \<in> L"
  shows "\<exists>h'. kmem_cache_free h (Some c) (Some x) = Some h' \<and> cache_live h' c (L - {x})"
  using assms by (rule cache.free_live)

theorem kmem_cache_free_refines_witness:
  "\<exists>h'. kmem_cache_free sample_heap (Some 1) (Some (KHEAP_START + 48)) = Some h' \<and>
    cache_live h' 1 ({KHEAP_START + 48} - {KHEAP_START + 48})"
  by (rule kmem_cache_free_refines [OF sample_cache_live]) simp





text \<open>C13. \<open>kmem_cache_create\<close> with a size up to 32768 and an alignment of zero or a power of two up to a page gives NULL or
  an empty cache of sound geometry: objects at least as large as asked, a whole number of alignment units
  each, at least one per slab, and descriptor plus objects fit the slab.  The loop that sizes the slab ends.\<close>

theorem kmem_cache_create_correct:
  assumes "heap_ok h" and "unat sz \<le> 32768" and "align = 0 \<or> (\<exists>a \<le> 12. align = 2 ^ a)"
  shows "\<exists>p h'. kmem_cache_create h name sz align flags = Some (p, h') \<and> heap_ok h' \<and>
    (\<forall>c. p = Some c \<longrightarrow> cache_live h' c {} \<and> geom_ok (hp_caches h' c) \<and>
       unat sz \<le> unat (c_obj_size (hp_caches h' c)) \<and> (align = 0 \<longrightarrow> c_align (hp_caches h' c) = 16) \<and>
       (align \<noteq> 0 \<longrightarrow> c_align (hp_caches h' c) = align) \<and> c_flags (hp_caches h' c) = flags)"
  using assms by (rule kmem_cache_create_spec)

theorem kmem_cache_create_correct_witness:
  "\<exists>p h'. kmem_cache_create sample_heap ''vma'' 72 0 0 = Some (p, h') \<and> heap_ok h'"
proof -
  have "unat (72 :: u64) \<le> 32768" by simp
  then show ?thesis
    using kmem_cache_create_correct [OF sample_heap_ok, of 72 0 "''vma''" 0] by blast
qed



text \<open>C15. A defect of \<open>kmalloc\<close>: a request within a page of \<open>2 ^ 64\<close> bytes rounds up to zero pages, so it succeeds with a
  pointer to memory that is not allocated, and the next large request returns the same pointer.\<close>

theorem kmalloc_size_wraps:
  assumes "0xFFFFFFFFFFFFF000 < sz" and "heap_current h \<le> KHEAP_END"
  shows "kmalloc h sz = Some (Some (heap_current h), h)"
proof -
  have lo: "2 ^ 64 - 4096 < unat sz" using assms(1) by (simp add: word_less_nat_alt)
  have "unat sz < 2 ^ LENGTH(64)" by (rule unsigned_less)
  then have "(unat sz + 4095) mod 2 ^ 64 = unat sz + 4095 - 2 ^ 64"
    using lo by (simp add: mod_if)
  then have "unat (sz + 4095) < 4096" using lo \<open>unat sz < _\<close> by (simp add: unat_word_ariths)
  then have "(sz + 4095) div 4096 = 0" by (simp add: word_unat_eq_iff unat_div)
  moreover have "sz \<noteq> 0" "SLAB_MAX_SIZE < sz" using lo by (auto simp: SLAB_MAX_SIZE_def word_less_nat_alt)
  ultimately have "kmalloc h sz = heap_alloc_pages h 0"
    unfolding kmalloc_def by (simp add: PAGE_SIZE_def add.commute)
  then show ?thesis using assms(2) by (simp add: heap_alloc_pages_def not_less)
qed

theorem kmalloc_size_wraps_witness:
  "kmalloc sample_heap 0xFFFFFFFFFFFFFFFF = Some (Some (heap_current sample_heap), sample_heap)"
  by (rule kmalloc_size_wraps) (simp_all add: sample_heap_def KHEAP_START_def KHEAP_END_def)

end
