(* ===== verification/Kstring.thy ===== *)
theory Kstring
  imports Slab
begin

text \<open>
  \<^verbatim>\<open>kernel/lib/string.c\<close>: the memory and string routines over a byte-addressed memory, and
  \<open>vsnprintf\<close> over the list of its arguments.  A loop that scans for a terminator is a partial
  function: a string without one gives \<open>None\<close>.
\<close>

type_synonym mem = "u64 \<Rightarrow> u8"

section \<open>Memory\<close>

fun memcpy :: "mem \<Rightarrow> u64 \<Rightarrow> u64 \<Rightarrow> nat \<Rightarrow> mem" where
  "memcpy m d s 0 = m"
| "memcpy m d s (Suc n) = memcpy (m(d := m s)) (d + 1) (s + 1) n"

text \<open>The backward loop of \<open>memmove\<close>, from the ends of both regions.\<close>

fun copy_backward :: "mem \<Rightarrow> u64 \<Rightarrow> u64 \<Rightarrow> nat \<Rightarrow> mem" where
  "copy_backward m d s 0 = m"
| "copy_backward m d s (Suc n) = copy_backward (m(d - 1 := m (s - 1))) (d - 1) (s - 1) n"

definition memmove :: "mem \<Rightarrow> u64 \<Rightarrow> u64 \<Rightarrow> nat \<Rightarrow> mem" where
  "memmove m d s n =
     (if d < s then memcpy m d s n
      else if s < d then copy_backward m (d + of_nat n) (s + of_nat n) n
      else m)"

fun memset :: "mem \<Rightarrow> u64 \<Rightarrow> int \<Rightarrow> nat \<Rightarrow> mem" where
  "memset m p c 0 = m"
| "memset m p c (Suc n) = memset (m(p := word_of_int c)) (p + 1) c n"

fun memcmp :: "mem \<Rightarrow> u64 \<Rightarrow> u64 \<Rightarrow> nat \<Rightarrow> int" where
  "memcmp m p q 0 = 0"
| "memcmp m p q (Suc n) = (if m p \<noteq> m q then uint (m p) - uint (m q) else memcmp m (p + 1) (q + 1) n)"

section \<open>Strings\<close>

partial_function (option) strlen_from :: "mem \<Rightarrow> u64 \<Rightarrow> u64 \<Rightarrow> u64 option" where
  "strlen_from m s len = (if m (s + len) \<noteq> 0 then strlen_from m s (len + 1) else Some len)"

definition strlen :: "mem \<Rightarrow> u64 \<Rightarrow> u64 option" where
  "strlen m s = strlen_from m s 0"

partial_function (option) strcmp :: "mem \<Rightarrow> u64 \<Rightarrow> u64 \<Rightarrow> int option" where
  "strcmp m p q =
     (if m p \<noteq> 0 \<and> m p = m q then strcmp m (p + 1) (q + 1) else Some (uint (m p) - uint (m q)))"

fun strncmp :: "mem \<Rightarrow> u64 \<Rightarrow> u64 \<Rightarrow> nat \<Rightarrow> int" where
  "strncmp m p q 0 = 0"
| "strncmp m p q (Suc n) =
     (if m p \<noteq> 0 \<and> m p = m q then strncmp m (p + 1) (q + 1) n else uint (m p) - uint (m q))"

definition tolower :: "int \<Rightarrow> int" where
  "tolower c = (if 65 \<le> c \<and> c \<le> 90 then c + 32 else c)"

partial_function (option) strcasecmp :: "mem \<Rightarrow> u64 \<Rightarrow> u64 \<Rightarrow> int option" where
  "strcasecmp m p q =
     (if m p \<noteq> 0 \<and> tolower (uint (m p)) = tolower (uint (m q)) then strcasecmp m (p + 1) (q + 1)
      else Some (tolower (uint (m p)) - tolower (uint (m q))))"

partial_function (option) strcpy :: "mem \<Rightarrow> u64 \<Rightarrow> u64 \<Rightarrow> mem option" where
  "strcpy m d s =
     (let m1 = m(d := m s) in if m1 d \<noteq> 0 then strcpy m1 (d + 1) (s + 1) else Some m1)"

fun strncpy :: "mem \<Rightarrow> u64 \<Rightarrow> u64 \<Rightarrow> nat \<Rightarrow> mem" where
  "strncpy m d s 0 = m"
| "strncpy m d s (Suc n) =
     (if m s \<noteq> 0 then strncpy (m(d := m s)) (d + 1) (s + 1) n else memset m d 0 (Suc n))"

text \<open>The scan to the end of the destination.\<close>

partial_function (option) str_end :: "mem \<Rightarrow> u64 \<Rightarrow> u64 option" where
  "str_end m d = (if m d \<noteq> 0 then str_end m (d + 1) else Some d)"

definition strcat :: "mem \<Rightarrow> u64 \<Rightarrow> u64 \<Rightarrow> mem option" where
  "strcat m d s = do { e \<leftarrow> str_end m d; strcpy m e s }"

fun strncat_copy :: "mem \<Rightarrow> u64 \<Rightarrow> u64 \<Rightarrow> nat \<Rightarrow> mem" where
  "strncat_copy m d s 0 = m(d := 0)"
| "strncat_copy m d s (Suc n) =
     (if m s \<noteq> 0 then strncat_copy (m(d := m s)) (d + 1) (s + 1) n else m(d := 0))"

definition strncat :: "mem \<Rightarrow> u64 \<Rightarrow> u64 \<Rightarrow> nat \<Rightarrow> mem option" where
  "strncat m d s n = do { e \<leftarrow> str_end m d; Some (strncat_copy m e s n) }"

text \<open>The allocation is \<open>kmalloc\<close> of the kernel heap.\<close>

definition strdup :: "heap \<Rightarrow> mem \<Rightarrow> u64 \<Rightarrow> (vptr \<times> heap \<times> mem) option" where
  "strdup h m s =
     do { n \<leftarrow> strlen m s;
          let len = n + 1;
          (p, h1) \<leftarrow> kmalloc h len;
          case p of
            None \<Rightarrow> Some (None, h1, m)
          | Some dup \<Rightarrow> Some (Some dup, h1, memcpy m dup s (unat len)) }"

partial_function (option) strchr :: "mem \<Rightarrow> u64 \<Rightarrow> int \<Rightarrow> vptr option" where
  "strchr m s c =
     (if m s \<noteq> 0 then (if m s = word_of_int c then Some (Some s) else strchr m (s + 1) c)
      else Some (if c = 0 then Some s else None))"

partial_function (option) strrchr_from :: "mem \<Rightarrow> u64 \<Rightarrow> int \<Rightarrow> vptr \<Rightarrow> vptr option" where
  "strrchr_from m s c lst =
     (if m s \<noteq> 0 then strrchr_from m (s + 1) c (if m s = word_of_int c then Some s else lst)
      else Some (if c = 0 then Some s else lst))"

definition strrchr :: "mem \<Rightarrow> u64 \<Rightarrow> int \<Rightarrow> vptr option" where
  "strrchr m s c = strrchr_from m s c None"

section \<open>Formatted output\<close>

text \<open>An argument of a format directive: a string, or the 64-bit slot of a number.  The format is the list of
  its bytes up to and including the terminator; reading past it, an argument of the wrong kind, and signed
  overflow are \<open>None\<close>.\<close>

datatype arg = Str "u8 list option" | Num u64

fun peek :: "u8 list \<Rightarrow> u8 option" where
  "peek [] = None"
| "peek (c # cs) = Some c"

fun parse_flags :: "bool \<Rightarrow> bool \<Rightarrow> u8 list \<Rightarrow> (bool \<times> bool \<times> u8 list) option" where
  "parse_flags zero_pad left_justify [] = None"
| "parse_flags zero_pad left_justify (c # cs) =
     (if c = 48 then parse_flags True left_justify cs
      else if c = 45 then parse_flags zero_pad True cs
      else Some (zero_pad, left_justify, c # cs))"

fun parse_width :: "int \<Rightarrow> u8 list \<Rightarrow> (int \<times> u8 list) option" where
  "parse_width width [] = None"
| "parse_width width (c # cs) =
     (if 48 \<le> c \<and> c \<le> 57 then
        let w = width * 10 + (uint c - 48) in if w < 2 ^ 31 then parse_width w cs else None
      else Some (width, c # cs))"

definition parse_length :: "u8 list \<Rightarrow> (bool \<times> u8 list) option" where
  "parse_length fmt =
     do { c \<leftarrow> peek fmt;
          if c = 108 then
            do { c1 \<leftarrow> peek (tl fmt);
                 if c1 = 108 then Some (True, tl (tl fmt)) else Some (False, tl fmt) }
          else Some (False, fmt) }"

text \<open>The digits in the order the conversion loop finds them; the bytes are then reversed in place.\<close>

function digits_rev :: "nat \<Rightarrow> nat \<Rightarrow> nat list" where
  "digits_rev b n = (if b < 2 then [] else (n mod b) # (if n div b = 0 then [] else digits_rev b (n div b)))"
  by pat_completeness auto
termination
proof (relation "measure snd")
  fix b n :: nat
  assume "\<not> b < 2" "n div b \<noteq> 0"
  then show "((b, n div b), b, n) \<in> measure snd" by (cases "n = 0") (auto intro: div_less_dividend)
qed simp

declare digits_rev.simps [simp del]

definition dec_char :: "nat \<Rightarrow> u8" where
  "dec_char d = 48 + of_nat d"

definition hex_char :: "bool \<Rightarrow> nat \<Rightarrow> u8" where
  "hex_char upper d = (if d < 10 then 48 + of_nat d else (if upper then 65 else 97) + of_nat (d - 10))"

definition fmt_signed :: "bool \<Rightarrow> u64 \<Rightarrow> u8 list option" where
  "fmt_signed is_long_long v =
     (let val = (if is_long_long then sint v else sint (ucast v :: u32)) in
      if val = - (2 ^ 63) then None
      else Some ((if val < 0 then [45] else []) @ map dec_char (rev (digits_rev 10 (nat \<bar>val\<bar>)))))"

definition fmt_unsigned :: "bool \<Rightarrow> nat \<Rightarrow> (nat \<Rightarrow> u8) \<Rightarrow> u64 \<Rightarrow> u8 list" where
  "fmt_unsigned is_long_long b digit v =
     (let val = (if is_long_long then unat v else unat (ucast v :: u32)) in map digit (rev (digits_rev b val)))"

text \<open>Bytes are written while \<open>out < end\<close>; \<open>written\<close> counts them.\<close>

definition emit :: "nat \<Rightarrow> u8 list \<Rightarrow> u8 list \<times> int \<Rightarrow> u8 list \<times> int" where
  "emit cap xs st =
     (let ys = take (cap - length (fst st)) xs in (fst st @ ys, snd st + int (length ys)))"

definition pad_and_emit :: "nat \<Rightarrow> bool \<Rightarrow> bool \<Rightarrow> int \<Rightarrow> u8 list \<Rightarrow> u8 list \<times> int \<Rightarrow> u8 list \<times> int" where
  "pad_and_emit cap zero_pad left_justify width buf st =
     (let padding = width - int (length buf);
          st1 = (if \<not> left_justify \<and> 0 < padding
                 then emit cap (replicate (nat padding) (if zero_pad then 48 else 32)) st else st);
          st2 = emit cap buf st1
      in if left_justify \<and> 0 < padding then emit cap (replicate (nat padding) 32) st2 else st2)"

definition null_text :: "u8 list" where
  "null_text = [40, 110, 117, 108, 108, 41]"

definition convert ::
  "nat \<Rightarrow> u8 \<Rightarrow> bool \<Rightarrow> bool \<Rightarrow> int \<Rightarrow> bool \<Rightarrow> arg list \<Rightarrow> u8 list \<times> int \<Rightarrow> ((u8 list \<times> int) \<times> arg list) option" where
  "convert cap conv zero_pad left_justify width ll args st =
     (if conv = 115 then
        (case args of Str so # rest \<Rightarrow> Some (emit cap (case so of None \<Rightarrow> null_text | Some s \<Rightarrow> s) st, rest) | _ \<Rightarrow> None)
      else if conv = 99 then
        (case args of Num v # rest \<Rightarrow> Some ((fst st @ [ucast v], snd st + 1), rest) | _ \<Rightarrow> None)
      else if conv = 100 \<or> conv = 105 then
        (case args of
           Num v # rest \<Rightarrow>
             do { buf \<leftarrow> fmt_signed ll v; Some (pad_and_emit cap zero_pad left_justify width buf st, rest) }
         | _ \<Rightarrow> None)
      else if conv = 117 then
        (case args of
           Num v # rest \<Rightarrow>
             Some (pad_and_emit cap zero_pad left_justify width (fmt_unsigned ll 10 dec_char v) st, rest)
         | _ \<Rightarrow> None)
      else if conv = 120 \<or> conv = 88 then
        (case args of
           Num v # rest \<Rightarrow>
             Some (pad_and_emit cap zero_pad left_justify width (fmt_unsigned ll 16 (hex_char (conv = 88)) v) st, rest)
         | _ \<Rightarrow> None)
      else
        let out1 = fst st @ [37];
            out2 = (if length out1 < cap then out1 @ [conv] else out1)
        in Some ((out2, snd st + 2), args))"

partial_function (option) vsnprintf_loop ::
  "nat \<Rightarrow> u8 list \<Rightarrow> arg list \<Rightarrow> u8 list \<times> int \<Rightarrow> (u8 list \<times> int) option" where
  "vsnprintf_loop cap fmt args st =
     do { c \<leftarrow> peek fmt;
          if c = 0 \<or> \<not> length (fst st) < cap then Some st
          else if c \<noteq> 37 then vsnprintf_loop cap (tl fmt) args (fst st @ [c], snd st + 1)
          else
            do { c1 \<leftarrow> peek (tl fmt);
                 if c1 = 37 then vsnprintf_loop cap (tl (tl fmt)) args (fst st @ [37], snd st + 1)
                 else
                   do { (zero_pad, left_justify, f1) \<leftarrow> parse_flags False False (tl fmt);
                        (width, f2) \<leftarrow> parse_width 0 f1;
                        (ll, f3) \<leftarrow> parse_length f2;
                        conv \<leftarrow> peek f3;
                        (st1, rest) \<leftarrow> convert cap conv zero_pad left_justify width ll args st;
                        vsnprintf_loop cap (tl f3) rest st1 } } }"

text \<open>The bytes left in \<open>str\<close>, with the terminator, and the value returned.\<close>

definition vsnprintf :: "nat \<Rightarrow> u8 list \<Rightarrow> arg list \<Rightarrow> (u8 list \<times> int) option" where
  "vsnprintf sz fmt args =
     (if sz = 0 then Some ([], 0)
      else do { (out, written) \<leftarrow> vsnprintf_loop (sz - 1) fmt args ([], 0); Some (out @ [0], written) })"

end
