(* ===== verification/Kstring_Correct.thy ===== *)
theory Kstring_Correct
  imports Kstring
begin

text \<open>
  Correctness of the string library: the memory routines against their meaning as functions on
  addresses, the string routines against the list of bytes up to the terminator, and the bounds and
  round trip of formatted output.
\<close>

section \<open>Copying\<close>

lemma unat_plus_1: "unat x + 1 < 2 ^ 64 \<Longrightarrow> unat (x + 1 :: u64) = unat x + 1"
  by (simp add: unat_word_ariths)

lemma memcpy_forward:
  assumes "unat d + n \<le> 2 ^ 64" "unat s + n \<le> 2 ^ 64" "unat d \<le> unat s \<or> unat s + n \<le> unat d"
  shows "memcpy m d s n a = (if unat d \<le> unat a \<and> unat a < unat d + n then m (s + (a - d)) else m a)"
  using assms
proof (induction n arbitrary: m d s)
  case (Suc n)
  let ?m = "m(d := m s)"
  have d1: "n = 0 \<or> unat (d + 1) = unat d + 1" and s1: "n = 0 \<or> unat (s + 1) = unat s + 1"
    using Suc.prems by (cases n; simp add: unat_plus_1)+
  show ?case
  proof (cases "n = 0")
    case True
    have "unat d \<le> unat a \<and> unat a < unat d + 1 \<longleftrightarrow> a = d" by (auto simp: word_unat_eq_iff)
    then show ?thesis using True by simp
  next
    case False
    have IH: "memcpy ?m (d + 1) (s + 1) n a =
        (if unat d + 1 \<le> unat a \<and> unat a < unat d + 1 + n then ?m (s + 1 + (a - (d + 1))) else ?m a)"
      using Suc.prems d1 s1 False by (subst Suc.IH) auto
    have off: "s + 1 + (a - (d + 1)) = s + (a - d)" by simp
    have far: "s + (a - d) \<noteq> d" if "unat d + 1 \<le> unat a" "unat a < unat d + 1 + n"
    proof -
      have "unat (a - d) = unat a - unat d" using that by (intro unat_sub) (simp add: word_le_nat_alt)
      then have "unat (s + (a - d)) = unat s + (unat a - unat d)"
        using that Suc.prems(2) by (simp add: unat_word_ariths)
      then show ?thesis using that Suc.prems(3) by (auto simp: word_unat_eq_iff)
    qed
    show ?thesis
    proof (cases "a = d")
      case True
      then show ?thesis using IH by simp
    next
      case False
      then have "unat a \<noteq> unat d" by (simp add: word_unat_eq_iff)
      then have "unat d + 1 \<le> unat a \<longleftrightarrow> unat d \<le> unat a" by auto
      then show ?thesis using IH far False by (simp add: off)
    qed
  qed
qed auto

lemma copy_backward_eq:
  assumes "unat d + n < 2 ^ 64" "unat s + n < 2 ^ 64" "unat s \<le> unat d"
  shows "copy_backward m (d + of_nat n) (s + of_nat n) n a =
    (if unat d \<le> unat a \<and> unat a < unat d + n then m (s + (a - d)) else m a)"
  using assms
proof (induction n arbitrary: m)
  case (Suc n)
  let ?d = "d + of_nat n" and ?s = "s + of_nat n"
  have small: "n < 2 ^ 64" using Suc.prems(1) by simp
  have ud: "unat ?d = unat d + n" and us: "unat ?s = unat s + n"
    using Suc.prems small by (simp_all add: unat_word_ariths unat_of_nat)
  have step: "copy_backward m (d + of_nat (Suc n)) (s + of_nat (Suc n)) (Suc n) a =
      copy_backward (m(?d := m ?s)) ?d ?s n a"
    by (simp add: add.assoc)
  have IH: "copy_backward (m(?d := m ?s)) ?d ?s n a =
      (if unat d \<le> unat a \<and> unat a < unat d + n then (m(?d := m ?s)) (s + (a - d)) else (m(?d := m ?s)) a)"
    using Suc.prems by (intro Suc.IH) auto
  have near: "s + (a - d) \<noteq> ?d" if "unat d \<le> unat a" "unat a < unat d + n"
  proof -
    have "unat (a - d) = unat a - unat d" using that by (intro unat_sub) (simp add: word_le_nat_alt)
    then have "unat (s + (a - d)) = unat s + (unat a - unat d)"
      using that Suc.prems(2) by (simp add: unat_word_ariths)
    then show ?thesis using that Suc.prems(3) ud by (auto simp: word_unat_eq_iff)
  qed
  show ?case
  proof (cases "a = ?d")
    case True
    then show ?thesis using step IH ud by simp
  next
    case False
    then have "unat a \<noteq> unat d + n" using ud by (auto simp: word_unat_eq_iff)
    then show ?thesis using step IH near False by auto
  qed
qed auto

lemma memmove_spec:
  assumes "unat d + n < 2 ^ 64" "unat s + n < 2 ^ 64"
  shows "memmove m d s n a = (if unat d \<le> unat a \<and> unat a < unat d + n then m (s + (a - d)) else m a)"
proof -
  consider "unat d < unat s" | "unat s < unat d" | "d = s" by (metis linorder_neqE_nat word_unat_eq_iff)
  then show ?thesis
  proof cases
    case 1
    then show ?thesis using memcpy_forward [of d n s m a] assms by (simp add: memmove_def word_less_nat_alt)
  next
    case 2
    then show ?thesis using copy_backward_eq [OF assms] by (simp add: memmove_def word_less_nat_alt)
  next
    case 3
    then show ?thesis by (simp add: memmove_def)
  qed
qed

section \<open>Strings in memory\<close>

fun cstr :: "mem \<Rightarrow> u64 \<Rightarrow> u8 list \<Rightarrow> bool" where
  "cstr m p [] = (m p = 0)"
| "cstr m p (x # xs) = (m p = x \<and> x \<noteq> 0 \<and> cstr m (p + 1) xs)"

lemma strlen_from_cstr: "cstr m (s + len) xs \<Longrightarrow> strlen_from m s len = Some (len + of_nat (length xs))"
  by (induction xs arbitrary: len) (simp_all add: strlen_from.simps add.assoc)

lemma strlen_cstr: "cstr m s xs \<Longrightarrow> strlen m s = Some (of_nat (length xs))"
  using strlen_from_cstr [of m s 0 xs] by (simp add: strlen_def)

definition byte_less :: "(u8 \<times> u8) set" where
  "byte_less = {(a, b). a < b}"

lemma strcmp_cstr:
  assumes "cstr m p xs" "cstr m q ys"
  shows "\<exists>r. strcmp m p q = Some r \<and> (r = 0 \<longleftrightarrow> xs = ys) \<and> (r < 0 \<longleftrightarrow> (xs, ys) \<in> lexord byte_less)"
  using assms
proof (induction xs arbitrary: p q ys)
  case Nil
  then show ?case
    by (cases ys) (auto simp: strcmp.simps [of m p q] uint_0_iff less_le)
next
  case (Cons x xs)
  show ?case
  proof (cases ys)
    case Nil
    then show ?thesis using Cons.prems by (auto simp: strcmp.simps [of m p q] uint_0_iff not_less)
  next
    case y: (Cons y ys')
    show ?thesis
    proof (cases "x = y")
      case True
      then show ?thesis
        using Cons.IH [of "p + 1" "q + 1" ys'] Cons.prems y
        by (simp add: strcmp.simps [of m p q] byte_less_def)
    next
      case False
      then have "uint x - uint y \<noteq> 0" by (metis eq_iff_diff_eq_0 word_uint_eqI)
      then show ?thesis
        using Cons.prems y False by (simp add: strcmp.simps [of m p q] byte_less_def word_less_def)
    qed
  qed
qed

section \<open>Formatted output\<close>

lemma emit_simps: "length (fst st) \<le> cap \<Longrightarrow> length (fst (emit cap xs st)) \<le> cap"
  by (simp add: emit_def Let_def)

lemma pad_and_emit_bound: "length (fst st) \<le> cap \<Longrightarrow> length (fst (pad_and_emit cap z l w buf st)) \<le> cap"
  by (simp add: pad_and_emit_def emit_simps Let_def)

lemma convert_bound:
  assumes "convert cap conv z l w ll args st = Some (st', rest)" "length (fst st) < cap"
  shows "length (fst st') \<le> cap"
proof -
  have b: "length (fst (emit cap xs st)) \<le> cap" "length (fst (pad_and_emit cap z' l' w' buf st)) \<le> cap" for xs z' l' w' buf
    using assms(2) by (simp_all add: emit_simps pad_and_emit_bound)
  show ?thesis
    using assms b
    by (auto simp: convert_def Let_def bind_eq_Some_conv split: if_splits list.splits arg.splits)
qed

lemma vsnprintf_loop_bound:
  "vsnprintf_loop cap fmt args st = Some r \<Longrightarrow> length (fst st) \<le> cap \<Longrightarrow> length (fst r) \<le> cap"
proof (induction rule: vsnprintf_loop.raw_induct [rotated, consumes 1, case_names step])
  case (step loop cap fmt args st r)
  then show ?case
    by (auto simp: bind_eq_Some_conv Suc_le_eq dest!: convert_bound split: if_splits)
      (force dest: step.IH convert_bound)+
qed

lemma digits_rev_value:
  assumes "2 \<le> b"
  shows "foldr (\<lambda>d a. a * b + d) (digits_rev b n) 0 = n"
  using assms
proof (induction b n rule: digits_rev.induct)
  case (1 b n)
  show ?case
  proof (cases "n div b = 0")
    case True
    then show ?thesis using 1 by (simp add: digits_rev.simps [of b n])
      (metis div_eq_0_iff mod_less not_numeral_le_zero)
  next
    case False
    then show ?thesis using 1 by (simp add: digits_rev.simps [of b n])
  qed
qed

lemma digits_rev_less: "2 \<le> b \<Longrightarrow> d \<in> set (digits_rev b n) \<Longrightarrow> d < b"
proof (induction b n rule: digits_rev.induct)
  case (1 b n)
  have "d = n mod b \<or> n div b \<noteq> 0 \<and> d \<in> set (digits_rev b (n div b))"
    using 1(2,3) by (simp add: digits_rev.simps [of b n] split: if_splits)
  then show ?case using 1(1,2) by auto
qed

text \<open>Reading a decimal numeral back.\<close>

definition read_dec :: "u8 list \<Rightarrow> nat" where
  "read_dec cs = foldl (\<lambda>a c. a * 10 + (unat c - 48)) 0 cs"

definition read_int :: "u8 list \<Rightarrow> int" where
  "read_int cs = (case cs of c # cs' \<Rightarrow> if c = 45 then - int (read_dec cs') else int (read_dec cs) | [] \<Rightarrow> 0)"

lemma unat_dec_char: "d < 10 \<Longrightarrow> unat (dec_char d) = 48 + d"
  by (simp add: dec_char_def unat_word_ariths unat_of_nat)

lemma read_dec_digits: "read_dec (map dec_char (rev (digits_rev 10 n))) = n"
proof -
  have "read_dec (map dec_char (rev (digits_rev 10 n))) =
      foldr (\<lambda>d a. a * 10 + (unat (dec_char d) - 48)) (digits_rev 10 n) 0"
    by (simp add: read_dec_def foldl_conv_foldr rev_map foldr_map comp_def)
  also have "\<dots> = foldr (\<lambda>d a. a * 10 + d) (digits_rev 10 n) 0"
    by (rule foldr_cong) (simp_all add: unat_dec_char digits_rev_less)
  also have "\<dots> = n" by (rule digits_rev_value) simp
  finally show ?thesis .
qed

lemma digits_rev_length: "n < b ^ Suc k \<Longrightarrow> 2 \<le> b \<Longrightarrow> length (digits_rev b n) \<le> Suc k"
proof (induction k arbitrary: n)
  case 0
  then show ?case by (simp add: digits_rev.simps [of b n])
next
  case (Suc k)
  have "n div b < b ^ Suc k" using Suc.prems by (simp add: less_mult_imp_div_less mult.commute)
  then show ?case using Suc.IH [of "n div b"] Suc.prems(2) by (simp add: digits_rev.simps [of b n])
qed

lemma read_int_signed:
  assumes "sint v \<noteq> - (2 ^ 63)"
  shows "\<exists>buf. fmt_signed True v = Some buf \<and> read_int buf = sint v \<and> length buf \<le> 20 \<and> (\<forall>c \<in> set buf. c \<noteq> 0)"
proof -
  let ?ds = "map dec_char (rev (digits_rev 10 (nat \<bar>sint v\<bar>)))"
  have lim: "- (2 ^ 63) \<le> sint v" "sint v < 2 ^ 63"
    using sint_ge [of v] sint_lt [of v] by simp_all
  then have "nat \<bar>sint v\<bar> < 10 ^ Suc 18" using assms by simp
  then have len: "length ?ds \<le> 19" using digits_rev_length [of "nat \<bar>sint v\<bar>" 10 18] by simp
  have ch: "c \<noteq> 0 \<and> c \<noteq> 45" if "c \<in> set ?ds" for c
  proof -
    obtain d where "d < 10" "c = dec_char d" using \<open>c \<in> set ?ds\<close> digits_rev_less [of 10] by auto
    then have "unat c = 48 + d" by (simp add: unat_dec_char)
    then show ?thesis by auto
  qed
  have ne: "?ds \<noteq> []" by (simp add: digits_rev.simps [of 10])
  show ?thesis
  proof (cases "sint v < 0")
    case True
    then show ?thesis
      using assms len ch by (auto simp: fmt_signed_def Let_def read_int_def read_dec_digits)
  next
    case False
    moreover have "read_int ?ds = int (read_dec ?ds)"
      using ne ch [of "hd ?ds"] by (cases ?ds) (auto simp: read_int_def)
    ultimately show ?thesis
      using assms len ch by (auto simp: fmt_signed_def Let_def read_dec_digits)
  qed
qed

section \<open>Properties\<close>

text \<open>C28. \<open>memmove\<close> copies as if through a temporary buffer, whichever way the regions overlap: inside the
  destination every byte is the old byte of the source, outside it nothing changes.\<close>

theorem memmove_correct:
  assumes "unat d + n < 2 ^ 64" and "unat s + n < 2 ^ 64"
  shows "memmove m d s n = (\<lambda>a. if unat d \<le> unat a \<and> unat a < unat d + n then m (s + (a - d)) else m a)"
  using memmove_spec [OF assms] by (intro ext)

theorem memmove_correct_witness:
  "memmove (\<lambda>a. ucast a) 0x1002 0x1000 3 0x1004 = 2 \<and> memmove (\<lambda>a. ucast a) 0x1000 0x1002 3 0x1000 = 2"
  using fun_cong [OF memmove_correct [of "0x1002" 3 "0x1000" "\<lambda>a. ucast a"], of "0x1004"]
    fun_cong [OF memmove_correct [of "0x1000" 3 "0x1002" "\<lambda>a. ucast a"], of "0x1000"]
  by simp

text \<open>\<open>strcmp\<close> of two terminated strings ends, is zero exactly on equal strings, and is negative exactly when the
  first comes before the second in the lexicographic order of unsigned bytes.\<close>

theorem strcmp_correct:
  assumes "cstr m p xs" and "cstr m q ys"
  shows "\<exists>r. strcmp m p q = Some r \<and> (r = 0 \<longleftrightarrow> xs = ys) \<and> (r < 0 \<longleftrightarrow> (xs, ys) \<in> lexord byte_less)"
  using assms by (rule strcmp_cstr)

theorem strcmp_correct_witness:
  "\<exists>r. strcmp (\<lambda>a. if a = 1 \<or> a = 8 then 97 else if a = 9 then 98 else 0) 1 8 = Some r \<and>
    (r = 0 \<longleftrightarrow> [97] = [97, 98 :: u8]) \<and> (r < 0 \<longleftrightarrow> ([97], [97, 98]) \<in> lexord byte_less)"
  by (rule strcmp_correct) simp_all

text \<open>C29. \<open>vsnprintf\<close> never writes more than \<open>size\<close> bytes, the terminator included, and what it writes is terminated.\<close>

theorem vsnprintf_bounded:
  assumes "vsnprintf sz fmt args = Some (out, r)" and "0 < sz"
  shows "length out \<le> sz \<and> out \<noteq> [] \<and> last out = 0"
proof -
  obtain o' where "vsnprintf_loop (sz - 1) fmt args ([], 0) = Some (o', r)" "out = o' @ [0]"
    using assms by (auto simp: vsnprintf_def bind_eq_Some_conv)
  then show ?thesis using vsnprintf_loop_bound [of "sz - 1" fmt args "([], 0)"] assms(2) by fastforce
qed

theorem vsnprintf_bounded_witness:
  "vsnprintf 3 [37, 115, 0] [Str (Some [104, 101, 108, 108, 111])] = Some ([104, 101, 0], 2) \<and>
   length [104, 101, 0 :: u8] \<le> 3"
proof -
  have "vsnprintf 3 [37, 115, 0] [Str (Some [104, 101, 108, 108, 111])] = Some ([104, 101, 0], 2)"
    by (simp add: vsnprintf_def vsnprintf_loop.simps parse_length_def convert_def emit_def)
  then show ?thesis using vsnprintf_bounded [of 3 "[37, 115, 0]"] by simp
qed



text \<open>A defect of \<open>vsnprintf\<close>: a format that ends in a percent sign makes it step over the terminator and read past
  the end of the format string.\<close>

theorem vsnprintf_trailing_percent:
  assumes "2 \<le> sz"
  shows "vsnprintf sz [37, 0] args = None"
  using assms
  by (simp add: vsnprintf_def vsnprintf_loop.simps [of _ "[37, 0]"] vsnprintf_loop.simps [of _ "[]"]
      parse_length_def convert_def)

theorem vsnprintf_trailing_percent_witness: "vsnprintf 16 [37, 0] [] = None"
  by (rule vsnprintf_trailing_percent) simp

end
