(* ===== verification/Object_Pool.thy ===== *)
theory Object_Pool
  imports Kurios_Prelude "HOL-Library.Monad_Syntax"
begin

text \<open>
  Where the kernel's objects come from.  \<open>kmalloc\<close> and \<open>kmem_cache_alloc\<close> enter the components through their contract
  (proved for the allocator in \<^verbatim>\<open>Slab_Correct\<close>): a request gives an object that is not in use, or NULL.  Objects are
  numbered by the requests; \<open>grants\<close> says which requests succeed.
\<close>

record pool =
  grants :: "nat \<Rightarrow> bool"
  requests :: nat

definition pool_alloc :: "pool \<Rightarrow> ptr \<times> pool" where
  "pool_alloc p =
     (if grants p (requests p) then Some (requests p) else None, p\<lparr>requests := Suc (requests p)\<rparr>)"

text \<open>A loop over an array whose body may fault.\<close>

fun for_each :: "('a \<Rightarrow> 's \<Rightarrow> 's option) \<Rightarrow> 'a list \<Rightarrow> 's \<Rightarrow> 's option" where
  "for_each f [] s = Some s"
| "for_each f (x # xs) s = do { s1 \<leftarrow> f x s; for_each f xs s1 }"

lemma pool_alloc_cases:
  obtains (fail) p1 where "pool_alloc p = (None, p1)" "requests p1 = Suc (requests p)"
  | (ok) p1 where "pool_alloc p = (Some (requests p), p1)" "requests p1 = Suc (requests p)"
  by (cases "grants p (requests p)") (simp_all add: pool_alloc_def)

end
