(* ===== verification/Fs_State.thy ===== *)
theory Fs_State
  imports Object_Pool
begin

text \<open>
  The state of the file system layer: the structures of \<^verbatim>\<open>kernel/fs/vfs.h\<close>,
  \<^verbatim>\<open>kernel/fs/fd_table.h\<close>, \<^verbatim>\<open>kernel/fs/pipe.h\<close> and \<^verbatim>\<open>kernel/fs/ramfs.c\<close>, each kind in a store of its
  own, and the management of nodes.  An object that is not in its store has been freed or never existed:
  touching it is a fault, the value \<open>None\<close>.  Spin locks and log messages have no counterpart.
\<close>

section \<open>Constants of vfs.h\<close>

definition VFS_FILE :: u32 where "VFS_FILE = 1"
definition VFS_DIR :: u32 where "VFS_DIR = 2"
definition VFS_CHARDEV :: u32 where "VFS_CHARDEV = 3"
definition VFS_BLKDEV :: u32 where "VFS_BLKDEV = 4"
definition VFS_PIPE :: u32 where "VFS_PIPE = 5"
definition VFS_SYMLINK :: u32 where "VFS_SYMLINK = 6"

abbreviation (input) O_RDONLY :: u32 where "O_RDONLY \<equiv> 0"
abbreviation (input) O_WRONLY :: u32 where "O_WRONLY \<equiv> 1"
abbreviation (input) O_RDWR :: u32 where "O_RDWR \<equiv> 2"
abbreviation (input) O_ACCMODE :: u32 where "O_ACCMODE \<equiv> 3"
abbreviation (input) O_CREAT :: u32 where "O_CREAT \<equiv> 0x100"
abbreviation (input) O_TRUNC :: u32 where "O_TRUNC \<equiv> 0x400"
abbreviation (input) O_APPEND :: u32 where "O_APPEND \<equiv> 0x800"
abbreviation (input) O_DIRECTORY :: u32 where "O_DIRECTORY \<equiv> 0x2000"

abbreviation (input) VFS_OK :: int where "VFS_OK \<equiv> 0"
abbreviation (input) VFS_ENOENT :: int where "VFS_ENOENT \<equiv> -2"
abbreviation (input) VFS_EIO :: int where "VFS_EIO \<equiv> -5"
abbreviation (input) VFS_EBADF :: int where "VFS_EBADF \<equiv> -9"
abbreviation (input) VFS_ENOMEM :: int where "VFS_ENOMEM \<equiv> -12"
abbreviation (input) VFS_EBUSY :: int where "VFS_EBUSY \<equiv> -16"
abbreviation (input) VFS_EEXIST :: int where "VFS_EEXIST \<equiv> -17"
abbreviation (input) VFS_ENOTDIR :: int where "VFS_ENOTDIR \<equiv> -20"
abbreviation (input) VFS_EISDIR :: int where "VFS_EISDIR \<equiv> -21"
abbreviation (input) VFS_EINVAL :: int where "VFS_EINVAL \<equiv> -22"
abbreviation (input) VFS_EMFILE :: int where "VFS_EMFILE \<equiv> -24"
abbreviation (input) VFS_ENOTEMPTY :: int where "VFS_ENOTEMPTY \<equiv> -39"

definition VFS_NAME_MAX :: nat where "VFS_NAME_MAX = 255"
definition VFS_PATH_MAX :: nat where "VFS_PATH_MAX = 4096"
definition VFS_MAX_FDS :: int where "VFS_MAX_FDS = 256"
definition VFS_MAX_FS :: nat where "VFS_MAX_FS = 16"

section \<open>Structures\<close>

text \<open>The operation tables of the file systems in this model.\<close>

datatype node_ops = ramfs_file_ops | ramfs_dir_ops | pipe_read_ops | pipe_write_ops

record vfs_node =
  n_name :: string
  n_type :: u32
  n_permissions :: u32
  n_uid :: u32
  n_gid :: u32
  n_size :: u64
  n_atime :: u64
  n_mtime :: u64
  n_ctime :: u64
  n_nlink :: u32
  n_ref_count :: u32
  n_open_count :: u32
  n_rdev :: u32
  n_ops :: "node_ops option"
  n_mount :: ptr
  n_private :: ptr
  n_parent :: ptr
  n_children :: ptr
  n_next :: ptr
  n_prev :: ptr

record file_t =
  f_node :: ptr
  f_offset :: u64
  f_flags :: u32
  f_ref_count :: u32
  f_dir_index :: u32

record vfs_mount =
  m_path :: string
  m_root :: ptr
  m_fs :: string
  m_next :: ptr

record fd_entry =
  e_file :: ptr
  e_flags :: u32

record fd_table =
  entries :: "nat \<Rightarrow> fd_entry"
  t_ref_count :: u32

record pipe =
  p_buffer :: "nat \<Rightarrow> u8"
  p_read_pos :: u32
  p_write_pos :: u32
  p_count :: u32
  p_readers :: u32
  p_writers :: u32

text \<open>The block array of a file is NULL or has \<open>block_capacity\<close> slots.\<close>

record ramfs_data =
  d_blocks :: "ptr list option"
  d_block_count :: u32
  d_block_capacity :: u32

text \<open>What the file system uses of the current process.\<close>

record proc =
  pr_fd_table :: ptr
  pr_euid :: u32
  pr_egid :: u32
  pr_nofile :: u64

record fs =
  fs_pool :: pool
  nodes :: "nat \<Rightarrow> vfs_node option"
  files :: "nat \<Rightarrow> file_t option"
  tables :: "nat \<Rightarrow> fd_table option"
  pipes :: "nat \<Rightarrow> pipe option"
  datas :: "nat \<Rightarrow> ramfs_data option"
  blocks :: "nat \<Rightarrow> u8 list option"
  mounts :: "nat \<Rightarrow> vfs_mount option"
  registered_fs :: "string list"
  mount_list :: ptr
  vfs_root :: ptr
  kernel_fds :: "nat \<Rightarrow> ptr"
  current :: "proc option"

definition new_object :: "fs \<Rightarrow> ptr \<times> fs" where
  "new_object s = (case pool_alloc (fs_pool s) of (p, pl) \<Rightarrow> (p, s\<lparr>fs_pool := pl\<rparr>))"

definition upd_node :: "nat \<Rightarrow> (vfs_node \<Rightarrow> vfs_node) \<Rightarrow> fs \<Rightarrow> fs option" where
  "upd_node n f s = do { nd \<leftarrow> nodes s n; Some (s\<lparr>nodes := (nodes s)(n \<mapsto> f nd)\<rparr>) }"

definition upd_file :: "nat \<Rightarrow> (file_t \<Rightarrow> file_t) \<Rightarrow> fs \<Rightarrow> fs option" where
  "upd_file n f s = do { fl \<leftarrow> files s n; Some (s\<lparr>files := (files s)(n \<mapsto> f fl)\<rparr>) }"

definition upd_table :: "nat \<Rightarrow> (fd_table \<Rightarrow> fd_table) \<Rightarrow> fs \<Rightarrow> fs option" where
  "upd_table n f s = do { t \<leftarrow> tables s n; Some (s\<lparr>tables := (tables s)(n \<mapsto> f t)\<rparr>) }"

section \<open>Nodes\<close>

definition zero_node :: vfs_node where
  "zero_node =
     \<lparr>n_name = '''', n_type = 0, n_permissions = 0, n_uid = 0, n_gid = 0, n_size = 0, n_atime = 0, n_mtime = 0,
      n_ctime = 0, n_nlink = 0, n_ref_count = 0, n_open_count = 0, n_rdev = 0, n_ops = None, n_mount = None,
      n_private = None, n_parent = None, n_children = None, n_next = None, n_prev = None\<rparr>"

definition vfs_node_alloc :: "fs \<Rightarrow> ptr \<times> fs" where
  "vfs_node_alloc s =
     (case new_object s of
        (None, s1) \<Rightarrow> (None, s1)
      | (Some n, s1) \<Rightarrow>
          (Some n, s1\<lparr>nodes := (nodes s1)(n \<mapsto> zero_node\<lparr>n_ref_count := 1, n_nlink := 1\<rparr>)\<rparr>))"

definition vfs_node_free :: "ptr \<Rightarrow> fs \<Rightarrow> fs option" where
  "vfs_node_free np s =
     (case np of
        None \<Rightarrow> Some s
      | Some n \<Rightarrow> do { _ \<leftarrow> nodes s n; Some (s\<lparr>nodes := (nodes s)(n := None)\<rparr>) })"

definition vfs_node_ref :: "ptr \<Rightarrow> fs \<Rightarrow> fs option" where
  "vfs_node_ref np s =
     (case np of
        None \<Rightarrow> Some s
      | Some n \<Rightarrow> upd_node n (\<lambda>nd. nd\<lparr>n_ref_count := n_ref_count nd + 1\<rparr>) s)"

definition vfs_node_unref :: "ptr \<Rightarrow> fs \<Rightarrow> fs option" where
  "vfs_node_unref np s =
     (case np of
        None \<Rightarrow> Some s
      | Some n \<Rightarrow>
          do { s1 \<leftarrow> upd_node n (\<lambda>nd. nd\<lparr>n_ref_count := n_ref_count nd - 1\<rparr>) s;
               nd \<leftarrow> nodes s1 n;
               if n_ref_count nd = 0 then vfs_node_free (Some n) s1 else Some s1 })"

end
