(* ===== verification/Pipe.thy ===== *)
theory Pipe
  imports Fs_State
begin

text \<open>
  \<^verbatim>\<open>kernel/fs/pipe.c\<close>: the read, write and close operations of pipe nodes.  The bytes read are returned
  as a list beside the C result.
\<close>

definition PIPE_BUF_SIZE :: u32 where
  "PIPE_BUF_SIZE = 4096"

text \<open>The copy loops, with the number of bytes still wanted or offered.\<close>

fun pipe_read_loop :: "nat \<Rightarrow> pipe \<Rightarrow> u8 list \<times> pipe" where
  "pipe_read_loop 0 p = ([], p)"
| "pipe_read_loop (Suc n) p =
     (if 0 < p_count p then
        let b = p_buffer p (unat (p_read_pos p));
            p1 = p\<lparr>p_read_pos := (p_read_pos p + 1) mod PIPE_BUF_SIZE, p_count := p_count p - 1\<rparr>;
            (bs, p2) = pipe_read_loop n p1
        in (b # bs, p2)
      else ([], p))"

definition pipe_read :: "nat \<Rightarrow> nat \<Rightarrow> fs \<Rightarrow> (int \<times> u8 list \<times> fs) option" where
  "pipe_read node sz s =
     do { nd \<leftarrow> nodes s node;
          case n_private nd of
            None \<Rightarrow> Some (- VFS_EINVAL, [], s)
          | Some pp \<Rightarrow>
              do { p \<leftarrow> pipes s pp;
                   if p_count p = 0 \<and> p_writers p = 0 then Some (0, [], s)
                   else if p_count p = 0 then Some (- EAGAIN, [], s)
                   else
                     let (bs, p1) = pipe_read_loop sz p
                     in Some (int (length bs), bs, s\<lparr>pipes := (pipes s)(pp \<mapsto> p1)\<rparr>) } }"

fun pipe_write_loop :: "u8 list \<Rightarrow> pipe \<Rightarrow> nat \<times> pipe" where
  "pipe_write_loop [] p = (0, p)"
| "pipe_write_loop (b # bs) p =
     (if p_count p < PIPE_BUF_SIZE then
        let p1 = p\<lparr>p_buffer := (p_buffer p)(unat (p_write_pos p) := b),
                   p_write_pos := (p_write_pos p + 1) mod PIPE_BUF_SIZE, p_count := p_count p + 1\<rparr>;
            (k, p2) = pipe_write_loop bs p1
        in (Suc k, p2)
      else (0, p))"

definition pipe_write :: "nat \<Rightarrow> u8 list \<Rightarrow> fs \<Rightarrow> (int \<times> fs) option" where
  "pipe_write node buf s =
     do { nd \<leftarrow> nodes s node;
          case n_private nd of
            None \<Rightarrow> Some (- VFS_EINVAL, s)
          | Some pp \<Rightarrow>
              do { p \<leftarrow> pipes s pp;
                   if p_readers p = 0 then Some (- EPIPE, s)
                   else if PIPE_BUF_SIZE \<le> p_count p then Some (- EAGAIN, s)
                   else
                     let (k, p1) = pipe_write_loop buf p
                     in Some (int k, s\<lparr>pipes := (pipes s)(pp \<mapsto> p1)\<rparr>) } }"

definition pipe_close :: "nat \<Rightarrow> fs \<Rightarrow> fs option" where
  "pipe_close node s =
     do { nd \<leftarrow> nodes s node;
          case n_private nd of
            None \<Rightarrow> Some s
          | Some pp \<Rightarrow>
              do { p \<leftarrow> pipes s pp;
                   let p1 = (if n_ops nd = Some pipe_read_ops
                             then (if 0 < p_readers p then p\<lparr>p_readers := p_readers p - 1\<rparr> else p)
                             else (if 0 < p_writers p then p\<lparr>p_writers := p_writers p - 1\<rparr> else p));
                   if p_readers p1 = 0 \<and> p_writers p1 = 0
                   then upd_node node (\<lambda>nd. nd\<lparr>n_private := None\<rparr>) (s\<lparr>pipes := (pipes s)(pp := None)\<rparr>)
                   else Some (s\<lparr>pipes := (pipes s)(pp \<mapsto> p1)\<rparr>) } }"

end
