(* ===== verification/Byte_Queue.thy ===== *)
theory Byte_Queue
  imports Pipe
begin

text \<open>
  The contract of a bounded byte queue as a locale: what is put in comes out once, in order.  Its instance on
  the ring buffer of \<^verbatim>\<open>kernel/fs/pipe.c\<close> and the properties of pipes.
\<close>

section \<open>The contract\<close>

datatype 'a queue_op = Put "'a list" | Get nat

locale byte_queue =
  fixes put :: "'a list \<Rightarrow> 'q \<Rightarrow> nat \<times> 'q"
    and get :: "nat \<Rightarrow> 'q \<Rightarrow> 'a list \<times> 'q"
    and contents :: "'q \<Rightarrow> 'a list"
    and ok :: "'q \<Rightarrow> bool"
    and capacity :: nat
  assumes put_spec: "ok q \<Longrightarrow> put bs q = (k, q') \<Longrightarrow>
      ok q' \<and> k = min (length bs) (capacity - length (contents q)) \<and> contents q' = contents q @ take k bs"
    and get_spec: "ok q \<Longrightarrow> get n q = (xs, q') \<Longrightarrow>
      ok q' \<and> xs = take n (contents q) \<and> contents q' = drop n (contents q)"
    and bounded: "ok q \<Longrightarrow> length (contents q) \<le> capacity"
begin

text \<open>A run of operations: the bytes accepted, the bytes delivered, and the queue at the end.\<close>

fun run :: "'a queue_op list \<Rightarrow> 'q \<Rightarrow> 'a list \<times> 'a list \<times> 'q" where
  "run [] q = ([], [], q)"
| "run (Put bs # ops) q =
     (case put bs q of (k, q1) \<Rightarrow> case run ops q1 of (ins, outs, q2) \<Rightarrow> (take k bs @ ins, outs, q2))"
| "run (Get n # ops) q =
     (case get n q of (xs, q1) \<Rightarrow> case run ops q1 of (ins, outs, q2) \<Rightarrow> (ins, xs @ outs, q2))"

lemma run_fifo:
  assumes "ok q" "run ops q = (ins, outs, q')"
  shows "ok q' \<and> contents q @ ins = outs @ contents q'"
  using assms
proof (induction ops arbitrary: q ins outs q')
  case Nil
  then show ?case by simp
next
  case (Cons a ops)
  show ?case
  proof (cases a)
    case (Put bs)
    obtain k q1 where p: "put bs q = (k, q1)" by force
    obtain ins1 outs1 q2 where r: "run ops q1 = (ins1, outs1, q2)" by (metis prod_cases3)
    note sp = put_spec [OF Cons.prems(1) p]
    have "ok q2 \<and> contents q1 @ ins1 = outs1 @ contents q2" using Cons.IH [OF _ r] sp by simp
    then show ?thesis using Cons.prems(2) Put p r sp by auto
  next
    case (Get n)
    obtain xs q1 where g: "get n q = (xs, q1)" by force
    obtain ins1 outs1 q2 where r: "run ops q1 = (ins1, outs1, q2)" by (metis prod_cases3)
    note sp = get_spec [OF Cons.prems(1) g]
    have IH: "ok q2 \<and> contents q1 @ ins1 = outs1 @ contents q2" using Cons.IH [OF _ r] sp by simp
    have "contents q @ ins1 = take n (contents q) @ contents q1 @ ins1"
      using sp by (metis append.assoc append_take_drop_id)
    also have "\<dots> = take n (contents q) @ outs1 @ contents q2" using IH by simp
    finally show ?thesis using Cons.prems(2) Get g r sp IH by simp
  qed
qed

end

section \<open>Pipes\<close>

definition pipe_queue :: "pipe \<Rightarrow> u8 list" where
  "pipe_queue p = map (\<lambda>i. p_buffer p ((unat (p_read_pos p) + i) mod 4096)) [0..<unat (p_count p)]"

definition pipe_ok :: "pipe \<Rightarrow> bool" where
  "pipe_ok p \<longleftrightarrow> unat (p_read_pos p) < 4096 \<and> unat (p_count p) \<le> 4096 \<and>
     unat (p_write_pos p) = (unat (p_read_pos p) + unat (p_count p)) mod 4096"

lemma unat_ring_step: "unat (p :: u32) < 4096 \<Longrightarrow> unat ((p + 1) mod PIPE_BUF_SIZE) = (unat p + 1) mod 4096"
  by (simp add: PIPE_BUF_SIZE_def unat_mod unat_word_ariths)

lemma ring_inj:
  fixes r i j :: nat
  assumes "r < 4096" "i < j" "j < 4096"
  shows "(r + i) mod 4096 \<noteq> (r + j) mod 4096"
  using assms by (cases "r + i < 4096"; cases "r + j < 4096") (simp_all add: mod_if [of "r + i" 4096] mod_if [of "r + j" 4096])

lemma pipe_queue_length [simp]: "length (pipe_queue p) = unat (p_count p)"
  by (simp add: pipe_queue_def)

lemma pipe_get_step:
  assumes "pipe_ok p" "0 < p_count p"
  defines "p1 \<equiv> p\<lparr>p_read_pos := (p_read_pos p + 1) mod PIPE_BUF_SIZE, p_count := p_count p - 1\<rparr>"
  shows "pipe_ok p1" "pipe_queue p = p_buffer p (unat (p_read_pos p)) # pipe_queue p1"
proof -
  have pos: "0 < unat (p_count p)" using assms(2) by (simp add: word_less_nat_alt)
  then have dec: "unat (p_count p - 1) = unat (p_count p) - 1"
    by (simp add: unat_sub word_le_nat_alt)
  have rd: "unat (p_read_pos p1) = (unat (p_read_pos p) + 1) mod 4096"
    using assms(1) unat_ring_step [of "p_read_pos p"] by (simp add: p1_def pipe_ok_def)
  have "((unat (p_read_pos p) + 1) mod 4096 + (unat (p_count p) - 1)) mod 4096 =
      (unat (p_read_pos p) + unat (p_count p)) mod 4096"
    unfolding mod_add_left_eq using pos by simp
  then show "pipe_ok p1"
    using assms(1) rd dec by (simp add: pipe_ok_def p1_def) linarith
  have "pipe_queue p = map (\<lambda>i. p_buffer p ((unat (p_read_pos p) + i) mod 4096)) (0 # map Suc [0..<unat (p_count p) - 1])"
    using pos by (simp add: pipe_queue_def map_Suc_upt upt_conv_Cons)
  also have "\<dots> = p_buffer p (unat (p_read_pos p)) # pipe_queue p1"
    using assms(1) rd dec by (simp add: pipe_queue_def pipe_ok_def p1_def comp_def mod_add_left_eq)
  finally show "pipe_queue p = p_buffer p (unat (p_read_pos p)) # pipe_queue p1" .
qed

lemma pipe_put_step:
  fixes b :: u8
  assumes "pipe_ok p" "p_count p < PIPE_BUF_SIZE"
  defines "p1 \<equiv> p\<lparr>p_buffer := (p_buffer p)(unat (p_write_pos p) := b),
      p_write_pos := (p_write_pos p + 1) mod PIPE_BUF_SIZE, p_count := p_count p + 1\<rparr>"
  shows "pipe_ok p1" "pipe_queue p1 = pipe_queue p @ [b]"
proof -
  have lt: "unat (p_count p) < 4096" using assms(2) by (simp add: word_less_nat_alt PIPE_BUF_SIZE_def)
  then have inc: "unat (p_count p + 1) = unat (p_count p) + 1" by (simp add: unat_word_ariths)
  have wr: "unat (p_write_pos p) < 4096" using assms(1) by (simp add: pipe_ok_def)
  have "(unat (p_write_pos p) + 1) mod 4096 = (unat (p_read_pos p) + (unat (p_count p) + 1)) mod 4096"
    using assms(1) by (simp add: pipe_ok_def mod_Suc_eq)
  then show "pipe_ok p1"
    using assms(1) unat_ring_step [OF wr] inc lt by (simp add: pipe_ok_def) (simp add: p1_def)
  have far: "(unat (p_read_pos p) + i) mod 4096 \<noteq> unat (p_write_pos p)" if "i < unat (p_count p)" for i
  proof
    assume "(unat (p_read_pos p) + i) mod 4096 = unat (p_write_pos p)"
    then have "(unat (p_read_pos p) + i) mod 4096 = (unat (p_read_pos p) + unat (p_count p)) mod 4096"
      using assms(1) by (simp add: pipe_ok_def)
    then show False using ring_inj [of "unat (p_read_pos p)" i "unat (p_count p)"] that lt assms(1)
      by (simp add: pipe_ok_def)
  qed
  show "pipe_queue p1 = pipe_queue p @ [b]"
    using assms(1) inc far by (simp add: pipe_queue_def p1_def pipe_ok_def)
qed

lemma pipe_read_loop_spec:
  "pipe_ok p \<Longrightarrow> pipe_read_loop n p = (xs, p') \<Longrightarrow>
    pipe_ok p' \<and> xs = take n (pipe_queue p) \<and> pipe_queue p' = drop n (pipe_queue p) \<and>
    p_readers p' = p_readers p \<and> p_writers p' = p_writers p"
proof (induction n arbitrary: p xs p')
  case (Suc n)
  show ?case
  proof (cases "0 < p_count p")
    case True
    note st = pipe_get_step [OF Suc.prems(1) True]
    let ?p1 = "p\<lparr>p_read_pos := (p_read_pos p + 1) mod PIPE_BUF_SIZE, p_count := p_count p - 1\<rparr>"
    obtain bs p2 where r: "pipe_read_loop n ?p1 = (bs, p2)" by force
    show ?thesis using Suc.IH [OF st(1) r] Suc.prems(2) True r st(2) by (auto simp: Let_def)
  next
    case False
    then have "unat (p_count p) = 0" by (simp add: word_less_nat_alt)
    then have "pipe_queue p = []" by (simp add: pipe_queue_def)
    then show ?thesis using Suc.prems False by simp
  qed
qed simp

lemma pipe_write_loop_spec:
  "pipe_ok p \<Longrightarrow> pipe_write_loop bs p = (k, p') \<Longrightarrow>
    pipe_ok p' \<and> k = min (length bs) (4096 - unat (p_count p)) \<and> pipe_queue p' = pipe_queue p @ take k bs \<and>
    p_readers p' = p_readers p \<and> p_writers p' = p_writers p"
proof (induction bs arbitrary: p k p')
  case (Cons b bs)
  show ?case
  proof (cases "p_count p < PIPE_BUF_SIZE")
    case True
    note st = pipe_put_step [OF Cons.prems(1) True, of b]
    let ?p1 = "p\<lparr>p_buffer := (p_buffer p)(unat (p_write_pos p) := b),
      p_write_pos := (p_write_pos p + 1) mod PIPE_BUF_SIZE, p_count := p_count p + 1\<rparr>"
    obtain k1 p2 where r: "pipe_write_loop bs ?p1 = (k1, p2)" by force
    have lt: "unat (p_count p) < 4096" using True by (simp add: word_less_nat_alt PIPE_BUF_SIZE_def)
    then have "unat (p_count ?p1) = unat (p_count p) + 1" by (simp add: unat_word_ariths)
    then show ?thesis using Cons.IH [OF st(1) r] Cons.prems(2) True r st(2) lt by (auto simp: Let_def)
  next
    case False
    then have "4096 \<le> unat (p_count p)" by (simp add: word_less_nat_alt PIPE_BUF_SIZE_def)
    then show ?thesis using Cons.prems False by simp
  qed
qed simp

interpretation pipe: byte_queue pipe_write_loop pipe_read_loop pipe_queue pipe_ok 4096
proof
  show "pipe_ok q' \<and> k = min (length bs) (4096 - length (pipe_queue q)) \<and> pipe_queue q' = pipe_queue q @ take k bs"
    if "pipe_ok q" "pipe_write_loop bs q = (k, q')" for q bs k q'
    using pipe_write_loop_spec [OF that] by simp
  show "pipe_ok q' \<and> xs = take n (pipe_queue q) \<and> pipe_queue q' = drop n (pipe_queue q)"
    if "pipe_ok q" "pipe_read_loop n q = (xs, q')" for q n xs q'
    using pipe_read_loop_spec [OF that] by simp
  show "length (pipe_queue q) \<le> 4096" if "pipe_ok q" for q
    using that by (simp add: pipe_ok_def)
qed

section \<open>Properties\<close>

text \<open>A pipe with both ends open, holding three bytes across the end of its buffer.\<close>

definition sample_pipe :: pipe where
  "sample_pipe = \<lparr>p_buffer = (\<lambda>i. of_nat i), p_read_pos = 4094, p_write_pos = 1, p_count = 3, p_readers = 1, p_writers = 1\<rparr>"

lemma sample_pipe_ok: "pipe_ok sample_pipe" "pipe_queue sample_pipe = [254, 255, 0]"
  by (simp_all add: pipe_ok_def pipe_queue_def sample_pipe_def upt_rec)

text \<open>C25. A pipe is a first-in first-out queue: over any sequence of reads and writes on its ring buffer, the bytes held at
  the start followed by the bytes accepted are the bytes delivered followed by the bytes held at the end, so no
  byte is lost, repeated or reordered; and the positions stay inside the buffer.\<close>

theorem pipe_stream:
  assumes "pipe_ok p" and "pipe.run ops p = (ins, outs, p')"
  shows "pipe_ok p' \<and> pipe_queue p @ ins = outs @ pipe_queue p'"
  using assms by (rule pipe.run_fifo)

theorem pipe_stream_witness:
  "\<exists>ins outs p'. pipe.run [Get 2, Put [7, 8], Get 9] sample_pipe = (ins, outs, p') \<and>
    pipe_ok p' \<and> [254, 255, 0] @ ins = outs @ pipe_queue p'"
proof -
  obtain ins outs p' where r: "pipe.run [Get 2, Put [7, 8], Get 9] sample_pipe = (ins, outs, p')"
    by (metis prod_cases3)
  from pipe_stream [OF sample_pipe_ok(1) r] r show ?thesis unfolding sample_pipe_ok(2) by blast
qed

text \<open>C26. \<open>pipe_read\<close> on every branch of a node with a pipe: end of file when the pipe is empty and has no writer,
  \<open>EAGAIN\<close> when it is empty and has one, and otherwise the first \<open>size\<close> bytes of the queue, which leave it;
  the number of readers and writers does not change.\<close>

theorem pipe_read_correct:
  assumes "nodes s n = Some nd" and "n_private nd = Some pp" and "pipes s pp = Some p" and "pipe_ok p"
  shows "\<exists>p'. pipe_read n sz s =
      (if pipe_queue p = [] then Some (if p_writers p = 0 then 0 else -11, [], s)
       else Some (int (min sz (length (pipe_queue p))), take sz (pipe_queue p), s\<lparr>pipes := (pipes s)(pp \<mapsto> p')\<rparr>)) \<and>
     pipe_ok p' \<and> pipe_queue p' = drop sz (pipe_queue p) \<and> p_readers p' = p_readers p \<and> p_writers p' = p_writers p"
proof -
  obtain xs p' where r: "pipe_read_loop sz p = (xs, p')" by force
  note sp = pipe_read_loop_spec [OF assms(4) r]
  have e: "pipe_queue p = [] \<longleftrightarrow> p_count p = 0"
    using pipe_queue_length [of p] by (metis length_0_conv unat_eq_zero)
  have "pipe_read n sz s =
      (if pipe_queue p = [] then Some (if p_writers p = 0 then 0 else -11, [], s)
       else Some (int (min sz (length (pipe_queue p))), take sz (pipe_queue p), s\<lparr>pipes := (pipes s)(pp \<mapsto> p')\<rparr>))"
    using assms(1-3) r sp by (simp add: pipe_read_def e min.commute)
  then show ?thesis using sp by blast
qed

definition sample_fs :: fs where
  "sample_fs =
     \<lparr>fs_pool = \<lparr>grants = (\<lambda>i. True), requests = 10\<rparr>,
      nodes = (\<lambda>n. if n = 1 then Some (zero_node\<lparr>n_ref_count := 1, n_type := VFS_PIPE, n_ops := Some pipe_read_ops, n_private := Some 3\<rparr>)
                   else if n = 2 then Some (zero_node\<lparr>n_ref_count := 1, n_type := VFS_PIPE, n_ops := Some pipe_write_ops, n_private := Some 3\<rparr>)
                   else None),
      files = (\<lambda>n. None), tables = (\<lambda>n. None), pipes = (\<lambda>n. if n = 3 then Some sample_pipe else None),
      datas = (\<lambda>n. None), blocks = (\<lambda>n. None), mounts = (\<lambda>n. None), registered_fs = [], mount_list = None,
      vfs_root = None, kernel_fds = (\<lambda>i. None), current = None\<rparr>"

lemma sample_fs_pipe:
  "\<exists>nd. nodes sample_fs 1 = Some nd \<and> n_private nd = Some 3" "\<exists>nd. nodes sample_fs 2 = Some nd \<and> n_private nd = Some 3"
  "pipes sample_fs 3 = Some sample_pipe"
  by (simp_all add: sample_fs_def)

theorem pipe_read_correct_witness:
  "\<exists>p'. pipe_read 1 2 sample_fs = Some (2, [254, 255], sample_fs\<lparr>pipes := (pipes sample_fs)(3 \<mapsto> p')\<rparr>) \<and> pipe_queue p' = [0]"
proof -
  obtain nd where "nodes sample_fs 1 = Some nd" "n_private nd = Some 3" using sample_fs_pipe(1) by blast
  from pipe_read_correct [OF this sample_fs_pipe(3) sample_pipe_ok(1), of 2] show ?thesis
    unfolding sample_pipe_ok(2) by auto
qed

text \<open>C27. \<open>pipe_write\<close> on every branch of a node with a pipe: \<open>EPIPE\<close> without a reader, \<open>EAGAIN\<close> when the buffer is full, and
  otherwise as many bytes as fit are appended to the queue and counted.\<close>

theorem pipe_write_correct:
  assumes "nodes s n = Some nd" and "n_private nd = Some pp" and "pipes s pp = Some p" and "pipe_ok p"
  shows "\<exists>p' k. pipe_write n buf s =
      (if p_readers p = 0 then Some (-32, s)
       else if length (pipe_queue p) = 4096 then Some (-11, s)
       else Some (int k, s\<lparr>pipes := (pipes s)(pp \<mapsto> p')\<rparr>)) \<and>
     k = min (length buf) (4096 - length (pipe_queue p)) \<and>
     pipe_ok p' \<and> pipe_queue p' = pipe_queue p @ take k buf \<and> p_readers p' = p_readers p \<and> p_writers p' = p_writers p"
proof -
  obtain k p' where r: "pipe_write_loop buf p = (k, p')" by force
  note sp = pipe_write_loop_spec [OF assms(4) r]
  have e: "length (pipe_queue p) = 4096 \<longleftrightarrow> PIPE_BUF_SIZE \<le> p_count p"
    using assms(4) by (auto simp: pipe_ok_def PIPE_BUF_SIZE_def word_le_nat_alt)
  have "pipe_write n buf s =
      (if p_readers p = 0 then Some (-32, s)
       else if length (pipe_queue p) = 4096 then Some (-11, s)
       else Some (int k, s\<lparr>pipes := (pipes s)(pp \<mapsto> p')\<rparr>))"
    using assms(1-3) r unfolding e by (simp add: pipe_write_def)
  moreover have "k = min (length buf) (4096 - length (pipe_queue p))" using sp by simp
  ultimately show ?thesis using sp by blast
qed

theorem pipe_write_correct_witness:
  "\<exists>p'. pipe_write 2 [9, 10] sample_fs = Some (2, sample_fs\<lparr>pipes := (pipes sample_fs)(3 \<mapsto> p')\<rparr>) \<and>
    pipe_queue p' = [254, 255, 0, 9, 10]"
proof -
  obtain nd where "nodes sample_fs 2 = Some nd" "n_private nd = Some 3" using sample_fs_pipe(2) by blast
  moreover have "p_readers sample_pipe \<noteq> 0" by (simp add: sample_pipe_def)
  ultimately show ?thesis
    using pipe_write_correct [OF _ _ sample_fs_pipe(3) sample_pipe_ok(1), of 2 nd "[9, 10]"]
    unfolding sample_pipe_ok(2) by auto
qed

end
