(* ===== verification/Ramfs.thy ===== *)
theory Ramfs
  imports Fs_State
begin

text \<open>
  \<^verbatim>\<open>kernel/fs/ramfs.c\<close>: file data in blocks of a page, directories as doubly linked lists of nodes.
  Slots of the block array outside its capacity, and the NULL array, cannot be read: a fault.
\<close>

definition RAMFS_BLOCK_SIZE :: u64 where
  "RAMFS_BLOCK_SIZE = 4096"

definition RAMFS_INITIAL_BLOCKS :: u32 where
  "RAMFS_INITIAL_BLOCKS = 4"

section \<open>Block arrays\<close>

definition zero_data :: ramfs_data where
  "zero_data = \<lparr>d_blocks = None, d_block_count = 0, d_block_capacity = 0\<rparr>"

definition ramfs_data_alloc :: "fs \<Rightarrow> ptr \<times> fs" where
  "ramfs_data_alloc s =
     (case new_object s of
        (None, s1) \<Rightarrow> (None, s1)
      | (Some d, s1) \<Rightarrow> (Some d, s1\<lparr>datas := (datas s1)(d \<mapsto> zero_data)\<rparr>))"

definition get_slot :: "ramfs_data \<Rightarrow> nat \<Rightarrow> ptr option" where
  "get_slot d i =
     (case d_blocks d of None \<Rightarrow> None | Some bs \<Rightarrow> if i < length bs then Some (bs ! i) else None)"

definition set_slot :: "ramfs_data \<Rightarrow> nat \<Rightarrow> ptr \<Rightarrow> ramfs_data option" where
  "set_slot d i b =
     (case d_blocks d of
        None \<Rightarrow> None
      | Some bs \<Rightarrow> if i < length bs then Some (d\<lparr>d_blocks := Some (bs[i := b])\<rparr>) else None)"

definition free_block :: "ramfs_data \<Rightarrow> nat \<Rightarrow> fs \<Rightarrow> fs option" where
  "free_block d i s =
     do { bp \<leftarrow> get_slot d i;
          case bp of None \<Rightarrow> Some s | Some b \<Rightarrow> Some (s\<lparr>blocks := (blocks s)(b := None)\<rparr>) }"

definition ramfs_data_free :: "ptr \<Rightarrow> fs \<Rightarrow> fs option" where
  "ramfs_data_free dp s =
     (case dp of
        None \<Rightarrow> Some s
      | Some di \<Rightarrow>
          do { d \<leftarrow> datas s di;
               s1 \<leftarrow> (case d_blocks d of
                       None \<Rightarrow> Some s
                     | Some _ \<Rightarrow> for_each (free_block d) [0..<unat (d_block_count d)] s);
               Some (s1\<lparr>datas := (datas s1)(di := None)\<rparr>) })"

text \<open>The doubling loop on 32-bit capacities: it does not end when the capacity wraps to 0.\<close>

partial_function (option) grow_capacity :: "u32 \<Rightarrow> u32 \<Rightarrow> u32 option" where
  "grow_capacity needed cap = (if cap < needed then grow_capacity needed (cap * 2) else Some cap)"

definition ramfs_ensure_blocks :: "nat \<Rightarrow> u32 \<Rightarrow> fs \<Rightarrow> (int \<times> fs) option" where
  "ramfs_ensure_blocks di needed s =
     do { d \<leftarrow> datas s di;
          if needed \<le> d_block_capacity d then Some (VFS_OK, s)
          else
            do { cap \<leftarrow> grow_capacity needed
                   (if d_block_capacity d \<noteq> 0 then d_block_capacity d * 2 else RAMFS_INITIAL_BLOCKS);
                 case new_object s of
                   (None, s1) \<Rightarrow> Some (VFS_ENOMEM, s1)
                 | (Some _, s1) \<Rightarrow>
                     (let n = unat (d_block_count d);
                          old = (case d_blocks d of None \<Rightarrow> [] | Some bs \<Rightarrow> take n bs);
                          d1 = d\<lparr>d_blocks := Some (old @ replicate (unat cap - length old) None),
                                d_block_capacity := cap\<rparr>
                      in Some (VFS_OK, s1\<lparr>datas := (datas s1)(di \<mapsto> d1)\<rparr>)) } }"

section \<open>Files\<close>

definition block_index :: "u64 \<Rightarrow> nat" where
  "block_index pos = unat (ucast (pos div RAMFS_BLOCK_SIZE) :: u32)"

definition block_offset :: "u64 \<Rightarrow> nat" where
  "block_offset pos = unat (pos mod RAMFS_BLOCK_SIZE)"

definition chunk_size :: "u64 \<Rightarrow> nat \<Rightarrow> nat" where
  "chunk_size pos remaining = min (unat RAMFS_BLOCK_SIZE - block_offset pos) remaining"

text \<open>What one round of the read loop puts into the buffer.\<close>

definition read_chunk :: "fs \<Rightarrow> ramfs_data \<Rightarrow> u64 \<Rightarrow> nat \<Rightarrow> u8 list option" where
  "read_chunk s d pos n =
     (if block_index pos < unat (d_block_count d) then
        do { bp \<leftarrow> get_slot d (block_index pos);
             case bp of
               None \<Rightarrow> Some (replicate n 0)
             | Some b \<Rightarrow> do { bytes \<leftarrow> blocks s b; Some (take n (drop (block_offset pos) bytes)) } }
      else Some (replicate n 0))"

lemma block_offset_less: "block_offset pos < 4096"
  unfolding block_offset_def RAMFS_BLOCK_SIZE_def by (simp add: unat_mod)

lemma chunk_size_pos: "0 < remaining \<Longrightarrow> 0 < chunk_size pos remaining"
  using block_offset_less [of pos] by (simp add: chunk_size_def RAMFS_BLOCK_SIZE_def)

function read_loop :: "fs \<Rightarrow> ramfs_data \<Rightarrow> u64 \<Rightarrow> nat \<Rightarrow> u8 list option" where
  "read_loop s d pos remaining =
     (if remaining = 0 then Some []
      else
        let chunk = chunk_size pos remaining in
        do { xs \<leftarrow> read_chunk s d pos chunk;
             ys \<leftarrow> read_loop s d (pos + of_nat chunk) (remaining - chunk);
             Some (xs @ ys) })"
  by pat_completeness auto
termination
  by (relation "measure (\<lambda>(s, d, pos, remaining). remaining)") (auto simp: chunk_size_pos)

declare read_loop.simps [simp del]

definition ramfs_file_read :: "nat \<Rightarrow> u64 \<Rightarrow> u64 \<Rightarrow> fs \<Rightarrow> (int \<times> u8 list) option" where
  "ramfs_file_read node size0 offset s =
     do { nd \<leftarrow> nodes s node;
          case n_private nd of
            None \<Rightarrow> Some (VFS_EIO, [])
          | Some di \<Rightarrow>
              do { d \<leftarrow> datas s di;
                   if n_size nd \<le> offset then Some (0, [])
                   else
                     (let sz = (if n_size nd < offset + size0 then n_size nd - offset else size0) in
                      do { bytes \<leftarrow> read_loop s d offset (unat sz); Some (sint sz, bytes) }) } }"

text \<open>Making sure that the block of a position exists; \<open>Inl\<close> when there is no memory for it.\<close>

definition need_block :: "nat \<Rightarrow> nat \<Rightarrow> fs \<Rightarrow> (fs + nat \<times> fs) option" where
  "need_block di idx s =
     do { d \<leftarrow> datas s di;
          present \<leftarrow> (if idx < unat (d_block_count d) then get_slot d idx else Some None);
          case present of
            Some b \<Rightarrow> Some (Inr (b, s))
          | None \<Rightarrow>
              (case new_object s of
                 (None, s1) \<Rightarrow> Some (Inl s1)
               | (Some b, s1) \<Rightarrow>
                   do { d1 \<leftarrow> set_slot d idx (Some b);
                        let d2 = (if unat (d_block_count d1) \<le> idx
                                  then d1\<lparr>d_block_count := of_nat idx + 1\<rparr> else d1);
                        Some (Inr (b, s1\<lparr>datas := (datas s1)(di \<mapsto> d2),
                                         blocks := (blocks s1)(b \<mapsto> replicate (unat RAMFS_BLOCK_SIZE) 0)\<rparr>)) }) }"

definition put_bytes :: "u8 list \<Rightarrow> nat \<Rightarrow> u8 list \<Rightarrow> u8 list" where
  "put_bytes bytes off xs = take off bytes @ xs @ drop (off + length xs) bytes"

text \<open>The write loop; it gives the number of bytes written before memory ran out, if it did.\<close>

function write_loop :: "nat \<Rightarrow> u64 \<Rightarrow> u8 list \<Rightarrow> fs \<Rightarrow> (bool \<times> nat \<times> fs) option" where
  "write_loop di pos src s =
     (if src = [] then Some (True, 0, s)
      else
        let chunk = chunk_size pos (length src) in
        do { r \<leftarrow> need_block di (block_index pos) s;
             case r of
               Inl s1 \<Rightarrow> Some (False, 0, s1)
             | Inr (b, s1) \<Rightarrow>
                 do { bytes \<leftarrow> blocks s1 b;
                      let s2 = s1\<lparr>blocks := (blocks s1)
                                 (b \<mapsto> put_bytes bytes (block_offset pos) (take chunk src))\<rparr>;
                      (ok, k, s3) \<leftarrow> write_loop di (pos + of_nat chunk) (drop chunk src) s2;
                      Some (ok, chunk + k, s3) } })"
  by pat_completeness auto
termination
  by (relation "measure (\<lambda>(di, pos, src, s). length src)") (auto simp: chunk_size_pos)

declare write_loop.simps [simp del]

definition set_size :: "nat \<Rightarrow> u64 \<Rightarrow> fs \<Rightarrow> fs option" where
  "set_size node sz = upd_node node (\<lambda>nd. nd\<lparr>n_size := sz\<rparr>)"

definition ramfs_file_write :: "nat \<Rightarrow> u8 list \<Rightarrow> u64 \<Rightarrow> fs \<Rightarrow> (int \<times> fs) option" where
  "ramfs_file_write node src offset s =
     do { nd \<leftarrow> nodes s node;
          case n_private nd of
            None \<Rightarrow> Some (VFS_EIO, s)
          | Some di \<Rightarrow>
              (let end_offset = offset + of_nat (length src);
                   blocks_needed = ucast ((end_offset + RAMFS_BLOCK_SIZE - 1) div RAMFS_BLOCK_SIZE) :: u32 in
               do { (err, s1) \<leftarrow> ramfs_ensure_blocks di blocks_needed s;
                    if err \<noteq> VFS_OK then Some (err, s1)
                    else
                      do { (ok, k, s2) \<leftarrow> write_loop di offset src s1;
                           if ok then
                             do { s3 \<leftarrow> (if n_size nd < end_offset then set_size node end_offset s2 else Some s2);
                                  Some (int (length src), s3) }
                           else if 0 < k then
                             do { let pos = offset + of_nat k;
                                  s3 \<leftarrow> (if n_size nd < pos then set_size node pos s2 else Some s2);
                                  Some (int k, s3) }
                           else Some (VFS_ENOMEM, s2) } }) }"

definition truncate_block :: "nat \<Rightarrow> nat \<Rightarrow> fs \<Rightarrow> fs option" where
  "truncate_block di i s =
     do { d \<leftarrow> datas s di;
          bp \<leftarrow> get_slot d i;
          case bp of
            None \<Rightarrow> Some s
          | Some b \<Rightarrow>
              do { d1 \<leftarrow> set_slot d i None;
                   Some (s\<lparr>blocks := (blocks s)(b := None), datas := (datas s)(di \<mapsto> d1)\<rparr>) } }"

definition ramfs_file_truncate :: "nat \<Rightarrow> u64 \<Rightarrow> fs \<Rightarrow> (int \<times> fs) option" where
  "ramfs_file_truncate node sz s =
     do { nd \<leftarrow> nodes s node;
          case n_private nd of
            None \<Rightarrow> Some (VFS_EIO, s)
          | Some di \<Rightarrow>
              do { s1 \<leftarrow> (if sz < n_size nd then
                           do { d \<leftarrow> datas s di;
                                let new_blocks = (ucast ((sz + RAMFS_BLOCK_SIZE - 1) div RAMFS_BLOCK_SIZE) :: u32);
                                s2 \<leftarrow> for_each (truncate_block di) [unat new_blocks..<unat (d_block_count d)] s;
                                d2 \<leftarrow> datas s2 di;
                                Some (s2\<lparr>datas := (datas s2)(di \<mapsto> d2\<lparr>d_block_count := new_blocks\<rparr>)\<rparr>) }
                         else Some s);
                   s3 \<leftarrow> set_size node sz s1;
                   Some (VFS_OK, s3) } }"

section \<open>Directories\<close>

definition ramfs_create_node :: "string \<Rightarrow> u32 \<Rightarrow> fs \<Rightarrow> (ptr \<times> fs) option" where
  "ramfs_create_node name type s =
     (case vfs_node_alloc s of
        (None, s1) \<Rightarrow> Some (None, s1)
      | (Some n, s1) \<Rightarrow>
          (let base = (\<lambda>nd. nd\<lparr>n_name := take VFS_NAME_MAX name, n_type := type, n_permissions := 0x1ED,
                               n_uid := 0, n_gid := 0, n_size := 0, n_nlink := 1\<rparr>) in
           if type = VFS_DIR then
             do { s2 \<leftarrow> upd_node n (\<lambda>nd. (base nd)\<lparr>n_ops := Some ramfs_dir_ops\<rparr>) s1; Some (Some n, s2) }
           else
             do { s2 \<leftarrow> upd_node n (\<lambda>nd. (base nd)\<lparr>n_ops := Some ramfs_file_ops\<rparr>) s1;
                  case ramfs_data_alloc s2 of
                    (None, s3) \<Rightarrow> do { s4 \<leftarrow> vfs_node_free (Some n) s3; Some (None, s4) }
                  | (Some d, s3) \<Rightarrow>
                      do { s4 \<leftarrow> upd_node n (\<lambda>nd. nd\<lparr>n_private := Some d\<rparr>) s3; Some (Some n, s4) } }))"

definition ramfs_add_child :: "nat \<Rightarrow> nat \<Rightarrow> fs \<Rightarrow> fs option" where
  "ramfs_add_child parent child s =
     do { pnd \<leftarrow> nodes s parent;
          s1 \<leftarrow> upd_node child (\<lambda>nd. nd\<lparr>n_parent := Some parent, n_next := n_children pnd, n_prev := None\<rparr>) s;
          s2 \<leftarrow> (case n_children pnd of
                  None \<Rightarrow> Some s1
                | Some c \<Rightarrow> upd_node c (\<lambda>nd. nd\<lparr>n_prev := Some child\<rparr>) s1);
          upd_node parent (\<lambda>nd. nd\<lparr>n_children := Some child\<rparr>) s2 }"

definition ramfs_remove_child :: "nat \<Rightarrow> nat \<Rightarrow> fs \<Rightarrow> fs option" where
  "ramfs_remove_child parent child s =
     do { c \<leftarrow> nodes s child;
          s1 \<leftarrow> (case n_prev c of
                  Some p \<Rightarrow> upd_node p (\<lambda>nd. nd\<lparr>n_next := n_next c\<rparr>) s
                | None \<Rightarrow> upd_node parent (\<lambda>nd. nd\<lparr>n_children := n_next c\<rparr>) s);
          s2 \<leftarrow> (case n_next c of
                  Some q \<Rightarrow> upd_node q (\<lambda>nd. nd\<lparr>n_prev := n_prev c\<rparr>) s1
                | None \<Rightarrow> Some s1);
          upd_node child (\<lambda>nd. nd\<lparr>n_parent := None, n_next := None, n_prev := None\<rparr>) s2 }"

text \<open>The walk over the children for a name.\<close>

partial_function (option) find_child :: "fs \<Rightarrow> ptr \<Rightarrow> string \<Rightarrow> ptr option" where
  "find_child s child name =
     (case child of
        None \<Rightarrow> Some None
      | Some c \<Rightarrow> do { nd \<leftarrow> nodes s c; if n_name nd = name then Some (Some c) else find_child s (n_next nd) name })"

partial_function (option) nth_child :: "fs \<Rightarrow> ptr \<Rightarrow> u32 \<Rightarrow> u32 \<Rightarrow> ptr option" where
  "nth_child s child i index =
     (case child of
        None \<Rightarrow> Some None
      | Some c \<Rightarrow> do { nd \<leftarrow> nodes s c; if i = index then Some (Some c) else nth_child s (n_next nd) (i + 1) index })"

record dirent =
  de_name :: string
  de_type :: u32
  de_inode :: nat

definition ramfs_dir_readdir :: "nat \<Rightarrow> u32 \<Rightarrow> fs \<Rightarrow> (int \<times> dirent option) option" where
  "ramfs_dir_readdir node index s =
     do { nd \<leftarrow> nodes s node;
          cp \<leftarrow> nth_child s (n_children nd) 0 index;
          case cp of
            None \<Rightarrow> Some (VFS_ENOENT, None)
          | Some c \<Rightarrow>
              do { cd \<leftarrow> nodes s c;
                   Some (VFS_OK, Some \<lparr>de_name = take VFS_NAME_MAX (n_name cd), de_type = n_type cd, de_inode = c\<rparr>) } }"

definition ramfs_dir_finddir :: "nat \<Rightarrow> string \<Rightarrow> fs \<Rightarrow> (ptr \<times> fs) option" where
  "ramfs_dir_finddir node name s =
     do { nd \<leftarrow> nodes s node;
          cp \<leftarrow> find_child s (n_children nd) name;
          s1 \<leftarrow> vfs_node_ref cp s;
          Some (cp, s1) }"

definition ramfs_dir_create :: "nat \<Rightarrow> string \<Rightarrow> u32 \<Rightarrow> fs \<Rightarrow> (int \<times> fs) option" where
  "ramfs_dir_create parent name type s =
     do { (fp, s1) \<leftarrow> ramfs_dir_finddir parent name s;
          if fp \<noteq> None then Some (VFS_EEXIST, s1)
          else
            do { (np, s2) \<leftarrow> ramfs_create_node name type s1;
                 case np of
                   None \<Rightarrow> Some (VFS_ENOMEM, s2)
                 | Some n \<Rightarrow>
                     do { pnd \<leftarrow> nodes s2 parent;
                          s3 \<leftarrow> upd_node n (\<lambda>nd. nd\<lparr>n_mount := n_mount pnd\<rparr>) s2;
                          s4 \<leftarrow> ramfs_add_child parent n s3;
                          Some (VFS_OK, s4) } } }"

definition ramfs_dir_mkdir :: "nat \<Rightarrow> string \<Rightarrow> fs \<Rightarrow> (int \<times> fs) option" where
  "ramfs_dir_mkdir parent name s = ramfs_dir_create parent name VFS_DIR s"

definition ramfs_dir_unlink :: "nat \<Rightarrow> string \<Rightarrow> fs \<Rightarrow> (int \<times> fs) option" where
  "ramfs_dir_unlink parent name s =
     do { pnd \<leftarrow> nodes s parent;
          np \<leftarrow> find_child s (n_children pnd) name;
          case np of
            None \<Rightarrow> Some (VFS_ENOENT, s)
          | Some n \<Rightarrow>
              do { nd \<leftarrow> nodes s n;
                   if n_type nd = VFS_DIR then Some (VFS_EISDIR, s)
                   else if 0 < n_open_count nd then Some (VFS_EBUSY, s)
                   else
                     do { s1 \<leftarrow> ramfs_remove_child parent n s;
                          s2 \<leftarrow> ramfs_data_free (n_private nd) s1;
                          s3 \<leftarrow> vfs_node_unref (Some n) s2;
                          Some (VFS_OK, s3) } } }"

definition ramfs_dir_rmdir :: "nat \<Rightarrow> string \<Rightarrow> fs \<Rightarrow> (int \<times> fs) option" where
  "ramfs_dir_rmdir parent name s =
     do { pnd \<leftarrow> nodes s parent;
          np \<leftarrow> find_child s (n_children pnd) name;
          case np of
            None \<Rightarrow> Some (VFS_ENOENT, s)
          | Some n \<Rightarrow>
              do { nd \<leftarrow> nodes s n;
                   if n_type nd \<noteq> VFS_DIR then Some (VFS_ENOTDIR, s)
                   else if n_children nd \<noteq> None then Some (VFS_ENOTEMPTY, s)
                   else if 0 < n_open_count nd then Some (VFS_EBUSY, s)
                   else
                     do { s1 \<leftarrow> ramfs_remove_child parent n s;
                          s2 \<leftarrow> vfs_node_unref (Some n) s1;
                          Some (VFS_OK, s2) } } }"

definition ramfs_dir_rename :: "nat \<Rightarrow> string \<Rightarrow> nat \<Rightarrow> string \<Rightarrow> fs \<Rightarrow> (int \<times> fs) option" where
  "ramfs_dir_rename old_parent old_name new_parent new_name s =
     do { ond \<leftarrow> nodes s old_parent;
          np \<leftarrow> find_child s (n_children ond) old_name;
          case np of
            None \<Rightarrow> Some (VFS_ENOENT, s)
          | Some n \<Rightarrow>
              do { nd \<leftarrow> nodes s n;
                   if 0 < n_open_count nd then Some (VFS_EBUSY, s)
                   else
                     do { nnd \<leftarrow> nodes s new_parent;
                          tp \<leftarrow> find_child s (n_children nnd) new_name;
                          if tp \<noteq> None then Some (VFS_EEXIST, s)
                          else
                            do { s1 \<leftarrow> ramfs_remove_child old_parent n s;
                                 s2 \<leftarrow> upd_node n (\<lambda>nd. nd\<lparr>n_name := take VFS_NAME_MAX new_name\<rparr>) s1;
                                 s3 \<leftarrow> ramfs_add_child new_parent n s2;
                                 Some (VFS_OK, s3) } } } }"

definition ramfs_mount :: "fs \<Rightarrow> (ptr \<times> fs) option" where
  "ramfs_mount s = ramfs_create_node [] VFS_DIR s"

end
