(* ===== verification/Ramfs_Data.thy ===== *)
theory Ramfs_Data
  imports Ramfs
begin

text \<open>
  The file data of ramfs: \<open>raw\<close> reads the block array as one sequence of bytes, \<open>data_ok\<close> is the invariant of a
  block array.  Reading and writing are described on \<open>raw\<close>.
\<close>

section \<open>Reading a block array as bytes\<close>

definition raw :: "fs \<Rightarrow> ramfs_data \<Rightarrow> nat \<Rightarrow> u8" where
  "raw s d i =
     (if i div 4096 < unat (d_block_count d) then
        (case get_slot d (i div 4096) of
           Some (Some b) \<Rightarrow> (case blocks s b of Some bytes \<Rightarrow> bytes ! (i mod 4096) | None \<Rightarrow> 0)
         | _ \<Rightarrow> 0)
      else 0)"

definition data_ok :: "fs \<Rightarrow> ramfs_data \<Rightarrow> bool" where
  "data_ok s d \<longleftrightarrow>
     (case d_blocks d of
        None \<Rightarrow> d_block_count d = 0 \<and> d_block_capacity d = 0
      | Some bs \<Rightarrow> length bs = unat (d_block_capacity d)) \<and>
     unat (d_block_count d) \<le> unat (d_block_capacity d) \<and>
     (\<forall>i b. get_slot d i = Some (Some b) \<longrightarrow>
        i < unat (d_block_count d) \<and> b < requests (fs_pool s) \<and> (\<exists>bytes. blocks s b = Some bytes \<and> length bytes = 4096)) \<and>
     (\<forall>i j b. get_slot d i = Some (Some b) \<and> get_slot d j = Some (Some b) \<longrightarrow> i = j)"

lemma data_okD:
  assumes "data_ok s d"
  shows "unat (d_block_count d) \<le> unat (d_block_capacity d)"
    "i < unat (d_block_capacity d) \<Longrightarrow> \<exists>bp. get_slot d i = Some bp"
    "get_slot d i = Some (Some b) \<Longrightarrow> i < unat (d_block_count d) \<and> b < requests (fs_pool s)"
    "get_slot d i = Some (Some b) \<Longrightarrow> \<exists>bytes. blocks s b = Some bytes \<and> length bytes = 4096"
    "get_slot d i = Some (Some b) \<Longrightarrow> get_slot d j = Some (Some b) \<Longrightarrow> i = j"
  using assms by (auto simp: data_ok_def get_slot_def split: option.splits if_splits)

lemma block_index_eq:
  assumes "unat pos < 2 ^ 44"
  shows "block_index pos = unat pos div 4096" "block_offset pos = unat pos mod 4096"
proof -
  have "unat (pos div 4096) = unat pos div 4096" by (simp add: unat_div)
  moreover have "unat pos div 4096 < 2 ^ 32" using assms by (simp add: less_mult_imp_div_less)
  ultimately show "block_index pos = unat pos div 4096"
    by (simp add: block_index_def RAMFS_BLOCK_SIZE_def unsigned_ucast_eq take_bit_nat_eq_self)
  show "block_offset pos = unat pos mod 4096" by (simp add: block_offset_def RAMFS_BLOCK_SIZE_def unat_mod)
qed

lemma chunk_size_eq:
  assumes "unat pos < 2 ^ 44"
  shows "chunk_size pos n = min (4096 - unat pos mod 4096) n"
  using block_index_eq [OF assms] by (simp add: chunk_size_def RAMFS_BLOCK_SIZE_def)

lemma same_block:
  fixes p i :: nat
  assumes "i < 4096 - p mod 4096"
  shows "(p + i) div 4096 = p div 4096" "(p + i) mod 4096 = p mod 4096 + i"
proof -
  have "p + i = p div 4096 * 4096 + (p mod 4096 + i)" by simp
  moreover have "p mod 4096 + i < 4096" using assms by simp
  ultimately show "(p + i) div 4096 = p div 4096" "(p + i) mod 4096 = p mod 4096 + i"
    by (metis add.commute div_less div_mult_self3 zero_neq_numeral add.right_neutral, metis mod_less mod_mult_self3)
qed

lemma read_chunk_raw:
  assumes "data_ok s d" "unat pos < 2 ^ 44" "n \<le> 4096 - unat pos mod 4096"
  shows "read_chunk s d pos n = Some (map (raw s d) [unat pos..<unat pos + n])"
proof -
  note D = data_okD [OF assms(1)] and I = block_index_eq [OF assms(2)]
  have blk: "(unat pos + i) div 4096 = unat pos div 4096" "(unat pos + i) mod 4096 = unat pos mod 4096 + i" if "i < n" for i
    using same_block [of i "unat pos"] that assms(3) by simp_all
  show ?thesis
  proof (cases "unat pos div 4096 < unat (d_block_count d)")
    case False
    then have "raw s d (unat pos + i) = 0" if "i < n" for i using blk [OF that] by (simp add: raw_def)
    then show ?thesis using False I by (auto simp: read_chunk_def intro!: nth_equalityI)
  next
    case True
    then obtain bp where bp: "get_slot d (unat pos div 4096) = Some bp" using D(1,2) less_le_trans by blast
    show ?thesis
    proof (cases bp)
      case None
      then have "raw s d (unat pos + i) = 0" if "i < n" for i using blk [OF that] bp by (simp add: raw_def)
      then show ?thesis using True I bp None by (auto simp: read_chunk_def intro!: nth_equalityI)
    next
      case (Some b)
      obtain bytes where bytes: "blocks s b = Some bytes" "length bytes = 4096" using D(4) bp Some by blast
      have "raw s d (unat pos + i) = bytes ! (unat pos mod 4096 + i)" if "i < n" for i
        using blk [OF that] bp Some bytes True by (simp add: raw_def)
      then show ?thesis
        using True I bp Some bytes assms(3) by (auto simp: read_chunk_def intro!: nth_equalityI)
    qed
  qed
qed

lemma read_loop_raw:
  assumes "data_ok s d" "unat pos + n \<le> 2 ^ 44"
  shows "read_loop s d pos n = Some (map (raw s d) [unat pos..<unat pos + n])"
  using assms(2)
proof (induction n arbitrary: pos rule: less_induct)
  case (less n)
  show ?case
  proof (cases "n = 0")
    case True
    then show ?thesis by (simp add: read_loop.simps)
  next
    case False
    then have pos: "unat pos < 2 ^ 44" using less.prems by simp
    let ?k = "chunk_size pos n"
    have k: "0 < ?k" "?k \<le> n" "?k \<le> 4096 - unat pos mod 4096"
      using False chunk_size_pos [of n pos] by (simp_all add: chunk_size_eq [OF pos])
    have up: "unat (pos + of_nat ?k) = unat pos + ?k"
      using k(2) less.prems by (simp add: unat_word_ariths unat_of_nat)
    have "read_loop s d (pos + of_nat ?k) (n - ?k) = Some (map (raw s d) [unat pos + ?k..<unat pos + n])"
      using less.IH [of "n - ?k" "pos + of_nat ?k"] k False less.prems up by simp
    moreover have "[unat pos..<unat pos + n] = [unat pos..<unat pos + ?k] @ [unat pos + ?k..<unat pos + n]"
      using upt_add_eq_append [of "unat pos" "unat pos + ?k" "n - ?k"] k(2) by simp
    ultimately show ?thesis
      using False read_chunk_raw [OF assms(1) pos k(3)] by (subst read_loop.simps) (simp add: Let_def)
  qed
qed

section \<open>Writing\<close>

definition only_pool :: "fs \<Rightarrow> fs \<Rightarrow> bool" where
  "only_pool s s' \<longleftrightarrow> nodes s' = nodes s \<and> blocks s' = blocks s \<and> datas s' = datas s \<and>
     requests (fs_pool s) \<le> requests (fs_pool s')"

lemma new_object_cases:
  obtains (fail) s1 where "new_object s = (None, s1)" "only_pool s s1"
  | (ok) s1 where "new_object s = (Some (requests (fs_pool s)), s1)" "only_pool s s1"
      "requests (fs_pool s1) = Suc (requests (fs_pool s))"
  by (cases "grants (fs_pool s) (requests (fs_pool s))")
    (simp_all add: new_object_def pool_alloc_def only_pool_def)

lemma get_slot_set:
  assumes "set_slot d i b = Some d'"
  shows "get_slot d' j = (if j = i then Some b else get_slot d j)" "d_block_count d' = d_block_count d"
    "d_block_capacity d' = d_block_capacity d"
  using assms by (auto simp: set_slot_def get_slot_def split: option.splits if_splits)

lemma set_slot_ok: "get_slot d i = Some bp \<Longrightarrow> \<exists>d'. set_slot d i b = Some d'"
  by (auto simp: set_slot_def get_slot_def split: option.splits if_splits)

lemma data_okI:
  assumes "case d_blocks d of None \<Rightarrow> d_block_count d = 0 \<and> d_block_capacity d = 0
      | Some bs \<Rightarrow> length bs = unat (d_block_capacity d)"
    and "unat (d_block_count d) \<le> unat (d_block_capacity d)"
    and "\<And>i b. get_slot d i = Some (Some b) \<Longrightarrow> i < unat (d_block_count d) \<and> b < requests (fs_pool s)"
    and "\<And>i b. get_slot d i = Some (Some b) \<Longrightarrow> \<exists>bytes. blocks s b = Some bytes \<and> length bytes = 4096"
    and "\<And>i j b. get_slot d i = Some (Some b) \<Longrightarrow> get_slot d j = Some (Some b) \<Longrightarrow> i = j"
  shows "data_ok s d"
proof -
  have "\<forall>i b. get_slot d i = Some (Some b) \<longrightarrow>
      i < unat (d_block_count d) \<and> b < requests (fs_pool s) \<and> (\<exists>bytes. blocks s b = Some bytes \<and> length bytes = 4096)"
    using assms(3,4) by metis
  moreover have "\<forall>i j b. get_slot d i = Some (Some b) \<and> get_slot d j = Some (Some b) \<longrightarrow> i = j"
    using assms(5) by metis
  ultimately show ?thesis unfolding data_ok_def using assms(1,2) by (intro conjI)
qed

lemma only_pool_data:
  assumes "only_pool s s'" "data_ok s d"
  shows "data_ok s' d" "raw s' d = raw s d"
proof -
  have eq: "blocks s' = blocks s" "requests (fs_pool s) \<le> requests (fs_pool s')" using assms(1) by (simp_all add: only_pool_def)
  note D = data_okD [OF assms(2)]
  show "data_ok s' d"
  proof (rule data_okI)
    show "i < unat (d_block_count d) \<and> b < requests (fs_pool s')" if "get_slot d i = Some (Some b)" for i b
      using D(3) [OF that] eq(2) by simp
  qed (use assms(2) D(1,4,5) eq(1) in \<open>simp_all add: data_ok_def\<close>)
  show "raw s' d = raw s d" unfolding raw_def eq(1) ..
qed

text \<open>A new block reads as zeros, like the hole it fills.\<close>

lemma add_block:
  assumes ok: "data_ok s d" and cap: "idx < unat (d_block_capacity d)" and hole: "get_slot d idx = Some None"
    and b: "b = requests (fs_pool s)" and s1: "only_pool s s1" "requests (fs_pool s1) = Suc b"
  obtains d2 where "do { d1 \<leftarrow> set_slot d idx (Some b);
        Some (if unat (d_block_count d1) \<le> idx then d1\<lparr>d_block_count := of_nat idx + 1\<rparr> else d1) } = Some d2"
    "get_slot d2 idx = Some (Some b)" "idx < unat (d_block_count d2)" "d_block_capacity d2 = d_block_capacity d"
    "\<forall>dt. data_ok (s1\<lparr>datas := dt, blocks := (blocks s1)(b \<mapsto> replicate 4096 0)\<rparr>) d2"
    "\<forall>dt. raw (s1\<lparr>datas := dt, blocks := (blocks s1)(b \<mapsto> replicate 4096 0)\<rparr>) d2 = raw s d"
proof -
  note D = data_okD [OF ok]
  obtain d1 where d1: "set_slot d idx (Some b) = Some d1" using set_slot_ok [OF hole] by blast
  note g = get_slot_set [OF d1]
  define d2 where "d2 = (if unat (d_block_count d1) \<le> idx then d1\<lparr>d_block_count := of_nat idx + 1\<rparr> else d1)"
  let ?s2 = "\<lambda>dt. s1\<lparr>datas := dt, blocks := (blocks s1)(b \<mapsto> replicate 4096 0)\<rparr>"
  have "unat (d_block_capacity d) < 2 ^ LENGTH(32)" by (rule unsigned_less)
  then have "unat (of_nat idx + 1 :: u32) = idx + 1" using cap by (simp add: unat_word_ariths unat_of_nat)
  then have cnt: "unat (d_block_count d2) = max (unat (d_block_count d)) (idx + 1)"
    using g(2) by (auto simp: d2_def)
  have slot: "get_slot d2 j = (if j = idx then Some (Some b) else get_slot d j)" for j
    using g(1) by (simp add: d2_def get_slot_def)
  have bl: "blocks s1 = blocks s" "requests (fs_pool s1) = Suc (requests (fs_pool s))"
    using s1 b by (simp_all add: only_pool_def)
  have fresh: "get_slot d j \<noteq> Some (Some b)" for j using D(3) [of j b] b by auto
  have ok2: "data_ok (?s2 dt) d2" for dt
  proof (rule data_okI)
    show "case d_blocks d2 of None \<Rightarrow> d_block_count d2 = 0 \<and> d_block_capacity d2 = 0
        | Some bs \<Rightarrow> length bs = unat (d_block_capacity d2)"
      using ok d1 by (auto simp: data_ok_def set_slot_def d2_def split: option.splits if_splits)
    show "unat (d_block_count d2) \<le> unat (d_block_capacity d2)"
      using cnt D(1) cap g(3) by (simp add: d2_def)
    show "i < unat (d_block_count d2) \<and> c < requests (fs_pool (?s2 dt))" if "get_slot d2 i = Some (Some c)" for i c
      using that D(3) [of i c] cnt bl b by (auto simp: slot split: if_splits)
    show "\<exists>bytes. blocks (?s2 dt) c = Some bytes \<and> length bytes = 4096" if "get_slot d2 i = Some (Some c)" for i c
      using that D(4) [of i c] bl by (auto simp: slot split: if_splits)
    show "i = j" if "get_slot d2 i = Some (Some c)" "get_slot d2 j = Some (Some c)" for i j c
      using that D(5) [of i c j] fresh by (auto simp: slot split: if_splits)
  qed
  have "raw (?s2 dt) d2 i = raw s d i" for i dt
  proof (cases "i div 4096 = idx")
    case True
    then show ?thesis using cnt slot hole by (simp add: raw_def)
  next
    case False
    then have "i div 4096 < unat (d_block_count d2) \<longleftrightarrow> i div 4096 < unat (d_block_count d) \<or>
        (unat (d_block_count d) \<le> i div 4096 \<and> i div 4096 < idx)" using cnt by auto
    then show ?thesis
      using False slot [of "i div 4096"] bl fresh [of "i div 4096"] D(3) [of "i div 4096"]
      by (auto simp: raw_def split: option.splits)
  qed
  then have rw: "raw (?s2 dt) d2 = raw s d" for dt by (simp add: fun_eq_iff)
  show thesis
    by (rule that [of d2]) (use d1 slot cnt g(3) ok2 rw in \<open>simp_all add: d2_def [symmetric]\<close>, simp add: d2_def)
qed

text \<open>What the steps of a write keep: every node, and the data of every other file.\<close>

definition same_files :: "nat \<Rightarrow> fs \<Rightarrow> fs \<Rightarrow> bool" where
  "same_files di s s' \<longleftrightarrow> nodes s' = nodes s \<and> (\<forall>e. e \<noteq> di \<longrightarrow> datas s' e = datas s e)"

lemma need_block_spec:
  assumes d: "datas s di = Some d" and ok: "data_ok s d" and cap: "idx < unat (d_block_capacity d)"
  shows "(\<exists>s1. need_block di idx s = Some (Inl s1) \<and> only_pool s s1) \<or>
    (\<exists>b s1 d1 bytes. need_block di idx s = Some (Inr (b, s1)) \<and> same_files di s s1 \<and> datas s1 di = Some d1 \<and>
       data_ok s1 d1 \<and> raw s1 d1 = raw s d \<and> d_block_capacity d1 = d_block_capacity d \<and>
       get_slot d1 idx = Some (Some b) \<and> idx < unat (d_block_count d1) \<and> blocks s1 b = Some bytes \<and> length bytes = 4096)"
proof -
  note D = data_okD [OF ok]
  obtain bp where slot: "get_slot d idx = Some bp" using D(2) [OF cap] by blast
  have hole: "idx < unat (d_block_count d)" if "bp \<noteq> None" using D(3) slot that by blast
  show ?thesis
  proof (cases bp)
    case (Some b)
    then have "need_block di idx s = Some (Inr (b, s))" using d hole slot by (simp add: need_block_def)
    then show ?thesis using d ok slot Some hole D(4) by (auto simp: same_files_def)
  next
    case None
    then have pres: "(if idx < unat (d_block_count d) then get_slot d idx else Some None) = Some None" using slot by simp
    show ?thesis
    proof (cases rule: new_object_cases [of s])
      case (fail s1)
      then have "need_block di idx s = Some (Inl s1)" using d pres by (simp add: need_block_def)
      then show ?thesis using fail(2) by blast
    next
      case (ok s1)
      let ?b = "requests (fs_pool s)"
      have hol: "get_slot d idx = Some None" using slot None by simp
      obtain d2 where d2: "do { d1 \<leftarrow> set_slot d idx (Some ?b);
            Some (if unat (d_block_count d1) \<le> idx then d1\<lparr>d_block_count := of_nat idx + 1\<rparr> else d1) } = Some d2"
          "get_slot d2 idx = Some (Some ?b)" "idx < unat (d_block_count d2)" "d_block_capacity d2 = d_block_capacity d"
          "\<forall>dt. data_ok (s1\<lparr>datas := dt, blocks := (blocks s1)(?b \<mapsto> replicate 4096 0)\<rparr>) d2"
          "\<forall>dt. raw (s1\<lparr>datas := dt, blocks := (blocks s1)(?b \<mapsto> replicate 4096 0)\<rparr>) d2 = raw s d"
        by (rule add_block [OF assms(2) cap hol refl ok(2,3)])
      let ?s2 = "s1\<lparr>datas := (datas s1)(di \<mapsto> d2), blocks := (blocks s1)(?b \<mapsto> replicate 4096 0)\<rparr>"
      have "need_block di idx s = Some (Inr (?b, ?s2))"
        using d pres ok(1) d2(1) by (auto simp: need_block_def bind_eq_Some_conv RAMFS_BLOCK_SIZE_def)
      moreover have "same_files di s ?s2" using ok(2) by (simp add: same_files_def only_pool_def)
      moreover have "datas ?s2 di = Some d2" "blocks ?s2 ?b = Some (replicate 4096 0)" by simp_all
      moreover have "length (replicate 4096 0 :: u8 list) = 4096" by simp
      ultimately show ?thesis using d2(2-4) spec [OF d2(5), of "(datas s1)(di \<mapsto> d2)"] spec [OF d2(6), of "(datas s1)(di \<mapsto> d2)"] by blast
    qed
  qed
qed

lemma put_bytes_nth:
  assumes "length bytes = 4096" "off + length xs \<le> 4096" "i < 4096"
  shows "put_bytes bytes off xs ! i = (if off \<le> i \<and> i < off + length xs then xs ! (i - off) else bytes ! i)"
    "length (put_bytes bytes off xs) = 4096"
  using assms by (auto simp: put_bytes_def nth_append)

lemma put_block:
  assumes ok: "data_ok s d" and slot: "get_slot d idx = Some (Some b)" and b: "blocks s b = Some bytes"
    and xs: "off + length xs \<le> 4096"
  defines "s' \<equiv> s\<lparr>blocks := (blocks s)(b \<mapsto> put_bytes bytes off xs)\<rparr>"
  shows "data_ok s' d"
    "raw s' d i = (if idx * 4096 + off \<le> i \<and> i < idx * 4096 + off + length xs then xs ! (i - (idx * 4096 + off)) else raw s d i)"
proof -
  note D = data_okD [OF ok]
  have len: "length bytes = 4096" using D(4) [OF slot] b by simp
  show "data_ok s' d"
  proof (rule data_okI)
    show "\<exists>bs. blocks s' c = Some bs \<and> length bs = 4096" if "get_slot d j = Some (Some c)" for j c
      using D(4) [OF that] put_bytes_nth(2) [OF len xs, of 0] by (auto simp: s'_def)
  qed (use ok D(1,3,5) in \<open>auto simp: data_ok_def s'_def\<close>)
  show "raw s' d i = (if idx * 4096 + off \<le> i \<and> i < idx * 4096 + off + length xs then xs ! (i - (idx * 4096 + off)) else raw s d i)"
  proof (cases "i div 4096 = idx")
    case True
    then have i: "i = idx * 4096 + i mod 4096" by (metis div_mult_mod_eq)
    have "raw s' d i = put_bytes bytes off xs ! (i mod 4096)" "raw s d i = bytes ! (i mod 4096)"
      using True slot b D(3) [OF slot] by (simp_all add: raw_def s'_def)
    moreover have "off \<le> i mod 4096 \<longleftrightarrow> idx * 4096 + off \<le> i" "i mod 4096 < off + length xs \<longleftrightarrow> i < idx * 4096 + off + length xs"
      "i mod 4096 - off = i - (idx * 4096 + off)" using i by linarith+
    ultimately show ?thesis using put_bytes_nth(1) [OF len xs, of "i mod 4096"] by simp
  next
    case False
    then have "get_slot d (i div 4096) \<noteq> Some (Some b)" using D(5) [OF slot] by blast
    then have "raw s' d i = raw s d i" by (auto simp: raw_def s'_def split: option.splits)
    moreover have "\<not> (idx * 4096 + off \<le> i \<and> i < idx * 4096 + off + length xs)"
    proof
      assume h: "idx * 4096 + off \<le> i \<and> i < idx * 4096 + off + length xs"
      then have "idx * 4096 \<le> i" "i < Suc idx * 4096" using xs by auto
      then have "i div 4096 = idx" by (metis div_nat_eqI mult.commute)
      then show False using False by simp
    qed
    ultimately show ?thesis by (simp only: if_False)
  qed
qed

definition written :: "nat \<Rightarrow> u8 list \<Rightarrow> (nat \<Rightarrow> u8) \<Rightarrow> nat \<Rightarrow> u8" where
  "written p xs f = (\<lambda>i. if p \<le> i \<and> i < p + length xs then xs ! (i - p) else f i)"

lemma written_Nil [simp]: "written p [] f = f"
  by (auto simp: written_def fun_eq_iff)

lemma written_append: "written (p + length xs) ys (written p xs f) = written p (xs @ ys) f"
  by (auto simp: written_def fun_eq_iff nth_append)

lemma write_loop_spec:
  assumes "datas s di = Some d" "data_ok s d" "unat pos + length src \<le> 2 ^ 44"
    "unat pos + length src \<le> unat (d_block_capacity d) * 4096"
  shows "\<exists>ok k s' d'. write_loop di pos src s = Some (ok, k, s') \<and> k \<le> length src \<and> (ok \<longrightarrow> k = length src) \<and>
    same_files di s s' \<and> datas s' di = Some d' \<and> data_ok s' d' \<and> raw s' d' = written (unat pos) (take k src) (raw s d)"
  using assms
proof (induction "length src" arbitrary: src pos s d rule: less_induct)
  case less
  show ?case
  proof (cases "src = []")
    case True
    then show ?thesis using less.prems by (auto simp: write_loop.simps same_files_def)
  next
    case False
    let ?k = "chunk_size pos (length src)" and ?idx = "unat pos div 4096"
    have pos: "unat pos < 2 ^ 44" using less.prems(3) False by (cases src) auto
    note I = block_index_eq [OF pos]
    have k: "0 < ?k" "?k \<le> length src" "?k \<le> 4096 - unat pos mod 4096"
      using False chunk_size_pos [of "length src" pos] by (simp_all add: chunk_size_eq [OF pos])
    have idx: "?idx < unat (d_block_capacity d)"
      using less.prems(4) False by (intro less_mult_imp_div_less) (cases src; simp)
    have up: "unat (pos + of_nat ?k) = unat pos + ?k"
      using k(2) less.prems(3) by (simp add: unat_word_ariths unat_of_nat)
    from need_block_spec [OF less.prems(1,2) idx] show ?thesis
    proof (elim disjE exE conjE)
      fix s1
      assume n: "need_block di ?idx s = Some (Inl s1)" "only_pool s s1"
      then have "write_loop di pos src s = Some (False, 0, s1)"
        using False by (subst write_loop.simps) (simp add: Let_def I)
      moreover have "same_files di s s1" "datas s1 di = Some d"
        using n(2) less.prems(1) by (simp_all add: only_pool_def same_files_def)
      ultimately show ?thesis
        using only_pool_data [OF n(2) less.prems(2)] by auto
    next
      fix b s1 d1 bytes
      assume n: "need_block di ?idx s = Some (Inr (b, s1))" "same_files di s s1" "datas s1 di = Some d1" "data_ok s1 d1"
        "raw s1 d1 = raw s d" "d_block_capacity d1 = d_block_capacity d" "get_slot d1 ?idx = Some (Some b)"
        "?idx < unat (d_block_count d1)" "blocks s1 b = Some bytes" "length bytes = 4096"
      let ?xs = "take ?k src"
      let ?s2 = "s1\<lparr>blocks := (blocks s1)(b \<mapsto> put_bytes bytes (unat pos mod 4096) ?xs)\<rparr>"
      have len: "length ?xs = ?k" using k(2) by simp
      have fit: "unat pos mod 4096 + length ?xs \<le> 4096" using k(3) len by simp
      note pb = put_block [OF n(4,7,9) fit]
      have r2: "raw ?s2 d1 = written (unat pos) ?xs (raw s d)"
        using pb(2) n(5) by (simp add: written_def fun_eq_iff)
      have "length (drop ?k src) < length src" "datas ?s2 di = Some d1"
        "unat (pos + of_nat ?k) + length (drop ?k src) \<le> 2 ^ 44"
        "unat (pos + of_nat ?k) + length (drop ?k src) \<le> unat (d_block_capacity d1) * 4096"
        using k(1,2) False n(3,6) less.prems(3,4) up by simp_all
      from less.hyps [OF this(1,2) pb(1) this(3,4)]
      obtain ok k2 s' d' where w: "write_loop di (pos + of_nat ?k) (drop ?k src) ?s2 = Some (ok, k2, s')"
          "k2 \<le> length (drop ?k src)" "ok \<longrightarrow> k2 = length (drop ?k src)" "same_files di ?s2 s'" "datas s' di = Some d'"
          "data_ok s' d'" "raw s' d' = written (unat (pos + of_nat ?k)) (take k2 (drop ?k src)) (raw ?s2 d1)"
        by blast
      have "write_loop di pos src s = Some (ok, ?k + k2, s')"
        using False n(1,9) w(1) by (subst write_loop.simps) (simp add: Let_def I)
      moreover have "raw s' d' = written (unat pos) (take (?k + k2) src) (raw s d)"
        unfolding w(7) r2 up using written_append [of "unat pos" ?xs "take k2 (drop ?k src)"] len by (simp add: take_add)
      moreover have "same_files di s s'" using n(2) w(4) by (simp add: same_files_def)
      ultimately show ?thesis using w(2,3,5,6) k(2) by fastforce
    qed
  qed
qed

lemma grow_capacity_ends:
  assumes "0 < unat cap" "unat needed \<le> 2 ^ 31"
  shows "\<exists>c. grow_capacity needed cap = Some c \<and> needed \<le> c"
  using assms
proof (induction "unat needed - unat cap" arbitrary: cap rule: less_induct)
  case less
  show ?case
  proof (cases "cap < needed")
    case True
    then have lt: "unat cap < unat needed" by (simp add: word_less_nat_alt)
    then have "unat (cap * 2) = 2 * unat cap" using less.prems(2) by (simp add: unat_word_ariths)
    then show ?thesis
      using less.hyps [of "cap * 2"] less.prems True lt by (simp add: grow_capacity.simps [of needed cap])
  next
    case False
    then have "grow_capacity needed cap = Some cap" by (subst grow_capacity.simps) simp
    then show ?thesis using False by (simp add: not_less)
  qed
qed

lemma grow_capacity_zero_aux: "grow_capacity needed cap = Some r \<Longrightarrow> cap = 0 \<Longrightarrow> 0 < needed \<Longrightarrow> False"
  by (induction rule: grow_capacity.raw_induct [rotated, consumes 1]) (auto split: if_splits)

lemma grow_capacity_zero: "0 < needed \<Longrightarrow> grow_capacity needed 0 = None"
  using grow_capacity_zero_aux [of needed 0] by (cases "grow_capacity needed 0") auto

end
