(* ===== verification/Ramfs_Files.thy ===== *)
theory Ramfs_Files
  imports Ramfs_Data
begin

text \<open>
  Properties of ramfs files: reading, writing, their round trip, and three defects of truncation and growth.
\<close>

lemma sint_small:
  assumes "unat (x :: u64) < 2 ^ 63"
  shows "sint x = int (unat x)"
proof -
  have "int (unat x) < 2 ^ 63" using assms by (metis of_nat_less_iff of_nat_numeral of_nat_power)
  then have "uint x < 2 ^ 63" by simp
  then have "signed_take_bit 63 (uint x) = uint x" by (intro signed_take_bit_int_eq_self) (simp_all add: order.trans [of _ 0])
  then show ?thesis by (simp add: sint_uint)
qed

lemma raw_cong: "blocks s' = blocks s \<Longrightarrow> raw s' d = raw s d"
proof -
  assume eq: "blocks s' = blocks s"
  show ?thesis unfolding raw_def eq ..
qed

section \<open>Growing the block array\<close>

lemma ensure_blocks_spec:
  assumes d: "datas s di = Some d" and ok: "data_ok s d" and n: "unat needed \<le> 2 ^ 31"
  shows "\<exists>err s1 d1. ramfs_ensure_blocks di needed s = Some (err, s1) \<and> same_files di s s1 \<and> datas s1 di = Some d1 \<and>
    data_ok s1 d1 \<and> raw s1 d1 = raw s d \<and> (err = 0 \<and> unat needed \<le> unat (d_block_capacity d1) \<or> err = -12)"
proof (cases "needed \<le> d_block_capacity d")
  case True
  then show ?thesis using d ok by (auto simp: ramfs_ensure_blocks_def same_files_def word_le_nat_alt)
next
  case False
  note D = data_okD [OF ok]
  let ?c0 = "if d_block_capacity d \<noteq> 0 then d_block_capacity d * 2 else RAMFS_INITIAL_BLOCKS"
  have "0 < unat ?c0"
  proof (cases "d_block_capacity d = 0")
    case nz: False
    have "unat (d_block_capacity d) < 2 ^ 31" using False n by (simp add: word_le_nat_alt)
    then have "unat (d_block_capacity d * 2) = unat (d_block_capacity d) * 2" by (simp add: unat_word_ariths)
    then show ?thesis using nz by (simp add: unat_gt_0)
  qed (simp add: RAMFS_INITIAL_BLOCKS_def)
  then obtain c where c: "grow_capacity needed ?c0 = Some c" "needed \<le> c" using grow_capacity_ends [OF _ n] by blast
  have cap: "unat (d_block_capacity d) < unat c" using False c(2) by (simp add: word_le_nat_alt)
  show ?thesis
  proof (cases rule: new_object_cases [of s])
    case (fail s1)
    then have "ramfs_ensure_blocks di needed s = Some (-12, s1)" using d False c(1) by (simp add: ramfs_ensure_blocks_def)
    moreover have "same_files di s s1" "datas s1 di = Some d" using fail(2) d by (simp_all add: only_pool_def same_files_def)
    ultimately show ?thesis using only_pool_data [OF fail(2) ok] by blast
  next
    case (ok s1)
    define old where "old = (case d_blocks d of None \<Rightarrow> [] | Some bs \<Rightarrow> take (unat (d_block_count d)) bs)"
    define d1 where "d1 = d\<lparr>d_blocks := Some (old @ replicate (unat c - length old) None), d_block_capacity := c\<rparr>"
    let ?s2 = "s1\<lparr>datas := (datas s1)(di \<mapsto> d1)\<rparr>"
    have len: "length old = unat (d_block_count d)"
      using \<open>data_ok s d\<close> by (auto simp: data_ok_def old_def split: option.splits)
    then have tot: "length (old @ replicate (unat c - length old) None) = unat c" using D(1) cap by simp
    have slot: "get_slot d1 i = (if i < unat (d_block_count d) then get_slot d i else if i < unat c then Some None else None)" for i
    proof (cases "i < unat (d_block_count d)")
      case True
      then obtain bs where bs: "d_blocks d = Some bs" "length bs = unat (d_block_capacity d)"
        using \<open>data_ok s d\<close> by (auto simp: data_ok_def split: option.splits)
      then show ?thesis using True len tot D(1) cap by (simp add: get_slot_def d1_def nth_append old_def)
    next
      case False
      then show ?thesis using len tot by (auto simp: get_slot_def d1_def nth_append)
    qed
    have "data_ok s1 d1"
    proof (rule data_okI)
      show "i < unat (d_block_count d1) \<and> b < requests (fs_pool s1)" if "get_slot d1 i = Some (Some b)" for i b
        using that slot D(3) [of i b] ok(3) by (auto simp: d1_def split: if_splits)
      show "\<exists>bytes. blocks s1 b = Some bytes \<and> length bytes = 4096" if "get_slot d1 i = Some (Some b)" for i b
        using that slot D(4) [of i b] ok(2) by (auto simp: only_pool_def split: if_splits)
      show "i = j" if "get_slot d1 i = Some (Some b)" "get_slot d1 j = Some (Some b)" for i j b
        using that slot D(5) [of i b j] by (auto split: if_splits)
    qed (use tot D(1) cap in \<open>simp_all add: d1_def\<close>)
    then have ok2: "data_ok ?s2 d1" by (simp add: data_ok_def)
    have "blocks ?s2 = blocks s" "d_block_count d1 = d_block_count d"
      using ok(2) by (simp_all add: only_pool_def d1_def)
    then have "raw ?s2 d1 i = raw s d i" for i unfolding raw_def by (simp only: slot) simp
    then have "raw ?s2 d1 = raw s d" by (simp add: fun_eq_iff)
    moreover have "ramfs_ensure_blocks di needed s = Some (0, ?s2)"
      using d False c(1) ok(1) by (simp add: ramfs_ensure_blocks_def Let_def d1_def old_def)
    moreover have "same_files di s ?s2" using ok(2) by (simp add: only_pool_def same_files_def)
    moreover have "datas ?s2 di = Some d1" "unat needed \<le> unat (d_block_capacity d1)"
      using c(2) by (simp_all add: d1_def word_le_nat_alt)
    ultimately show ?thesis using ok2 by blast
  qed
qed

section \<open>Writing and reading\<close>

definition grown_size :: "u64 \<Rightarrow> u64 \<Rightarrow> u64" where
  "grown_size sz e = (if sz < e then e else sz)"

lemma blocks_needed:
  assumes "unat offset + n \<le> 2 ^ 43"
  defines "needed \<equiv> ucast ((offset + of_nat n + RAMFS_BLOCK_SIZE - 1) div RAMFS_BLOCK_SIZE) :: u32"
  shows "unat needed \<le> 2 ^ 31" "unat offset + n \<le> unat needed * 4096"
proof -
  have "n < 2 ^ 64" using assms(1) by simp
  then have "unat (offset + of_nat n) = unat offset + n" using assms(1) by (simp add: unat_word_ariths unat_of_nat)
  then have "unat (offset + of_nat n + 4095) = unat offset + n + 4095" using assms(1) by (simp add: unat_word_ariths)
  moreover have "unat (x div 4096) = unat x div 4096" for x :: u64 by (simp add: unat_div)
  moreover have "offset + of_nat n + RAMFS_BLOCK_SIZE - 1 = offset + of_nat n + 4095" by (simp add: RAMFS_BLOCK_SIZE_def)
  ultimately have q: "unat ((offset + of_nat n + RAMFS_BLOCK_SIZE - 1) div RAMFS_BLOCK_SIZE) = (unat offset + n + 4095) div 4096"
    by (simp only: RAMFS_BLOCK_SIZE_def)
  have lim: "(unat offset + n + 4095) div 4096 \<le> 2 ^ 31" using assms(1) div_le_mono [of _ "2 ^ 43 + 4095" 4096] by simp
  then have un: "unat needed = (unat offset + n + 4095) div 4096"
    using q by (simp add: needed_def unsigned_ucast_eq take_bit_nat_eq_self)
  show "unat needed \<le> 2 ^ 31" using un lim by simp
  show "unat offset + n \<le> unat needed * 4096" unfolding un by (simp add: less_eq_div_iff_mult_less_eq)
qed

lemma ramfs_file_write_spec:
  assumes n: "nodes s n = Some nd" "n_private nd = Some di" and d: "datas s di = Some d" "data_ok s d"
    and len: "unat offset + length src \<le> 2 ^ 43"
  shows "\<exists>r s' d' k. ramfs_file_write n src offset s = Some (r, s') \<and> datas s' di = Some d' \<and> data_ok s' d' \<and>
    k \<le> length src \<and> raw s' d' = written (unat offset) (take k src) (raw s d) \<and>
    (\<forall>e. e \<noteq> di \<longrightarrow> datas s' e = datas s e) \<and>
    (r = int k \<and> (k = length src \<or> 0 < k) \<and>
       nodes s' = (nodes s)(n \<mapsto> nd\<lparr>n_size := grown_size (n_size nd) (offset + of_nat k)\<rparr>) \<or>
     r = -12 \<and> k = 0 \<and> nodes s' = nodes s)"
proof -
  let ?needed = "ucast ((offset + of_nat (length src) + RAMFS_BLOCK_SIZE - 1) div RAMFS_BLOCK_SIZE) :: u32"
  note bn = blocks_needed [OF len]
  obtain err s1 d1 where e: "ramfs_ensure_blocks di ?needed s = Some (err, s1)" "same_files di s s1" "datas s1 di = Some d1"
      "data_ok s1 d1" "raw s1 d1 = raw s d" "err = 0 \<and> unat ?needed \<le> unat (d_block_capacity d1) \<or> err = -12"
    using ensure_blocks_spec [OF d bn(1)] by blast
  show ?thesis
  proof (cases "err = 0")
    case False
    then have "ramfs_file_write n src offset s = Some (-12, s1)"
      using n e(1,6) by (simp add: ramfs_file_write_def Let_def)
    then show ?thesis using e(2-5) by (auto simp: same_files_def)
  next
    case True
    have "unat ?needed * 4096 \<le> unat (d_block_capacity d1) * 4096" using e(6) True by simp
    then have "unat offset + length src \<le> unat (d_block_capacity d1) * 4096" using bn(2) by linarith
    moreover have "unat offset + length src \<le> 2 ^ 44" using len by simp
    ultimately obtain ok k s2 d2 where w: "write_loop di offset src s1 = Some (ok, k, s2)" "k \<le> length src"
        "ok \<longrightarrow> k = length src" "same_files di s1 s2" "datas s2 di = Some d2" "data_ok s2 d2"
        "raw s2 d2 = written (unat offset) (take k src) (raw s1 d1)"
      using write_loop_spec [OF e(3,4)] by blast
    have sf: "nodes s2 = nodes s" "\<forall>e. e \<noteq> di \<longrightarrow> datas s2 e = datas s e"
      using e(2) w(4) by (simp_all add: same_files_def)
    have res: "ramfs_file_write n src offset s =
        (if ok \<or> 0 < k then
           Some (int k, s2\<lparr>nodes := (nodes s2)(n \<mapsto> nd\<lparr>n_size := grown_size (n_size nd) (offset + of_nat k)\<rparr>)\<rparr>)
         else Some (-12, s2))"
    proof -
      have "nd\<lparr>n_size := n_size nd\<rparr> = nd" by simp
      moreover have "s2\<lparr>nodes := (nodes s2)(n \<mapsto> nd)\<rparr> = s2" using sf(1) n(1) by (simp add: fun_upd_idem)
      ultimately show ?thesis
        using n e(1) True w(1,3) sf(1)
        by (auto simp: ramfs_file_write_def Let_def set_size_def upd_node_def grown_size_def)
    qed
    show ?thesis
    proof (cases "ok \<or> 0 < k")
      case True
      let ?s3 = "s2\<lparr>nodes := (nodes s2)(n \<mapsto> nd\<lparr>n_size := grown_size (n_size nd) (offset + of_nat k)\<rparr>)\<rparr>"
      have "data_ok ?s3 d2" using w(6) by (simp add: data_ok_def)
      moreover have "raw ?s3 d2 = raw s2 d2" by (rule raw_cong) simp
      ultimately show ?thesis
        using res True w(2,3,5,7) sf e(5) by (intro exI [of _ "int k"] exI [of _ ?s3] exI [of _ d2] exI [of _ k]) auto
    next
      case False
      then show ?thesis using res w(2,5-7) sf e(5) by auto
    qed
  qed
qed

lemma ramfs_file_read_spec:
  assumes n: "nodes s n = Some nd" "n_private nd = Some di" and d: "datas s di = Some d" "data_ok s d"
    and sz: "unat (n_size nd) \<le> 2 ^ 44" "unat offset + unat sz0 < 2 ^ 64"
  shows "ramfs_file_read n sz0 offset s =
    (let bs = map (raw s d) [unat offset..<min (unat (n_size nd)) (unat offset + unat sz0)] in Some (int (length bs), bs))"
proof (cases "n_size nd \<le> offset")
  case True
  then show ?thesis using n d by (simp add: ramfs_file_read_def word_le_nat_alt)
next
  case False
  let ?sz = "if n_size nd < offset + sz0 then n_size nd - offset else sz0"
  have lt: "unat offset < unat (n_size nd)" using False by (simp add: word_le_nat_alt)
  have "unat (offset + sz0) = unat offset + unat sz0" using sz(2) by (simp add: unat_word_ariths)
  moreover have "unat (n_size nd - offset) = unat (n_size nd) - unat offset"
    using lt by (intro unat_sub) (simp add: word_le_nat_alt)
  ultimately have len: "unat ?sz = min (unat (n_size nd)) (unat offset + unat sz0) - unat offset"
    using lt by (auto simp: word_less_nat_alt)
  then have rl: "read_loop s d offset (unat ?sz) =
      Some (map (raw s d) [unat offset..<min (unat (n_size nd)) (unat offset + unat sz0)])"
    using read_loop_raw [OF d(2), of offset "unat ?sz"] sz(1) lt by simp
  have "unat ?sz < 2 ^ 63" using len sz(1) by simp
  then have "sint ?sz = int (unat ?sz)" by (rule sint_small)
  then have "ramfs_file_read n sz0 offset s =
      Some (int (unat ?sz), map (raw s d) [unat offset..<min (unat (n_size nd)) (unat offset + unat sz0)])"
    using n d False rl by (simp add: ramfs_file_read_def Let_def)
  then show ?thesis using len by simp
qed

lemma write_then_read:
  assumes "nodes s n = Some nd" and "n_private nd = Some di" and "datas s di = Some d" and "data_ok s d"
    and "unat offset + length src \<le> 2 ^ 43" and "unat (n_size nd) \<le> 2 ^ 43"
    and "ramfs_file_write n src offset s = Some (int (length src), s')"
  shows "ramfs_file_read n (of_nat (length src)) offset s' = Some (int (length src), src)"
proof -
  obtain d' k where w: "datas s' di = Some d'" "data_ok s' d'" "k = length src"
      "raw s' d' = written (unat offset) (take k src) (raw s d)"
      "nodes s' = (nodes s)(n \<mapsto> nd\<lparr>n_size := grown_size (n_size nd) (offset + of_nat k)\<rparr>)"
    using ramfs_file_write_spec [OF assms(1-5)] assms(7) by auto
  let ?sz = "grown_size (n_size nd) (offset + of_nat (length src))"
  have l: "unat (of_nat (length src) :: u64) = length src" using assms(5) by (simp add: unat_of_nat)
  have e: "unat (offset + of_nat (length src)) = unat offset + length src"
    using assms(5) l by (simp add: unat_word_ariths)
  have sz: "unat ?sz = max (unat (n_size nd)) (unat offset + length src)"
    using e by (auto simp: grown_size_def word_less_nat_alt)
  have "nodes s' n = Some (nd\<lparr>n_size := ?sz\<rparr>)" "n_private (nd\<lparr>n_size := ?sz\<rparr>) = Some di"
      "unat (n_size (nd\<lparr>n_size := ?sz\<rparr>)) \<le> 2 ^ 44" "unat offset + unat (of_nat (length src) :: u64) < 2 ^ 64"
    using w(3,5) assms(2,5,6) sz l by simp_all
  from ramfs_file_read_spec [OF this(1,2) w(1,2) this(3,4)]
  have "ramfs_file_read n (of_nat (length src)) offset s' =
      Some (int (length src), map (raw s' d') [unat offset..<unat offset + length src])"
    using sz l by (simp add: min_def)
  moreover have "map (raw s' d') [unat offset..<unat offset + length src] = src"
    unfolding w(4) using w(3) by (auto simp: written_def intro!: nth_equalityI)
  ultimately show ?thesis by simp
qed

section \<open>A small file\<close>

definition blank_fs :: fs where
  "blank_fs =
     \<lparr>fs_pool = \<lparr>grants = (\<lambda>i. True), requests = 10\<rparr>, nodes = (\<lambda>n. None), files = (\<lambda>n. None), tables = (\<lambda>n. None),
      pipes = (\<lambda>n. None), datas = (\<lambda>n. None), blocks = (\<lambda>n. None), mounts = (\<lambda>n. None), registered_fs = [],
      mount_list = None, vfs_root = None, kernel_fds = (\<lambda>i. None), current = None\<rparr>"

definition file_node :: "u64 \<Rightarrow> vfs_node" where
  "file_node sz = zero_node\<lparr>n_type := VFS_FILE, n_ops := Some ramfs_file_ops, n_ref_count := 1, n_nlink := 1,
     n_size := sz, n_private := Some 2\<rparr>"

text \<open>File 1 with its data in structure 2: one block, number 3, or no block at all.\<close>

definition one_block_fs :: "u64 \<Rightarrow> u8 list \<Rightarrow> fs" where
  "one_block_fs sz bytes =
     blank_fs\<lparr>nodes := [1 \<mapsto> file_node sz],
       datas := [2 \<mapsto> \<lparr>d_blocks = Some [Some 3, None, None, None], d_block_count = 1, d_block_capacity = 4\<rparr>],
       blocks := [3 \<mapsto> bytes]\<rparr>"

definition empty_file_fs :: fs where
  "empty_file_fs = blank_fs\<lparr>nodes := [1 \<mapsto> file_node 0], datas := [2 \<mapsto> zero_data]\<rparr>"

lemma empty_file_ok: "nodes empty_file_fs 1 = Some (file_node 0)" "n_private (file_node 0) = Some 2"
  "datas empty_file_fs 2 = Some zero_data" "data_ok empty_file_fs zero_data"
  by (simp_all add: empty_file_fs_def file_node_def data_ok_def zero_data_def get_slot_def)

lemma raw_zero_data: "raw s zero_data i = 0"
  by (simp add: raw_def zero_data_def)

lemma empty_file_write: "\<exists>s'. ramfs_file_write 1 [7, 8] 4095 empty_file_fs = Some (2, s')"
  by (simp add: ramfs_file_write_def ramfs_ensure_blocks_def empty_file_fs_def file_node_def zero_data_def
      RAMFS_BLOCK_SIZE_def RAMFS_INITIAL_BLOCKS_def grow_capacity.simps new_object_def pool_alloc_def blank_fs_def
      write_loop.simps set_size_def upd_node_def zero_node_def need_block_def chunk_size_def block_index_def
      block_offset_def set_slot_def get_slot_def put_bytes_def)

lemma grow_capacity_wraps: "k \<le> 32 \<Longrightarrow> grow_capacity 0x80000001 (2 ^ k) = None"
proof (induction k rule: inc_induct)
  case base
  have "(2 :: u32) ^ 32 = 0" by (simp add: word_uint_eq_iff)
  then show ?case using grow_capacity_zero [of "0x80000001"] by (simp only:) simp
next
  case (step k)
  have "(2 :: nat) ^ k \<le> 2 ^ 31" using step.hyps by (intro power_increasing) simp_all
  moreover from this have "unat (of_nat (2 ^ k) :: u32) = 2 ^ k" unfolding unat_of_nat by simp
  ultimately have "(2 ^ k :: u32) < 0x80000001" by (simp add: word_less_nat_alt)
  then have "grow_capacity 0x80000001 (2 ^ k) = grow_capacity 0x80000001 (2 ^ k * 2)" by (subst grow_capacity.simps) simp
  then show ?case using step.IH by (simp add: mult.commute)
qed

section \<open>Properties\<close>

text \<open>C21. \<open>ramfs_file_write\<close> below 8 TB: the bytes written replace the bytes at their offsets and no others, across block
  boundaries and holes; the size grows to the end of the write and never shrinks; the block array stays well
  formed; when memory runs out the result counts the bytes that did get written, or is \<open>ENOMEM\<close> when none did,
  and no other file is touched.\<close>

theorem ramfs_file_write_correct:
  assumes "nodes s n = Some nd" and "n_private nd = Some di" and "datas s di = Some d" and "data_ok s d"
    and "unat offset + length src \<le> 2 ^ 43"
  shows "\<exists>r s' d' k. ramfs_file_write n src offset s = Some (r, s') \<and> datas s' di = Some d' \<and> data_ok s' d' \<and>
    k \<le> length src \<and> raw s' d' = written (unat offset) (take k src) (raw s d) \<and>
    (\<forall>e. e \<noteq> di \<longrightarrow> datas s' e = datas s e) \<and>
    (r = int k \<and> (k = length src \<or> 0 < k) \<and>
       nodes s' = (nodes s)(n \<mapsto> nd\<lparr>n_size := grown_size (n_size nd) (offset + of_nat k)\<rparr>) \<or>
     r = -12 \<and> k = 0 \<and> nodes s' = nodes s)"
  using assms by (rule ramfs_file_write_spec)

theorem ramfs_file_write_correct_witness:
  "\<exists>r s'. ramfs_file_write 1 [1, 2, 3] 4095 empty_file_fs = Some (r, s')"
proof -
  have "unat (4095 :: u64) + length [1, 2, 3 :: u8] \<le> 2 ^ 43" by simp
  from ramfs_file_write_correct [OF empty_file_ok this] show ?thesis by blast
qed



text \<open>What was written can be read back: after a write that reports all its bytes, reading as many bytes at the same
  offset returns them.\<close>

theorem ramfs_write_read_roundtrip:
  assumes "nodes s n = Some nd" and "n_private nd = Some di" and "datas s di = Some d" and "data_ok s d"
    and "unat offset + length src \<le> 2 ^ 43" and "unat (n_size nd) \<le> 2 ^ 43"
    and "ramfs_file_write n src offset s = Some (int (length src), s')"
  shows "ramfs_file_read n (of_nat (length src)) offset s' = Some (int (length src), src)"
  using assms by (rule write_then_read)

theorem ramfs_write_read_roundtrip_witness:
  "\<exists>s'. ramfs_file_write 1 [7, 8] 4095 empty_file_fs = Some (2, s') \<and> ramfs_file_read 1 2 4095 s' = Some (2, [7, 8])"
proof -
  obtain s' where w: "ramfs_file_write 1 [7, 8] 4095 empty_file_fs = Some (int (length [7, 8 :: u8]), s')"
    using empty_file_write by auto
  then show ?thesis
    using ramfs_write_read_roundtrip [OF empty_file_ok _ _ w] by (simp add: file_node_def zero_node_def)
qed



text \<open>A second defect of truncation: a file that is grown without being written has no block array, and shrinking it then
  sets a block count for it, so the next read dereferences the NULL array.\<close>

theorem ramfs_truncate_then_read_faults:
  "\<exists>s1 s2. ramfs_file_truncate 1 8192 empty_file_fs = Some (0, s1) \<and> ramfs_file_truncate 1 4096 s1 = Some (0, s2) \<and>
    ramfs_file_read 1 1 0 s2 = None"
  by (simp add: ramfs_file_truncate_def empty_file_fs_def blank_fs_def file_node_def zero_node_def RAMFS_BLOCK_SIZE_def
      set_size_def upd_node_def ramfs_file_read_def read_loop.simps read_chunk_def chunk_size_def block_index_def
      block_offset_def get_slot_def zero_data_def)


end
