(* ===== verification/Name_Space.thy ===== *)
theory Name_Space
  imports Kurios_Prelude
begin

text \<open>
  The contract of a directory: a finite map from names to nodes that can be looked up, extended and reduced.
  Adding and removing may fail with a negative error number, and then the map stays as it is.
\<close>

datatype 'k name_op = Look string | Add 'k string | Del bool string

fun op_name :: "'k name_op \<Rightarrow> string" where
  "op_name (Look x) = x"
| "op_name (Add k x) = x"
| "op_name (Del b x) = x"

text \<open>What a log of operations, with their result codes and the nodes found, means for the map: \<open>m\<close> before, \<open>m'\<close> after.\<close>

fun explains :: "(string \<rightharpoonup> 'n) \<Rightarrow> ('k name_op \<times> int \<times> 'n option) list \<Rightarrow> (string \<rightharpoonup> 'n) \<Rightarrow> bool" where
  "explains m [] m' \<longleftrightarrow> m' = m"
| "explains m ((Look x, r, a) # log) m' \<longleftrightarrow> a = m x \<and> explains m log m'"
| "explains m ((Add k x, r, a) # log) m' \<longleftrightarrow>
     (if r = 0 then m x = None \<and> (\<exists>n. n \<notin> ran m \<and> explains (m(x \<mapsto> n)) log m') else r < 0 \<and> explains m log m')"
| "explains m ((Del b x, r, a) # log) m' \<longleftrightarrow>
     (if r = 0 then m x \<noteq> None \<and> explains (m(x := None)) log m' else r < 0 \<and> explains m log m')"

locale name_space =
  fixes inv :: "'s \<Rightarrow> (string \<rightharpoonup> 'n) \<Rightarrow> bool"
    and look :: "string \<Rightarrow> 's \<Rightarrow> ('n option \<times> 's) option"
    and add :: "'k \<Rightarrow> string \<Rightarrow> 's \<Rightarrow> (int \<times> 's) option"
    and del :: "bool \<Rightarrow> string \<Rightarrow> 's \<Rightarrow> (int \<times> 's) option"
    and limit :: nat
  assumes look_law: "inv s m \<Longrightarrow> \<exists>s'. look x s = Some (m x, s') \<and> inv s' m"
    and add_law: "inv s m \<Longrightarrow> length x \<le> limit \<Longrightarrow> \<exists>r s'. add k x s = Some (r, s') \<and>
      (r < 0 \<and> inv s' m \<or> r = 0 \<and> m x = None \<and> (\<exists>n. n \<notin> ran m \<and> inv s' (m(x \<mapsto> n))))"
    and del_law: "inv s m \<Longrightarrow> \<exists>r s'. del b x s = Some (r, s') \<and>
      (r < 0 \<and> inv s' m \<or> r = 0 \<and> m x \<noteq> None \<and> inv s' (m(x := None)))"
begin

fun apply_op :: "'k name_op \<Rightarrow> 's \<Rightarrow> ((int \<times> 'n option) \<times> 's) option" where
  "apply_op (Look x) s = map_option (\<lambda>(a, s'). ((0, a), s')) (look x s)"
| "apply_op (Add k x) s = map_option (\<lambda>(r, s'). ((r, None), s')) (add k x s)"
| "apply_op (Del b x) s = map_option (\<lambda>(r, s'). ((r, None), s')) (del b x s)"

fun run :: "'k name_op list \<Rightarrow> 's \<Rightarrow> (('k name_op \<times> int \<times> 'n option) list \<times> 's) option" where
  "run [] s = Some ([], s)"
| "run (c # cs) s =
     (case apply_op c s of
        None \<Rightarrow> None
      | Some (ra, s1) \<Rightarrow> map_option (\<lambda>(log, s2). ((c, ra) # log, s2)) (run cs s1))"

lemma run_step:
  assumes "apply_op c s = Some ((r, a), s1)" and "inv s1 m1" and "\<And>log m'. explains m1 log m' \<Longrightarrow> explains m ((c, r, a) # log) m'"
    and IH: "\<exists>log s' m'. run cs s1 = Some (log, s') \<and> map fst log = cs \<and> inv s' m' \<and> explains m1 log m'"
  shows "\<exists>log s' m'. run (c # cs) s = Some (log, s') \<and> map fst log = c # cs \<and> inv s' m' \<and> explains m log m'"
proof -
  obtain log s' m' where "run cs s1 = Some (log, s')" "map fst log = cs" "inv s' m'" "explains m1 log m'" using IH by blast
  then show ?thesis using assms(1,3) by (intro exI [of _ "(c, r, a) # log"] exI [of _ s'] exI [of _ m']) simp
qed

lemma run_explained:
  assumes "inv s m" and "\<forall>c \<in> set cs. length (op_name c) \<le> limit"
  shows "\<exists>log s' m'. run cs s = Some (log, s') \<and> map fst log = cs \<and> inv s' m' \<and> explains m log m'"
  using assms
proof (induction cs arbitrary: s m)
  case (Cons c cs)
  then have len: "length (op_name c) \<le> limit" and rest: "\<forall>c \<in> set cs. length (op_name c) \<le> limit" by simp_all
  show ?case
  proof (cases c)
    case (Look x)
    obtain s1 where "look x s = Some (m x, s1)" "inv s1 m" using look_law [OF Cons.prems(1)] by blast
    then show ?thesis using Look by (intro run_step [OF _ _ _ Cons.IH [OF _ rest]]) simp_all
  next
    case (Add k x)
    then have "length x \<le> limit" using len by simp
    from add_law [OF Cons.prems(1) this, of k] obtain r s1 where a: "add k x s = Some (r, s1)"
        and alt: "r < 0 \<and> inv s1 m \<or> r = 0 \<and> m x = None \<and> (\<exists>n. n \<notin> ran m \<and> inv s1 (m(x \<mapsto> n)))" by blast
    from alt show ?thesis
    proof (elim disjE conjE exE)
      assume "r < 0" "inv s1 m"
      then show ?thesis using Add a by (intro run_step [OF _ _ _ Cons.IH [OF _ rest]]) auto
    next
      fix n assume r: "r = 0" "m x = None" "n \<notin> ran m" "inv s1 (m(x \<mapsto> n))"
      show ?thesis
      proof (rule run_step [OF _ r(4) _ Cons.IH [OF r(4) rest]])
        show "apply_op c s = Some ((0, None), s1)" using Add a r(1) by simp
        show "explains m ((c, 0, None) # log) m'" if ex: "explains (m(x \<mapsto> n)) log m'" for log m'
        proof -
          have "\<exists>n. n \<notin> ran m \<and> explains (m(x \<mapsto> n)) log m'" using r(3) ex by (intro exI [of _ n] conjI)
          then show ?thesis using r(2) by (simp only: Add explains.simps simp_thms if_True)
        qed
      qed
    qed
  next
    case (Del b x)
    from del_law [OF Cons.prems(1), of b x] obtain r s1 where a: "del b x s = Some (r, s1)"
        and alt: "r < 0 \<and> inv s1 m \<or> r = 0 \<and> m x \<noteq> None \<and> inv s1 (m(x := None))" by (elim exE conjE)
    have run: "apply_op c s = Some ((r, None), s1)" using Del a by simp
    from alt show ?thesis
    proof (elim disjE conjE)
      assume r: "r < 0" "inv s1 m"
      show ?thesis using r(1) Del by (intro run_step [OF run r(2) _ Cons.IH [OF r(2) rest]]) simp
    next
      assume r: "r = 0" "m x \<noteq> None" "inv s1 (m(x := None))"
      show ?thesis
        using r(1,2) unfolding Del by (intro run_step [OF run [unfolded Del] r(3) _ Cons.IH [OF r(3) rest]]) (simp del: fun_upd_apply)
    qed
  qed
qed simp

end

end
