(* ===== verification/Ramfs_Dirs.thy ===== *)
theory Ramfs_Dirs
  imports Ramfs_Files Dll Name_Space
begin

text \<open>
  The directories of ramfs as name spaces: the children of a directory are a doubly linked list of nodes with
  different names, and the directory operations look up, add and remove entries of the map from names to nodes.
\<close>

section \<open>The fields of nodes\<close>

definition nxt :: "fs \<Rightarrow> nat \<Rightarrow> ptr" where
  "nxt s x = (case nodes s x of None \<Rightarrow> None | Some nd \<Rightarrow> n_next nd)"

definition prv :: "fs \<Rightarrow> nat \<Rightarrow> ptr" where
  "prv s x = (case nodes s x of None \<Rightarrow> None | Some nd \<Rightarrow> n_prev nd)"

definition kids :: "fs \<Rightarrow> nat \<Rightarrow> ptr" where
  "kids s x = (case nodes s x of None \<Rightarrow> None | Some nd \<Rightarrow> n_children nd)"

text \<open>What linking leaves alone.\<close>

definition core :: "vfs_node \<Rightarrow> vfs_node" where
  "core nd = nd\<lparr>n_parent := None, n_children := None, n_next := None, n_prev := None\<rparr>"

definition cores :: "fs \<Rightarrow> nat \<Rightarrow> vfs_node option" where
  "cores s x = map_option core (nodes s x)"

definition name_of :: "fs \<Rightarrow> nat \<Rightarrow> string" where
  "name_of s x = (case cores s x of None \<Rightarrow> [] | Some nd \<Rightarrow> n_name nd)"

lemma core_simps [simp]:
  "n_name (core nd) = n_name nd" "n_type (core nd) = n_type nd" "n_open_count (core nd) = n_open_count nd"
  "n_private (core nd) = n_private nd"
  "core (nd\<lparr>n_parent := a\<rparr>) = core nd" "core (nd\<lparr>n_children := a\<rparr>) = core nd" "core (nd\<lparr>n_next := a\<rparr>) = core nd"
  "core (nd\<lparr>n_prev := a\<rparr>) = core nd"
  by (simp_all add: core_def)

lemma cores_None [simp]: "cores s x = None \<longleftrightarrow> nodes s x = None"
  by (simp add: cores_def)

lemma name_of_node [simp]: "nodes s x = Some nd \<Longrightarrow> name_of s x = n_name nd"
  by (simp add: name_of_def cores_def)

lemma find_child_list:
  assumes "dll (nxt s) (prv s) q cs" and "\<forall>c \<in> set cs. nodes s c \<noteq> None"
  shows "find_child s (first_of cs) name = Some (map_of (map (\<lambda>c. (name_of s c, c)) cs) name)"
  using assms
proof (induction cs arbitrary: q)
  case Nil
  then show ?case by (simp add: find_child.simps)
next
  case (Cons c cs)
  then obtain nd where "nodes s c = Some nd" by auto
  moreover have "n_next nd = first_of cs" using Cons.prems(1) calculation by (simp add: nxt_def)
  ultimately show ?case using Cons.IH [of "Some c"] Cons.prems by (simp add: find_child.simps [of s "Some c"])
qed

section \<open>Directories\<close>

definition dir_ok :: "fs \<Rightarrow> nat \<Rightarrow> nat list \<Rightarrow> bool" where
  "dir_ok s p cs \<longleftrightarrow>
     nodes s p \<noteq> None \<and> kids s p = first_of cs \<and> dll (nxt s) (prv s) None cs \<and> p \<notin> set cs \<and>
     (\<forall>c \<in> set cs. nodes s c \<noteq> None) \<and> distinct (map (name_of s) cs)"

text \<open>The name space of a directory.\<close>

definition dir_map :: "fs \<Rightarrow> nat list \<Rightarrow> string \<rightharpoonup> nat" where
  "dir_map s cs = map_of (map (\<lambda>c. (name_of s c, c)) cs)"

lemma dir_okD:
  assumes "dir_ok s p cs"
  shows "nodes s p \<noteq> None" "kids s p = first_of cs" "dll (nxt s) (prv s) None cs" "p \<notin> set cs"
    "c \<in> set cs \<Longrightarrow> nodes s c \<noteq> None" "distinct (map (name_of s) cs)" "distinct cs"
  using assms dll_distinct by (auto simp: dir_ok_def)

lemma dir_find:
  assumes "dir_ok s p cs" "nodes s p = Some pd"
  shows "find_child s (n_children pd) name = Some (dir_map s cs name)"
proof -
  have "n_children pd = first_of cs" using assms by (auto simp: dir_ok_def kids_def)
  then show ?thesis
    using find_child_list [of s None cs] dir_okD(3,5) [OF assms(1)] by (simp add: dir_map_def)
qed

lemma dir_map_in: "dir_map s cs name = Some n \<Longrightarrow> n \<in> set cs \<and> name_of s n = name"
  by (auto simp: dir_map_def dest: map_of_SomeD)

lemma dir_map_None: "dir_map s cs name = None \<longleftrightarrow> name \<notin> name_of s ` set cs"
  by (auto simp: dir_map_def map_of_eq_None_iff image_image)

lemma dir_map_cong: "(\<And>c. c \<in> set cs \<Longrightarrow> name_of s' c = name_of s c) \<Longrightarrow> dir_map s' cs = dir_map s cs"
  by (simp add: dir_map_def cong: map_cong)

text \<open>A directory whose own entries are not touched.\<close>

lemma dir_frame:
  assumes "dir_ok s p cs" and "nodes s' p \<noteq> None" "kids s' p = kids s p"
    and "\<And>c. c \<in> set cs \<Longrightarrow> nxt s' c = nxt s c \<and> prv s' c = prv s c \<and> nodes s' c \<noteq> None \<and> name_of s' c = name_of s c"
  shows "dir_ok s' p cs" "dir_map s' cs = dir_map s cs"
proof -
  have "dll (nxt s') (prv s') None cs" using assms(4) by (intro dll_frame [OF dir_okD(3) [OF assms(1)]]) simp_all
  moreover have "map (name_of s') cs = map (name_of s) cs" using assms(4) by simp
  ultimately show "dir_ok s' p cs"
    using assms(2,3,4) dir_okD [OF assms(1)] unfolding dir_ok_def by metis
  show "dir_map s' cs = dir_map s cs" using assms(4) by (intro dir_map_cong) simp
qed
section \<open>Linking and unlinking\<close>

lemma add_child_fields:
  assumes "nodes s p \<noteq> None" "nodes s c \<noteq> None" "c \<noteq> p" "kids s p \<noteq> Some c"
    and "\<And>k. kids s p = Some k \<Longrightarrow> nodes s k \<noteq> None"
  obtains s' where "ramfs_add_child p c s = Some s'" "s' = s\<lparr>nodes := nodes s'\<rparr>" "cores s' = cores s"
    "nxt s' = (nxt s)(c := kids s p)" "kids s' = (kids s)(p := Some c)"
    "prv s' = (\<lambda>y. if y = c then None else if kids s p = Some y then Some c else prv s y)"
proof -
  obtain pd cd where nd: "nodes s p = Some pd" "nodes s c = Some cd" using assms(1,2) by auto
  show thesis
  proof (cases "n_children pd")
    case None
    define s' where "s' = s\<lparr>nodes := (nodes s)(c \<mapsto> cd\<lparr>n_parent := Some p, n_next := None, n_prev := None\<rparr>,
        p \<mapsto> pd\<lparr>n_children := Some c\<rparr>)\<rparr>"
    have "ramfs_add_child p c s = Some s'"
      using nd None assms(3) by (simp add: ramfs_add_child_def upd_node_def s'_def)
    then show thesis
      using nd None assms(3)
      by (intro that [of s']) (auto simp: s'_def cores_def nxt_def prv_def kids_def fun_eq_iff)
  next
    case (Some k)
    then obtain kd where k: "nodes s k = Some kd" "k \<noteq> c" using assms(4,5) nd by (auto simp: kids_def)
    define n1 where "n1 = (nodes s)(c \<mapsto> cd\<lparr>n_parent := Some p, n_next := Some k, n_prev := None\<rparr>,
        k \<mapsto> kd\<lparr>n_prev := Some c\<rparr>)"
    define s' where "s' = s\<lparr>nodes := n1(p \<mapsto> (the (n1 p))\<lparr>n_children := Some c\<rparr>)\<rparr>"
    have "ramfs_add_child p c s = Some s'"
      using nd Some k assms(3) by (simp add: ramfs_add_child_def upd_node_def s'_def n1_def)
    then show thesis
      using nd Some k assms(3)
      by (intro that [of s']) (auto simp: s'_def n1_def cores_def nxt_def prv_def kids_def fun_eq_iff)
  qed
qed

lemma remove_child_fields:
  assumes "dir_ok s p (xs @ c # ys)"
  obtains s' where "ramfs_remove_child p c s = Some s'" "s' = s\<lparr>nodes := nodes s'\<rparr>" "cores s' = cores s"
    "nxt s' = (\<lambda>y. if y = c then None else if last_of xs = Some y then first_of ys else nxt s y)"
    "prv s' = (\<lambda>y. if y = c then None else if first_of ys = Some y then last_of xs else prv s y)"
    "kids s' = (kids s)(p := first_of (xs @ ys))"
proof -
  note d = dir_okD [OF assms]
  obtain pd cd where nd: "nodes s p = Some pd" "nodes s c = Some cd" using d(1) d(5) [of c] by auto
  have cf: "n_next cd = first_of ys" "n_prev cd = last_of xs"
    using dll_fields [OF d(3)] nd by (simp_all add: nxt_def prv_def)
  have c: "c \<noteq> p" "c \<notin> set xs" "c \<notin> set ys" and pk: "n_children pd = first_of (xs @ c # ys)"
    and px: "p \<notin> set xs" "p \<notin> set ys"
    using d(2,4,7) nd by (auto simp: kids_def)
  define n1 where "n1 = (case last_of xs of Some q \<Rightarrow> (nodes s)(q \<mapsto> (the (nodes s q))\<lparr>n_next := first_of ys\<rparr>)
      | None \<Rightarrow> (nodes s)(p \<mapsto> pd\<lparr>n_children := first_of ys\<rparr>))"
  define n2 where "n2 = (case first_of ys of Some r \<Rightarrow> n1(r \<mapsto> (the (n1 r))\<lparr>n_prev := last_of xs\<rparr>) | None \<Rightarrow> n1)"
  define s' where "s' = s\<lparr>nodes := n2(c \<mapsto> cd\<lparr>n_parent := None, n_next := None, n_prev := None\<rparr>)\<rparr>"
  have ex: "nodes s q \<noteq> None" "q \<noteq> c" "q \<noteq> p" if "q \<in> set xs \<union> set ys" for q
    using that d(5) [of q] c px by auto
  have sep: "q \<noteq> r" if "last_of xs = Some q" "first_of ys = Some r" for q r
    using that d(7) last_of_in_set first_of_in_set by fastforce
  have lq: "\<exists>qd. nodes s q = Some qd \<and> q \<noteq> c \<and> q \<noteq> p" if "last_of xs = Some q" for q
    using ex [of q] last_of_in_set [OF that] by auto
  have fr: "\<exists>rd. nodes s r = Some rd \<and> r \<noteq> c \<and> r \<noteq> p" if "first_of ys = Some r" for r
    using ex [of r] first_of_in_set [OF that] by auto
  have fk: "first_of (xs @ ys) = (if last_of xs = None then first_of ys else n_children pd)"
    using pk by (simp add: first_of_append)
  have run: "ramfs_remove_child p c s = Some s'"
    using nd cf c lq fr sep
    by (cases "last_of xs"; cases "first_of ys")
      (fastforce simp: ramfs_remove_child_def upd_node_def s'_def n2_def n1_def)+
  show thesis
  proof (rule that [OF run])
    show "s' = s\<lparr>nodes := nodes s'\<rparr>" by (simp add: s'_def)
    show "cores s' = cores s" "kids s' = (kids s)(p := first_of (xs @ ys))"
      "nxt s' = (\<lambda>y. if y = c then None else if last_of xs = Some y then first_of ys else nxt s y)"
      "prv s' = (\<lambda>y. if y = c then None else if first_of ys = Some y then last_of xs else prv s y)"
      using nd c lq fr sep fk
      by (cases "last_of xs"; cases "first_of ys";
          fastforce simp: s'_def n2_def n1_def cores_def nxt_def prv_def kids_def fun_eq_iff)+
  qed
qed

lemma name_of_cores: "cores s' = cores s \<Longrightarrow> name_of s' = name_of s"
  by (simp add: name_of_def fun_eq_iff)

lemma cores_live: "cores s' = cores s \<Longrightarrow> nodes s' x = None \<longleftrightarrow> nodes s x = None"
  using cores_None [of s' x] cores_None [of s x] by simp

lemma dir_add:
  assumes ok: "dir_ok s p cs" and c: "nodes s c \<noteq> None" "c \<noteq> p" "c \<notin> set cs" "name_of s c \<notin> name_of s ` set cs"
  obtains s' where "ramfs_add_child p c s = Some s'" "s' = s\<lparr>nodes := nodes s'\<rparr>" "cores s' = cores s"
    "dir_ok s' p (c # cs)" "dir_map s' (c # cs) = (dir_map s cs)(name_of s c \<mapsto> c)"
    "\<forall>q ds. dir_ok s q ds \<and> q \<noteq> p \<and> c \<notin> set ds \<and> set ds \<inter> set cs = {} \<longrightarrow> dir_ok s' q ds \<and> dir_map s' ds = dir_map s ds"
proof -
  note d = dir_okD [OF ok]
  have k: "kids s p \<noteq> Some c" "\<forall>x. kids s p = Some x \<longrightarrow> nodes s x \<noteq> None"
    using d(2) d(5) c(3) by (auto dest: first_of_in_set)
  obtain s' where run: "ramfs_add_child p c s = Some s'" "s' = s\<lparr>nodes := nodes s'\<rparr>" and co: "cores s' = cores s"
      and nx: "nxt s' = (nxt s)(c := kids s p)" and ki: "kids s' = (kids s)(p := Some c)"
      and pr: "prv s' = (\<lambda>y. if y = c then None else if kids s p = Some y then Some c else prv s y)"
    using add_child_fields [OF d(1) c(1,2) k(1) k(2) [rule_format]] by blast
  note nm = name_of_cores [OF co] and lv = cores_live [OF co]
  have "dll (nxt s') (prv s') None (c # cs)"
    using d(2) by (intro dll_push_front [OF d(3) c(3)]) (simp_all add: nx pr)
  then have ok': "dir_ok s' p (c # cs)" using d c lv nm ki unfolding dir_ok_def by auto
  have "dir_map s' (c # cs) = (dir_map s cs)(name_of s c \<mapsto> c)" by (simp add: dir_map_def nm)
  moreover have "dir_ok s' q ds \<and> dir_map s' ds = dir_map s ds"
    if q: "dir_ok s q ds" "q \<noteq> p" "c \<notin> set ds" "set ds \<inter> set cs = {}" for q ds
  proof -
    have "x \<noteq> c" "kids s p \<noteq> Some x" if "x \<in> set ds" for x
      using that q(3,4) d(2) first_of_in_set [of cs x] by auto
    then show ?thesis
      using dir_frame [OF q(1), of s'] dir_okD(1,5) [OF q(1)] lv nm nx pr ki q(2) by simp
  qed
  ultimately show thesis using that [OF run co ok'] by blast
qed

lemma dir_remove:
  assumes ok: "dir_ok s p cs" and c: "c \<in> set cs"
  obtains s' where "ramfs_remove_child p c s = Some s'" "s' = s\<lparr>nodes := nodes s'\<rparr>" "cores s' = cores s"
    "dir_ok s' p (remove1 c cs)" "dir_map s' (remove1 c cs) = (dir_map s cs)(name_of s c := None)"
    "\<forall>q ds. dir_ok s q ds \<and> q \<noteq> p \<and> set ds \<inter> set cs = {} \<longrightarrow> dir_ok s' q ds \<and> dir_map s' ds = dir_map s ds"
    "kids s' = (kids s)(p := first_of (remove1 c cs))"
proof -
  obtain xs ys where cs: "cs = xs @ c # ys" using c by (rule dll_split)
  note d = dir_okD [OF ok]
  have rm: "remove1 c cs = xs @ ys" using d(7) by (simp add: cs remove1_append)
  obtain s' where run: "ramfs_remove_child p c s = Some s'" "s' = s\<lparr>nodes := nodes s'\<rparr>" and co: "cores s' = cores s"
      and nx: "nxt s' = (\<lambda>y. if y = c then None else if last_of xs = Some y then first_of ys else nxt s y)"
      and pr: "prv s' = (\<lambda>y. if y = c then None else if first_of ys = Some y then last_of xs else prv s y)"
      and ki: "kids s' = (kids s)(p := first_of (xs @ ys))"
    using remove_child_fields [OF ok [unfolded cs]] by blast
  note nm = name_of_cores [OF co] and lv = cores_live [OF co]
  have "dll (nxt s') (prv s') None (xs @ ys)"
    using d(3) unfolding cs by (rule dll_unlink) (simp_all add: nx pr)
  then have ok': "dir_ok s' p (remove1 c cs)" using d lv nm ki unfolding dir_ok_def rm by (auto simp: cs)
  have "name_of s c \<notin> name_of s ` set (xs @ ys)" using d(6) by (auto simp: cs)
  then have "dir_map s (xs @ ys) (name_of s c) = None" by (simp only: dir_map_None) simp
  then have "dir_map s' (xs @ ys) = (dir_map s (xs @ c # ys))(name_of s c := None)"
    by (auto simp: fun_eq_iff dir_map_def nm map_add_def split: option.splits)
  then have mp: "dir_map s' (remove1 c cs) = (dir_map s cs)(name_of s c := None)"
    unfolding rm unfolding cs .
  have "dir_ok s' q ds \<and> dir_map s' ds = dir_map s ds" if q: "dir_ok s q ds" "q \<noteq> p" "set ds \<inter> set cs = {}" for q ds
  proof -
    have "x \<noteq> c" "last_of xs \<noteq> Some x" "first_of ys \<noteq> Some x" if "x \<in> set ds" for x
      using that q(3) first_of_in_set [of ys x] last_of_in_set [of xs x] by (auto simp: cs)
    then show ?thesis
      using dir_frame [OF q(1), of s'] dir_okD(1,5) [OF q(1)] lv nm nx pr ki q(2) by simp
  qed
  moreover have "kids s' = (kids s)(p := first_of (remove1 c cs))" using ki rm by simp
  ultimately show thesis using that [OF run co ok' mp] by blast
qed

section \<open>The invariant of a directory\<close>

text \<open>Object numbers that were not handed out yet are not in use.\<close>

definition fresh :: "fs \<Rightarrow> bool" where
  "fresh s \<longleftrightarrow> (\<forall>x \<ge> requests (fs_pool s). nodes s x = None \<and> datas s x = None)"

definition priv :: "fs \<Rightarrow> nat \<Rightarrow> ptr" where
  "priv s x = (case cores s x of None \<Rightarrow> None | Some nd \<Rightarrow> n_private nd)"

text \<open>Every child that has file data has data of its own, with a block array as long as its block count.\<close>

definition slots_ok :: "ramfs_data \<Rightarrow> bool" where
  "slots_ok d \<longleftrightarrow> (case d_blocks d of None \<Rightarrow> True | Some bs \<Rightarrow> unat (d_block_count d) \<le> length bs)"

definition files_ok :: "fs \<Rightarrow> nat list \<Rightarrow> bool" where
  "files_ok s cs \<longleftrightarrow>
     (\<forall>c \<in> set cs. \<forall>di. priv s c = Some di \<longrightarrow> (\<exists>d. datas s di = Some d \<and> slots_ok d)) \<and>
     (\<forall>c \<in> set cs. \<forall>c' \<in> set cs. priv s c \<noteq> None \<and> priv s c = priv s c' \<longrightarrow> c = c')"

definition dir_inv :: "nat \<Rightarrow> fs \<Rightarrow> (string \<rightharpoonup> nat) \<Rightarrow> bool" where
  "dir_inv p s m \<longleftrightarrow> (\<exists>cs. dir_ok s p cs \<and> dir_map s cs = m \<and> fresh s \<and> files_ok s cs)"

lemma priv_node [simp]: "nodes s x = Some nd \<Longrightarrow> priv s x = n_private nd"
  by (simp add: priv_def cores_def)

lemma priv_cores: "cores s' = cores s \<Longrightarrow> priv s' = priv s"
  by (simp add: priv_def fun_eq_iff)

lemma fresh_cong:
  "fresh s \<Longrightarrow> requests (fs_pool s) \<le> requests (fs_pool s') \<Longrightarrow> (\<And>x. nodes s x = None \<Longrightarrow> nodes s' x = None) \<Longrightarrow>
    (\<And>x. datas s x = None \<Longrightarrow> datas s' x = None) \<Longrightarrow> fresh s'"
  by (simp add: fresh_def)

lemma files_okD:
  assumes "files_ok s cs" "c \<in> set cs" "priv s c = Some di"
  shows "\<exists>d. datas s di = Some d \<and> slots_ok d" "c' \<in> set cs \<Longrightarrow> priv s c' = Some di \<Longrightarrow> c = c'"
  using assms unfolding files_ok_def by simp_all

lemma files_okI:
  assumes "\<And>c di. c \<in> set cs \<Longrightarrow> priv s c = Some di \<Longrightarrow> \<exists>d. datas s di = Some d \<and> slots_ok d"
    and "\<And>c c' di. c \<in> set cs \<Longrightarrow> c' \<in> set cs \<Longrightarrow> priv s c = Some di \<Longrightarrow> priv s c' = Some di \<Longrightarrow> c = c'"
  shows "files_ok s cs"
  using assms unfolding files_ok_def by (metis option.exhaust)

lemma files_ok_cong:
  "files_ok s cs \<Longrightarrow> (\<And>c. c \<in> set cs \<Longrightarrow> priv s' c = priv s c) \<Longrightarrow>
    (\<And>c di. c \<in> set cs \<Longrightarrow> priv s c = Some di \<Longrightarrow> datas s' di = datas s di) \<Longrightarrow> files_ok s' cs"
  unfolding files_ok_def by (intro conjI; metis)

text \<open>Taking a reference on a node changes nothing of a directory.\<close>

lemma ref_dir:
  assumes "nodes s n \<noteq> None"
  obtains s' where "vfs_node_ref (Some n) s = Some s'" "\<And>p m. dir_inv p s m \<Longrightarrow> dir_inv p s' m"
proof -
  obtain nd where nd: "nodes s n = Some nd" using assms by auto
  define s' where "s' = s\<lparr>nodes := (nodes s)(n \<mapsto> nd\<lparr>n_ref_count := n_ref_count nd + 1\<rparr>)\<rparr>"
  have same: "nxt s' = nxt s" "prv s' = prv s" "kids s' = kids s" "name_of s' = name_of s" "priv s' = priv s"
    using nd by (auto simp: s'_def nxt_def prv_def kids_def name_of_def priv_def cores_def fun_eq_iff)
  have "dir_inv p s' m" if inv: "dir_inv p s m" for p m
  proof -
    obtain cs where cs: "dir_ok s p cs" "dir_map s cs = m" "fresh s" "files_ok s cs" using inv by (auto simp: dir_inv_def)
    have lv: "nodes s' x = None \<longleftrightarrow> nodes s x = None" for x using nd by (simp add: s'_def)
    have "dir_ok s' p cs" "dir_map s' cs = m"
      using dir_frame [OF cs(1), of s'] dir_okD(1,5) [OF cs(1)] same lv cs(2) by simp_all
    moreover have "fresh s'" using cs(3) by (rule fresh_cong) (simp_all add: lv, simp_all add: s'_def)
    moreover have "files_ok s' cs" using cs(4) by (rule files_ok_cong) (simp only: same, simp add: s'_def)
    ultimately show ?thesis using dir_inv_def by blast
  qed
  moreover have "vfs_node_ref (Some n) s = Some s'" using nd by (simp add: vfs_node_ref_def upd_node_def s'_def)
  ultimately show thesis using that by blast
qed

lemma finddir_spec:
  assumes "dir_inv p s m"
  obtains s' where "ramfs_dir_finddir p name s = Some (m name, s')" "dir_inv p s' m" "m name = None \<Longrightarrow> s' = s"
proof -
  obtain cs where cs: "dir_ok s p cs" "dir_map s cs = m" using assms by (auto simp: dir_inv_def)
  obtain pd where pd: "nodes s p = Some pd" using dir_okD(1) [OF cs(1)] by auto
  note f = dir_find [OF cs(1) pd, of name, unfolded cs(2)]
  show thesis
  proof (cases "m name")
    case None
    then show ?thesis using that [of s] assms pd f by (simp add: ramfs_dir_finddir_def vfs_node_ref_def)
  next
    case (Some n)
    then have "nodes s n \<noteq> None" using dir_map_in [of s cs name n] cs dir_okD(5) [OF cs(1)] by blast
    then obtain s' where "vfs_node_ref (Some n) s = Some s'" "dir_inv p s' m" using ref_dir [of s n] assms by metis
    then show ?thesis using that [of s'] Some pd f by (simp add: ramfs_dir_finddir_def)
  qed
qed

section \<open>Creating and removing entries\<close>

lemma create_node_spec:
  assumes "fresh s"
  obtains (none) s' where "ramfs_create_node name type s = Some (None, s')" "nodes s' = nodes s" "datas s' = datas s"
      "requests (fs_pool s) \<le> requests (fs_pool s')"
  | (some) n nd s' where "ramfs_create_node name type s = Some (Some n, s')" "nodes s n = None" "n < requests (fs_pool s')"
      "nodes s' = (nodes s)(n \<mapsto> nd)" "n_name nd = take VFS_NAME_MAX name" "n_type nd = type"
      "requests (fs_pool s) \<le> requests (fs_pool s')"
      "n_private nd = None \<and> datas s' = datas s \<or>
       (\<exists>di. n_private nd = Some di \<and> datas s di = None \<and> di < requests (fs_pool s') \<and> datas s' = (datas s)(di \<mapsto> zero_data))"
proof (cases s rule: new_object_cases)
  case (fail s1)
  then show thesis using none [of s1] by (simp add: ramfs_create_node_def vfs_node_alloc_def only_pool_def)
next
  case (ok s1)
  let ?n = "requests (fs_pool s)"
  let ?nd = "zero_node\<lparr>n_ref_count := 1, n_nlink := 1, n_name := take VFS_NAME_MAX name, n_type := type, n_permissions := 0x1ED,
      n_uid := 0, n_gid := 0, n_size := 0, n_nlink := 1\<rparr>"
  have fr: "nodes s ?n = None" using assms by (simp add: fresh_def)
  show thesis
  proof (cases "type = VFS_DIR")
    case True
    then show thesis
      using ok fr
      by (intro some [of ?n "s1\<lparr>nodes := (nodes s1)(?n \<mapsto> ?nd\<lparr>n_ops := Some ramfs_dir_ops\<rparr>)\<rparr>"
            "?nd\<lparr>n_ops := Some ramfs_dir_ops\<rparr>"])
        (simp_all add: ramfs_create_node_def vfs_node_alloc_def upd_node_def only_pool_def zero_node_def)
  next
    case False
    let ?s2 = "s1\<lparr>nodes := (nodes s1)(?n \<mapsto> ?nd\<lparr>n_ops := Some ramfs_file_ops\<rparr>)\<rparr>"
    have run: "ramfs_create_node name type s =
        (case ramfs_data_alloc ?s2 of
           (None, s3) \<Rightarrow> do { s4 \<leftarrow> vfs_node_free (Some ?n) s3; Some (None, s4) }
         | (Some d, s3) \<Rightarrow> do { s4 \<leftarrow> upd_node ?n (\<lambda>nd. nd\<lparr>n_private := Some d\<rparr>) s3; Some (Some ?n, s4) })"
      using ok False by (simp add: ramfs_create_node_def vfs_node_alloc_def upd_node_def only_pool_def zero_node_def)
    show thesis
    proof (cases ?s2 rule: new_object_cases)
      case f2: (fail s3)
      have "nodes s1 = nodes s" using ok by (simp add: only_pool_def)
      then have "(nodes s)(?n := None) = nodes s" using fr by (simp add: fun_upd_idem)
      then show thesis
        using f2 ok fr run
        by (intro none [of "s3\<lparr>nodes := (nodes s3)(?n := None)\<rparr>"])
          (simp_all add: ramfs_data_alloc_def vfs_node_free_def only_pool_def)
    next
      case o2: (ok s3)
      let ?d = "requests (fs_pool s1)"
      have "datas s ?d = None" using assms ok by (simp add: fresh_def)
      then show thesis
        using o2 ok fr run
        by (intro some [of ?n "s3\<lparr>datas := (datas s3)(?d \<mapsto> zero_data),
                nodes := (nodes s3)(?n \<mapsto> ?nd\<lparr>n_ops := Some ramfs_file_ops, n_private := Some ?d\<rparr>)\<rparr>"
              "?nd\<lparr>n_ops := Some ramfs_file_ops, n_private := Some ?d\<rparr>"])
          (simp_all add: ramfs_data_alloc_def upd_node_def only_pool_def)
    qed
  qed
qed

lemma fields_frame:
  assumes "nodes s' x = nodes s x"
  shows "nxt s' x = nxt s x \<and> prv s' x = prv s x \<and> kids s' x = kids s x \<and> name_of s' x = name_of s x \<and> priv s' x = priv s x"
  using assms by (simp add: nxt_def prv_def kids_def name_of_def priv_def cores_def)

text \<open>Nodes outside a directory may change.\<close>

lemma dir_frame_nodes:
  assumes "dir_ok s p cs" and "\<And>x. x = p \<or> x \<in> set cs \<Longrightarrow> nodes s' x = nodes s x"
  shows "dir_ok s' p cs" "dir_map s' cs = dir_map s cs"
proof -
  have "nxt s' c = nxt s c \<and> prv s' c = prv s c \<and> nodes s' c \<noteq> None \<and> name_of s' c = name_of s c" if "c \<in> set cs" for c
    using that assms(2) [of c] fields_frame [of s' c s] dir_okD(5) [OF assms(1), of c] by simp
  moreover have "nodes s' p \<noteq> None" "kids s' p = kids s p"
    using assms(2) [of p] fields_frame [of s' p s] dir_okD(1) [OF assms(1)] by simp_all
  ultimately show "dir_ok s' p cs" "dir_map s' cs = dir_map s cs" using dir_frame [OF assms(1), of s'] by simp_all
qed

lemma files_ok_Cons:
  assumes "files_ok s cs" and "\<And>di. priv s n = Some di \<Longrightarrow> datas s di = Some zero_data \<and> (\<forall>c \<in> set cs. priv s c \<noteq> Some di)"
  shows "files_ok s (n # cs)"
proof -
  have z: "slots_ok zero_data" by (simp add: slots_ok_def zero_data_def)
  show ?thesis
  proof (rule files_okI)
    fix c di assume "c \<in> set (n # cs)" "priv s c = Some di"
    then show "\<exists>d. datas s di = Some d \<and> slots_ok d" using assms(2) [of di] files_okD(1) [OF assms(1), of c di] z by auto
  next
    fix c c' di assume "c \<in> set (n # cs)" "c' \<in> set (n # cs)" "priv s c = Some di" "priv s c' = Some di"
    then show "c = c'" using assms(2) [of di] files_okD(2) [OF assms(1), of c di c'] by auto
  qed
qed

lemma create_new:
  assumes ok: "dir_ok s p cs" and fr: "fresh s" and fo: "files_ok s cs" and name: "dir_map s cs name = None"
    and len: "length name \<le> VFS_NAME_MAX"
    and n: "nodes s n = None" "n < requests (fs_pool s2)" "nodes s2 = (nodes s)(n \<mapsto> nd)" "n_name nd = take VFS_NAME_MAX name"
      "requests (fs_pool s) \<le> requests (fs_pool s2)"
    and dt: "n_private nd = None \<and> datas s2 = datas s \<or>
       (\<exists>di. n_private nd = Some di \<and> datas s di = None \<and> di < requests (fs_pool s2) \<and> datas s2 = (datas s)(di \<mapsto> zero_data))"
  obtains s4 where "do { pnd \<leftarrow> nodes s2 p; s3 \<leftarrow> upd_node n (\<lambda>nd. nd\<lparr>n_mount := n_mount pnd\<rparr>) s2; ramfs_add_child p n s3 } = Some s4"
    "n \<notin> ran (dir_map s cs)" "dir_inv p s4 ((dir_map s cs)(name \<mapsto> n))"
proof -
  have nn: "n \<notin> set cs" "n \<noteq> p" using n(1) dir_okD(1) [OF ok] dir_okD(5) [OF ok, of n] by auto
  obtain pd where pd: "nodes s2 p = Some pd" using dir_okD(1) [OF ok] n(3) by (cases "n = p") auto
  define s3 where "s3 = s2\<lparr>nodes := (nodes s2)(n \<mapsto> nd\<lparr>n_mount := n_mount pd\<rparr>)\<rparr>"
  have s3n: "nodes s3 x = (if x = n then Some (nd\<lparr>n_mount := n_mount pd\<rparr>) else nodes s x)" for x
    by (simp add: s3_def n(3))
  have ok3: "dir_ok s3 p cs" and mp3: "dir_map s3 cs = dir_map s cs"
    by (rule dir_frame_nodes [OF ok], use nn s3n in auto)+
  have old: "priv s3 c = priv s c" "name_of s3 c = name_of s c" if "c \<in> set cs" for c
  proof -
    have "nodes s3 c = nodes s c" using that nn s3n [of c] by auto
    from fields_frame [OF this] show "priv s3 c = priv s c" "name_of s3 c = name_of s c" by simp_all
  qed
  have nm: "name_of s3 n = name" "priv s3 n = n_private nd" using s3n [of n] n(4) len by simp_all
  then have new: "name_of s3 n \<notin> name_of s3 ` set cs" using name old(2) by (auto simp: dir_map_None)
  have "datas s3 di = datas s di" if "c \<in> set cs" "priv s c = Some di" for c di
    using files_okD(1) [OF fo that] dt by (auto simp: s3_def)
  then have fo3: "files_ok s3 cs" using old(1) by (intro files_ok_cong [OF fo])
  have "priv s3 c \<noteq> Some di" if "c \<in> set cs" "n_private nd = Some di" for c di
    using that files_okD(1) [OF fo that(1), of di] dt old(1) [OF that(1)] by auto
  then have fo3': "files_ok s3 (n # cs)"
    using dt nm by (intro files_ok_Cons [OF fo3]) (auto simp: s3_def)
  have fr3: "fresh s3" using fr dt n by (auto simp: fresh_def s3_def)
  have live: "nodes s3 n \<noteq> None" using s3n [of n] by simp
  obtain s4 where s4: "ramfs_add_child p n s3 = Some s4" "s4 = s3\<lparr>nodes := nodes s4\<rparr>" "cores s4 = cores s3"
      "dir_ok s4 p (n # cs)" "dir_map s4 (n # cs) = (dir_map s3 cs)(name_of s3 n \<mapsto> n)"
    using dir_add [OF ok3 live nn(2,1) new] by metis
  have eqs: "datas s4 = datas s3" "fs_pool s4 = fs_pool s3" using arg_cong [OF s4(2), of datas] arg_cong [OF s4(2), of fs_pool]
    by simp_all
  have "fresh s4" using fr3 cores_live [OF s4(3)] by (intro fresh_cong [OF fr3]) (simp_all add: eqs)
  moreover have "files_ok s4 (n # cs)" using priv_cores [OF s4(3)] by (intro files_ok_cong [OF fo3']) (simp_all add: eqs)
  ultimately have "dir_inv p s4 ((dir_map s cs)(name \<mapsto> n))"
    using s4(4,5) nm mp3 unfolding dir_inv_def by auto
  moreover have "n \<notin> ran (dir_map s cs)" using nn(1) dir_map_in by (fastforce simp: ran_def)
  moreover have "do { pnd \<leftarrow> nodes s2 p; s3 \<leftarrow> upd_node n (\<lambda>nd. nd\<lparr>n_mount := n_mount pnd\<rparr>) s2; ramfs_add_child p n s3 } = Some s4"
    using s4(1) pd n(3) by (simp add: upd_node_def s3_def)
  ultimately show thesis using that by blast
qed

lemma create_spec:
  assumes inv: "dir_inv p s m" and len: "length name \<le> VFS_NAME_MAX"
  shows "\<exists>err s'. ramfs_dir_create p name type s = Some (err, s') \<and>
    (if m name \<noteq> None then err = VFS_EEXIST \<and> dir_inv p s' m
     else err = VFS_ENOMEM \<and> dir_inv p s' m \<or> err = VFS_OK \<and> (\<exists>n. n \<notin> ran m \<and> dir_inv p s' (m(name \<mapsto> n))))"
proof -
  obtain s1 where f: "ramfs_dir_finddir p name s = Some (m name, s1)" "dir_inv p s1 m" "m name = None \<Longrightarrow> s1 = s"
    using finddir_spec [OF inv] by blast
  show ?thesis
  proof (cases "m name")
    case (Some n)
    then show ?thesis using f by (simp add: ramfs_dir_create_def)
  next
    case None
    then have s1: "ramfs_dir_finddir p name s = Some (None, s)" using f by simp
    obtain cs where cs: "dir_ok s p cs" "dir_map s cs = m" "fresh s" "files_ok s cs" using inv by (auto simp: dir_inv_def)
    from cs(3) show ?thesis
    proof (cases rule: create_node_spec [of s name type])
      case (none s2)
      have "dir_ok s2 p cs" "dir_map s2 cs = m" using dir_frame_nodes [OF cs(1), of s2] none cs(2) by simp_all
      moreover have "fresh s2" using none by (intro fresh_cong [OF cs(3)]) simp_all
      moreover have "files_ok s2 cs"
        using none fields_frame [of s2 _ s] by (intro files_ok_cong [OF cs(4)]) simp_all
      ultimately have "dir_inv p s2 m" using dir_inv_def by blast
      then show ?thesis using s1 none None by (simp add: ramfs_dir_create_def)
    next
      case (some n nd s2)
      have nm: "dir_map s cs name = None" using None cs(2) by simp
      obtain s4 where "do { pnd \<leftarrow> nodes s2 p; s3 \<leftarrow> upd_node n (\<lambda>nd. nd\<lparr>n_mount := n_mount pnd\<rparr>) s2; ramfs_add_child p n s3 } = Some s4"
          "n \<notin> ran m" "dir_inv p s4 (m(name \<mapsto> n))"
        using create_new [OF cs(1,3,4) nm len some(2,3,4,5,7,8)] cs(2) by metis
      then show ?thesis
        using s1 some(1) None by (auto simp: ramfs_dir_create_def bind_eq_Some_conv)
    qed
  qed
qed

lemma free_block_ok:
  assumes "get_slot d i \<noteq> None"
  obtains s' where "free_block d i s = Some s'" "nodes s' = nodes s" "datas s' = datas s" "fs_pool s' = fs_pool s"
proof -
  obtain bp where "get_slot d i = Some bp" using assms by auto
  then show thesis using that by (cases bp) (simp_all add: free_block_def)
qed

lemma free_blocks_ok:
  assumes "\<forall>i \<in> set is. get_slot d i \<noteq> None"
  shows "\<exists>s'. for_each (free_block d) is s = Some s' \<and> nodes s' = nodes s \<and> datas s' = datas s \<and> fs_pool s' = fs_pool s"
  using assms
proof (induction "is" arbitrary: s)
  case (Cons i "is")
  then have "get_slot d i \<noteq> None" by simp
  then obtain s1 where "free_block d i s = Some s1" "nodes s1 = nodes s" "datas s1 = datas s" "fs_pool s1 = fs_pool s"
    by (rule free_block_ok)
  then show ?case using Cons.IH [of s1] Cons.prems by simp
qed simp

lemma data_free_ok:
  assumes "datas s di = Some d" and "slots_ok d"
  obtains s' where "ramfs_data_free (Some di) s = Some s'" "nodes s' = nodes s" "datas s' = (datas s)(di := None)"
    "fs_pool s' = fs_pool s"
proof (cases "d_blocks d")
  case None
  then show thesis using that [of "s\<lparr>datas := (datas s)(di := None)\<rparr>"] assms(1) by (simp add: ramfs_data_free_def)
next
  case (Some bs)
  have "\<forall>i \<in> set [0..<unat (d_block_count d)]. get_slot d i \<noteq> None"
    using assms(2) Some by (simp add: slots_ok_def get_slot_def)
  then obtain s1 where "for_each (free_block d) [0..<unat (d_block_count d)] s = Some s1" "nodes s1 = nodes s" "datas s1 = datas s"
      "fs_pool s1 = fs_pool s"
    using free_blocks_ok by blast
  then show thesis
    using that [of "s1\<lparr>datas := (datas s1)(di := None)\<rparr>"] assms(1) Some by (simp add: ramfs_data_free_def)
qed

lemma unref_ok:
  assumes "nodes s n = Some nd"
  obtains s' where "vfs_node_unref (Some n) s = Some s'" "\<And>x. x \<noteq> n \<Longrightarrow> nodes s' x = nodes s x" "datas s' = datas s"
    "fs_pool s' = fs_pool s"
proof (cases "n_ref_count nd = 1")
  case True
  then show thesis
    using that [of "s\<lparr>nodes := (nodes s)(n := None)\<rparr>"] assms
    by (simp add: vfs_node_unref_def upd_node_def vfs_node_free_def)
next
  case False
  then show thesis
    using that [of "s\<lparr>nodes := (nodes s)(n \<mapsto> nd\<lparr>n_ref_count := n_ref_count nd - 1\<rparr>)\<rparr>"] assms
    by (simp add: vfs_node_unref_def upd_node_def)
qed

lemma removed_entry:
  assumes inv: "dir_inv p s m" and n: "m name = Some n" and dp: "dp = None \<or> dp = priv s n"
  shows "\<exists>s'. do { s1 \<leftarrow> ramfs_remove_child p n s; s2 \<leftarrow> ramfs_data_free dp s1; vfs_node_unref (Some n) s2 } = Some s' \<and>
    dir_inv p s' (m(name := None))"
proof -
  obtain cs where cs: "dir_ok s p cs" "dir_map s cs = m" "fresh s" "files_ok s cs" using inv by (auto simp: dir_inv_def)
  have nc: "n \<in> set cs" "name_of s n = name" using dir_map_in [of s cs name n] n cs(2) by simp_all
  obtain s1 where s1: "ramfs_remove_child p n s = Some s1" "s1 = s\<lparr>nodes := nodes s1\<rparr>" "cores s1 = cores s"
      "dir_ok s1 p (remove1 n cs)" "dir_map s1 (remove1 n cs) = (dir_map s cs)(name_of s n := None)"
    using dir_remove [OF cs(1) nc(1)] by metis
  have eq1: "datas s1 = datas s" "fs_pool s1 = fs_pool s"
    using arg_cong [OF s1(2), of datas] arg_cong [OF s1(2), of fs_pool] by simp_all
  obtain s2 where s2: "ramfs_data_free dp s1 = Some s2" "nodes s2 = nodes s1" "fs_pool s2 = fs_pool s1"
      "datas s2 = (case dp of None \<Rightarrow> datas s1 | Some di \<Rightarrow> (datas s1)(di := None))"
  proof (cases dp)
    case None
    then show thesis using that [of s1] by (simp add: ramfs_data_free_def)
  next
    case (Some di)
    then obtain d where "datas s1 di = Some d" "slots_ok d" using dp files_okD(1) [OF cs(4) nc(1), of di] eq1 by auto
    then show thesis using data_free_ok [of s1 di d] that Some by (metis option.simps(5))
  qed
  obtain nd where "nodes s2 n = Some nd" using dir_okD(5) [OF cs(1) nc(1)] cores_live [OF s1(3), of n] s2(2) by auto
  then obtain s3 where s3: "vfs_node_unref (Some n) s2 = Some s3" "\<And>x. x \<noteq> n \<Longrightarrow> nodes s3 x = nodes s2 x" "datas s3 = datas s2"
      "fs_pool s3 = fs_pool s2"
    using unref_ok by metis
  have ne: "x \<noteq> n" if "x = p \<or> x \<in> set (remove1 n cs)" for x
    using that dir_okD(4,7) [OF cs(1)] nc(1) by auto
  have keep: "nodes s3 x = nodes s1 x" if "x = p \<or> x \<in> set (remove1 n cs)" for x
    using s3(2) [OF ne [OF that]] s2(2) by simp
  have d3: "dir_ok s3 p (remove1 n cs)" "dir_map s3 (remove1 n cs) = m(name := None)"
    using dir_frame_nodes [OF s1(4) keep] s1(5) cs(2) nc(2) by simp_all
  have pr: "priv s3 c = priv s c" if "c \<in> set (remove1 n cs)" for c
    using that keep [of c] fields_frame [of s3 c s1] priv_cores [OF s1(3)] by simp
  have sub: "files_ok s (remove1 n cs)"
    by (rule files_okI) (metis files_okD(1) [OF cs(4)] notin_set_remove1, metis files_okD(2) [OF cs(4)] notin_set_remove1)
  have "datas s3 di = datas s di" if c: "c \<in> set (remove1 n cs)" "priv s c = Some di" for c di
  proof -
    have "dp \<noteq> Some di" using dp c files_okD(2) [OF cs(4) _ c(2), of n] ne [of c] nc(1) notin_set_remove1 [of c cs n] by auto
    then show ?thesis using s3(3) s2(4) eq1(1) by (cases dp) auto
  qed
  then have "files_ok s3 (remove1 n cs)" using pr by (intro files_ok_cong [OF sub])
  moreover have "fresh s3"
  proof -
    have "nodes s3 x = None" "datas s3 x = None" if "requests (fs_pool s) \<le> x" for x
    proof -
      have "x \<noteq> n" "nodes s x = None" "datas s x = None"
        using that cs(3) dir_okD(5) [OF cs(1) nc(1)] by (auto simp: fresh_def)
      then show "nodes s3 x = None" "datas s3 x = None"
        using s3(2,3) s2(2,4) eq1 cores_live [OF s1(3), of x] by (cases dp; simp)+
    qed
    then show ?thesis using s3(4) s2(3) eq1(2) by (simp add: fresh_def)
  qed
  ultimately have "dir_inv p s3 (m(name := None))" using d3 dir_inv_def by blast
  then show ?thesis using s1(1) s2(1) s3(1) by simp
qed

lemma unlink_spec:
  assumes inv: "dir_inv p s m"
  shows "\<exists>err s'. ramfs_dir_unlink p name s = Some (err, s') \<and>
    (err < 0 \<and> s' = s \<or> err = VFS_OK \<and> m name \<noteq> None \<and> dir_inv p s' (m(name := None)))"
proof -
  obtain cs where cs: "dir_ok s p cs" "dir_map s cs = m" using inv by (auto simp: dir_inv_def)
  obtain pd where pd: "nodes s p = Some pd" using dir_okD(1) [OF cs(1)] by auto
  note f = dir_find [OF cs(1) pd, of name, unfolded cs(2)]
  show ?thesis
  proof (cases "m name")
    case None
    then show ?thesis using pd f by (simp add: ramfs_dir_unlink_def)
  next
    case (Some n)
    then obtain nd where nd: "nodes s n = Some nd" using dir_map_in [of s cs name n] cs dir_okD(5) [OF cs(1)] by blast
    obtain s' where "do { s1 \<leftarrow> ramfs_remove_child p n s; s2 \<leftarrow> ramfs_data_free (n_private nd) s1; vfs_node_unref (Some n) s2 } = Some s'"
        "dir_inv p s' (m(name := None))"
      using removed_entry [OF inv Some, of "n_private nd"] nd by auto
    then show ?thesis using pd f Some nd by (auto simp: ramfs_dir_unlink_def bind_eq_Some_conv)
  qed
qed

lemma rmdir_spec:
  assumes inv: "dir_inv p s m"
  shows "\<exists>err s'. ramfs_dir_rmdir p name s = Some (err, s') \<and>
    (err < 0 \<and> s' = s \<or> err = VFS_OK \<and> m name \<noteq> None \<and> dir_inv p s' (m(name := None)))"
proof -
  obtain cs where cs: "dir_ok s p cs" "dir_map s cs = m" using inv by (auto simp: dir_inv_def)
  obtain pd where pd: "nodes s p = Some pd" using dir_okD(1) [OF cs(1)] by auto
  note f = dir_find [OF cs(1) pd, of name, unfolded cs(2)]
  show ?thesis
  proof (cases "m name")
    case None
    then show ?thesis using pd f by (simp add: ramfs_dir_rmdir_def)
  next
    case (Some n)
    then obtain nd where nd: "nodes s n = Some nd" using dir_map_in [of s cs name n] cs dir_okD(5) [OF cs(1)] by blast
    obtain s' where "do { s1 \<leftarrow> ramfs_remove_child p n s; s2 \<leftarrow> ramfs_data_free None s1; vfs_node_unref (Some n) s2 } = Some s'"
        "dir_inv p s' (m(name := None))"
      using removed_entry [OF inv Some, of None] by auto
    then show ?thesis using pd f Some nd by (auto simp: ramfs_dir_rmdir_def ramfs_data_free_def bind_eq_Some_conv)
  qed
qed

section \<open>A directory is a name space\<close>

definition remove_entry :: "nat \<Rightarrow> bool \<Rightarrow> string \<Rightarrow> fs \<Rightarrow> (int \<times> fs) option" where
  "remove_entry p is_dir = (if is_dir then ramfs_dir_rmdir p else ramfs_dir_unlink p)"

interpretation dir: name_space "dir_inv p" "ramfs_dir_finddir p" "\<lambda>type name. ramfs_dir_create p name type" "remove_entry p"
  VFS_NAME_MAX for p
proof
  fix s m and x :: string
  assume "dir_inv p s m"
  then show "\<exists>s'. ramfs_dir_finddir p x s = Some (m x, s') \<and> dir_inv p s' m" using finddir_spec by metis
next
  fix s m k and x :: string
  assume "dir_inv p s m" "length x \<le> VFS_NAME_MAX"
  from create_spec [OF this, of k] obtain err s' where "ramfs_dir_create p x k s = Some (err, s')"
      "if m x \<noteq> None then err = VFS_EEXIST \<and> dir_inv p s' m
       else err = VFS_ENOMEM \<and> dir_inv p s' m \<or> err = VFS_OK \<and> (\<exists>n. n \<notin> ran m \<and> dir_inv p s' (m(x \<mapsto> n)))" by blast
  then show "\<exists>r s'. ramfs_dir_create p x k s = Some (r, s') \<and>
      (r < 0 \<and> dir_inv p s' m \<or> r = 0 \<and> m x = None \<and> (\<exists>n. n \<notin> ran m \<and> dir_inv p s' (m(x \<mapsto> n))))"
    by (cases "m x") auto
next
  fix s m b and x :: string
  assume "dir_inv p s m"
  then show "\<exists>r s'. remove_entry p b x s = Some (r, s') \<and>
      (r < 0 \<and> dir_inv p s' m \<or> r = 0 \<and> m x \<noteq> None \<and> dir_inv p s' (m(x := None)))"
    using unlink_spec [of p s m x] rmdir_spec [of p s m x] by (cases b) (auto simp: remove_entry_def)
qed

section \<open>Renaming\<close>

text \<open>Linking a directory into itself.\<close>

lemma add_to_itself:
  assumes "nodes s p \<noteq> None" "kids s p \<noteq> Some p" and "\<And>k. kids s p = Some k \<Longrightarrow> nodes s k \<noteq> None"
  obtains s' where "ramfs_add_child p p s = Some s'" "cores s' = cores s" "kids s' = (kids s)(p := Some p)"
    "nxt s' = (nxt s)(p := kids s p)" "\<And>y. y \<noteq> p \<Longrightarrow> kids s p \<noteq> Some y \<Longrightarrow> prv s' y = prv s y"
proof -
  obtain pd where nd: "nodes s p = Some pd" using assms(1) by auto
  show thesis
  proof (cases "n_children pd")
    case None
    then show thesis
      using nd
      by (intro that [of "s\<lparr>nodes := (nodes s)(p \<mapsto>
            pd\<lparr>n_parent := Some p, n_next := None, n_prev := None, n_children := Some p\<rparr>)\<rparr>"])
        (auto simp: ramfs_add_child_def upd_node_def cores_def nxt_def prv_def kids_def fun_eq_iff)
  next
    case (Some k)
    then obtain kd where k: "nodes s k = Some kd" "k \<noteq> p" using assms(2,3) nd by (auto simp: kids_def)
    then show thesis
      using nd Some
      by (intro that [of "s\<lparr>nodes := (nodes s)(k \<mapsto> kd\<lparr>n_prev := Some p\<rparr>,
            p \<mapsto> pd\<lparr>n_parent := Some p, n_next := Some k, n_prev := None, n_children := Some p\<rparr>)\<rparr>"])
        (auto simp: ramfs_add_child_def upd_node_def cores_def nxt_def prv_def kids_def fun_eq_iff)
  qed
qed

lemma rename_node:
  assumes "nodes s n = Some nd"
  obtains s' where "upd_node n (\<lambda>nd. nd\<lparr>n_name := new\<rparr>) s = Some s'" "nodes s' n \<noteq> None"
    "name_of s' = (name_of s)(n := new)" "nxt s' = nxt s" "prv s' = prv s" "kids s' = kids s"
    "\<And>x. x \<noteq> n \<Longrightarrow> nodes s' x = nodes s x" "\<And>x. nodes s' x = None \<longleftrightarrow> nodes s x = None"
proof -
  show thesis
    using assms
    by (intro that [of "s\<lparr>nodes := (nodes s)(n \<mapsto> nd\<lparr>n_name := new\<rparr>)\<rparr>"])
      (auto simp: upd_node_def name_of_def cores_def nxt_def prv_def kids_def fun_eq_iff)
qed

lemma rename_run:
  assumes p: "dir_ok s p cs" and n: "dir_map s cs old = Some n" "nodes s n = Some nd" "n_open_count nd = 0"
    and q: "dir_ok s q ds" "dir_map s ds new = None" and len: "length new \<le> VFS_NAME_MAX"
    and run: "ramfs_remove_child p n s = Some s1" "upd_node n (\<lambda>nd. nd\<lparr>n_name := new\<rparr>) s1 = Some s2"
      "ramfs_add_child q n s2 = Some s3"
  shows "ramfs_dir_rename p old q new s = Some (VFS_OK, s3)"
proof -
  obtain pd qd where "nodes s p = Some pd" "nodes s q = Some qd" using dir_okD(1) [OF p] dir_okD(1) [OF q(1)] by auto
  then show ?thesis
    using dir_find [OF p, of pd old] dir_find [OF q(1), of qd new] n q(2) run len by (simp add: ramfs_dir_rename_def)
qed

section \<open>Sample directories\<close>

text \<open>Node 1 is a directory with the entries \<open>a\<close> (node 3) and \<open>d\<close> (node 2), an empty directory.\<close>

definition dir_fs :: fs where
  "dir_fs = blank_fs\<lparr>nodes :=
     [1 \<mapsto> zero_node\<lparr>n_type := VFS_DIR, n_ops := Some ramfs_dir_ops, n_ref_count := 1, n_children := Some 3\<rparr>,
      2 \<mapsto> zero_node\<lparr>n_name := ''d'', n_type := VFS_DIR, n_ops := Some ramfs_dir_ops, n_ref_count := 1, n_parent := Some 1,
        n_prev := Some 3\<rparr>,
      3 \<mapsto> zero_node\<lparr>n_name := ''a'', n_type := VFS_DIR, n_ops := Some ramfs_dir_ops, n_ref_count := 1, n_parent := Some 1,
        n_next := Some 2\<rparr>]\<rparr>"

lemma dir_fs_ok:
  "dir_ok dir_fs 1 [3, 2]" "dir_ok dir_fs 2 []" "dir_ok dir_fs 3 []" "dir_map dir_fs [3, 2] = [''a'' \<mapsto> 3, ''d'' \<mapsto> 2]"
  "fresh dir_fs" "files_ok dir_fs [3, 2]"
  by (auto simp: dir_fs_def dir_ok_def kids_def nxt_def prv_def name_of_def priv_def cores_def core_def zero_node_def
      dir_map_def fresh_def files_ok_def blank_fs_def fun_eq_iff)

lemma dir_fs_names: "dir_map dir_fs [3, 2] ''a'' = Some 3" "dir_map dir_fs [] x = None"
  "\<exists>nd. nodes dir_fs 3 = Some nd \<and> n_open_count nd = 0"
  by (simp_all add: dir_fs_ok(4)) (simp_all add: dir_map_def dir_fs_def zero_node_def)

section \<open>Properties\<close>

text \<open>C31. A ramfs directory is a finite map from names to nodes: over any sequence of lookups, creations and removals with
  names that fit, no operation faults or hangs, every lookup finds what the map holds, a creation that reports
  success adds a name that was free with a node of its own, a removal that reports success deletes its name,
  failures change nothing, and the linked list stays sound.\<close>

theorem ramfs_directory_is_a_map:
  assumes "dir_inv p s m" and "\<forall>c \<in> set ops. length (op_name c) \<le> VFS_NAME_MAX"
  shows "\<exists>log s' m'. dir.run p ops s = Some (log, s') \<and> map fst log = ops \<and> dir_inv p s' m' \<and> explains m log m'"
  using assms by (rule dir.run_explained)

theorem ramfs_directory_is_a_map_witness:
  "\<exists>log s' m'. dir.run 1 [Add VFS_FILE ''b'', Look ''a'', Del True ''a'', Look ''a''] dir_fs = Some (log, s') \<and>
    map fst log = [Add VFS_FILE ''b'', Look ''a'', Del True ''a'', Look ''a''] \<and> dir_inv 1 s' m' \<and>
    explains [''a'' \<mapsto> 3, ''d'' \<mapsto> 2] log m'"
proof (rule ramfs_directory_is_a_map)
  show "dir_inv 1 dir_fs [''a'' \<mapsto> 3, ''d'' \<mapsto> 2]" unfolding dir_inv_def using dir_fs_ok by blast
qed (simp add: VFS_NAME_MAX_def)

text \<open>C32. Renaming between two directories moves the entry: it leaves the first map, appears in the second one under the new
  name with the same node, and both lists stay sound.\<close>

theorem ramfs_rename_moves:
  assumes p: "dir_ok s p cs" and q: "dir_ok s q ds" and pq: "p \<noteq> q" "set cs \<inter> set ds = {}"
    and n: "dir_map s cs old = Some n" "nodes s n = Some nd" "n_open_count nd = 0" "n \<noteq> q"
    and new: "dir_map s ds new = None" "length new \<le> VFS_NAME_MAX"
  shows "\<exists>s'. ramfs_dir_rename p old q new s = Some (0, s') \<and>
    dir_ok s' p (remove1 n cs) \<and> dir_map s' (remove1 n cs) = (dir_map s cs)(old := None) \<and>
    dir_ok s' q (n # ds) \<and> dir_map s' (n # ds) = (dir_map s ds)(new \<mapsto> n)"
proof -
  have nc: "n \<in> set cs" "name_of s n = old" using dir_map_in [OF n(1)] by simp_all
  then have nds: "n \<notin> set ds" using pq by auto
  obtain s1 where s1: "ramfs_remove_child p n s = Some s1" "cores s1 = cores s" "dir_ok s1 p (remove1 n cs)"
      "dir_map s1 (remove1 n cs) = (dir_map s cs)(old := None)" "dir_ok s1 q ds" "dir_map s1 ds = dir_map s ds"
    using dir_remove [OF p nc(1)] q pq nc(2) by (metis inf_commute)
  obtain nd1 where nd1: "nodes s1 n = Some nd1" using n(2) cores_live [OF s1(2), of n] by auto
  obtain s2 where s2: "upd_node n (\<lambda>nd. nd\<lparr>n_name := new\<rparr>) s1 = Some s2" "nodes s2 n \<noteq> None"
      "name_of s2 = (name_of s1)(n := new)" "nxt s2 = nxt s1" "prv s2 = prv s1" "kids s2 = kids s1"
      "\<And>x. nodes s2 x = None \<longleftrightarrow> nodes s1 x = None"
    using rename_node [OF nd1] by metis
  have out: "n \<notin> set (remove1 n cs)" using dir_okD(7) [OF p] by simp
  have keep: "dir_ok s2 r es" "dir_map s2 es = dir_map s1 es" if d: "dir_ok s1 r es" "n \<notin> set es" for r es
  proof -
    have "nxt s2 c = nxt s1 c \<and> prv s2 c = prv s1 c \<and> nodes s2 c \<noteq> None \<and> name_of s2 c = name_of s1 c" if "c \<in> set es" for c
      using that d dir_okD(5) [OF d(1), of c] s2(3,4,5,7) by auto
    then show "dir_ok s2 r es" "dir_map s2 es = dir_map s1 es"
      using dir_frame [OF d(1), of s2] dir_okD(1) [OF d(1)] s2(6,7) by simp_all
  qed
  have nq: "name_of s2 n \<notin> name_of s2 ` set ds"
    using new(1) keep(2) [OF s1(5) nds] s1(6) dir_map_None [of s2 ds new] s2(3) by simp
  obtain s3 where s3: "ramfs_add_child q n s2 = Some s3" "dir_ok s3 q (n # ds)"
      "dir_map s3 (n # ds) = (dir_map s2 ds)(name_of s2 n \<mapsto> n)"
      "dir_ok s3 p (remove1 n cs)" "dir_map s3 (remove1 n cs) = dir_map s2 (remove1 n cs)"
  proof (rule dir_add [OF keep(1) [OF s1(5) nds] s2(2) n(4) nds nq])
    fix s' assume a: "ramfs_add_child q n s2 = Some s'" "dir_ok s' q (n # ds)"
        "dir_map s' (n # ds) = (dir_map s2 ds)(name_of s2 n \<mapsto> n)"
        "\<forall>r es. dir_ok s2 r es \<and> r \<noteq> q \<and> n \<notin> set es \<and> set es \<inter> set ds = {} \<longrightarrow> dir_ok s' r es \<and> dir_map s' es = dir_map s2 es"
    have "set (remove1 n cs) \<inter> set ds = {}" using pq(2) set_remove1_subset [of n cs] by blast
    then have "dir_ok s' p (remove1 n cs) \<and> dir_map s' (remove1 n cs) = dir_map s2 (remove1 n cs)"
      using a(4) keep(1) [OF s1(3) out] pq(1) out by blast
    then show thesis using that [OF a(1-3)] by blast
  qed
  have "ramfs_dir_rename p old q new s = Some (0, s3)"
    using rename_run [OF p n(1-3) q new s1(1) s2(1) s3(1)] .
  then show ?thesis using s3 s1(4,6) keep(2) [OF s1(3) out] keep(2) [OF s1(5) nds] s2(3) by simp
qed

theorem ramfs_rename_moves_witness:
  "\<exists>s'. ramfs_dir_rename 1 ''a'' 2 ''z'' dir_fs = Some (0, s') \<and> dir_ok s' 2 [3]"
proof -
  obtain nd where "nodes dir_fs 3 = Some nd" "n_open_count nd = 0" using dir_fs_names(3) by blast
  from ramfs_rename_moves [OF dir_fs_ok(1,2) _ _ dir_fs_names(1) this _ dir_fs_names(2), of "''z''"]
  show ?thesis by (auto simp: VFS_NAME_MAX_def)
qed

text \<open>C33. A defect of renaming: a directory can be moved into itself.  The operation reports success, the directory leaves its
  parent and becomes its own first child, so nothing below it can be reached from the root any more.\<close>

theorem ramfs_rename_into_itself:
  assumes p: "dir_ok s p cs" and a: "dir_ok s n ds" and d: "set cs \<inter> set ds = {}"
    and n: "dir_map s cs old = Some n" "nodes s n = Some nd" "n_open_count nd = 0"
    and new: "dir_map s ds new = None" "length new \<le> VFS_NAME_MAX"
  shows "\<exists>s' cs'. ramfs_dir_rename p old n new s = Some (0, s') \<and> kids s' n = Some n \<and> dir_ok s' p cs' \<and> n \<notin> set cs'"
proof -
  have nc: "n \<in> set cs" using dir_map_in [OF n(1)] by simp
  have np: "n \<noteq> p" using nc dir_okD(4) [OF p] by auto
  obtain s1 where s1: "ramfs_remove_child p n s = Some s1" "cores s1 = cores s" "dir_ok s1 p (remove1 n cs)" "dir_ok s1 n ds"
    using dir_remove [OF p nc] a np d by (metis inf_commute)
  obtain nd1 where nd1: "nodes s1 n = Some nd1" using n(2) cores_live [OF s1(2), of n] by auto
  obtain s2 where s2: "upd_node n (\<lambda>nd. nd\<lparr>n_name := new\<rparr>) s1 = Some s2" "nodes s2 n \<noteq> None"
      "name_of s2 = (name_of s1)(n := new)" "nxt s2 = nxt s1" "prv s2 = prv s1" "kids s2 = kids s1"
      "\<And>x. nodes s2 x = None \<longleftrightarrow> nodes s1 x = None"
    using rename_node [OF nd1] by metis
  have k: "kids s2 n = first_of ds" using dir_okD(2) [OF s1(4)] s2(6) by simp
  have "kids s2 n \<noteq> Some n" "\<And>k. kids s2 n = Some k \<Longrightarrow> nodes s2 k \<noteq> None"
    using k first_of_in_set dir_okD(4,5) [OF s1(4)] s2(7) by metis+
  then obtain s3 where s3: "ramfs_add_child n n s2 = Some s3" "cores s3 = cores s2" "kids s3 = (kids s2)(n := Some n)"
      "nxt s3 = (nxt s2)(n := kids s2 n)" "\<And>y. y \<noteq> n \<Longrightarrow> kids s2 n \<noteq> Some y \<Longrightarrow> prv s3 y = prv s2 y"
    using add_to_itself [OF s2(2)] by metis
  have out: "n \<notin> set (remove1 n cs)" using dir_okD(7) [OF p] by simp
  have "nxt s3 c = nxt s1 c \<and> prv s3 c = prv s1 c \<and> nodes s3 c \<noteq> None \<and> name_of s3 c = name_of s1 c"
    if c: "c \<in> set (remove1 n cs)" for c
  proof -
    have "c \<noteq> n" "c \<notin> set ds" using c out d set_remove1_subset [of n cs] by auto
    then show ?thesis
      using s3(4,5) s2(3,4,5) k first_of_in_set [of ds c] name_of_cores [OF s3(2)] cores_live [OF s3(2), of c] s2(7)
        dir_okD(5) [OF s1(3) c] by auto
  qed
  then have "dir_ok s3 p (remove1 n cs)"
    using dir_frame(1) [OF s1(3), of s3] dir_okD(1) [OF s1(3)] cores_live [OF s3(2), of p] s2(6,7) s3(3) np by simp
  moreover have "ramfs_dir_rename p old n new s = Some (0, s3)"
    using rename_run [OF p n a new s1(1) s2(1) s3(1)] .
  ultimately show ?thesis using s3(3) out by fastforce
qed

theorem ramfs_rename_into_itself_witness:
  "\<exists>s'. ramfs_dir_rename 1 ''a'' 3 ''b'' dir_fs = Some (0, s') \<and> kids s' 3 = Some 3"
proof -
  obtain nd where "nodes dir_fs 3 = Some nd" "n_open_count nd = 0" using dir_fs_names(3) by blast
  from ramfs_rename_into_itself [OF dir_fs_ok(1,3) _ dir_fs_names(1) this dir_fs_names(2), of "''b''"]
  show ?thesis by (auto simp: VFS_NAME_MAX_def)
qed

end
