(* ===== verification/Fd_Table.thy ===== *)
theory Fd_Table
  imports Pipe
begin

text \<open>
  \<^verbatim>\<open>kernel/fs/fd_table.c\<close>: the descriptor tables of processes, and \<open>pipe_create\<close> of
  \<^verbatim>\<open>kernel/fs/pipe.c\<close>, which enters both ends of a new pipe into the table of the current process.
\<close>

definition FD_MAX :: int where
  "FD_MAX = 256"

abbreviation (input) FD_CLOEXEC :: u32 where "FD_CLOEXEC \<equiv> 1"

text \<open>\<open>node->ops->close\<close>: the close operations of ramfs do nothing.\<close>

definition node_close :: "nat \<Rightarrow> fs \<Rightarrow> fs option" where
  "node_close node s =
     do { nd \<leftarrow> nodes s node;
          case n_ops nd of
            None \<Rightarrow> Some s
          | Some ops \<Rightarrow> (if ops = pipe_read_ops \<or> ops = pipe_write_ops then pipe_close node s else Some s) }"

text \<open>Dropping one reference to an open file, and closing it with the last one: the inner blocks of
  \<open>fd_table_destroy\<close> and \<open>fd_table_close_cloexec\<close>.\<close>

definition drop_file :: "nat \<Rightarrow> fs \<Rightarrow> fs option" where
  "drop_file f s =
     do { fl \<leftarrow> files s f;
          s1 \<leftarrow> (if 0 < f_ref_count fl then upd_file f (\<lambda>fl. fl\<lparr>f_ref_count := f_ref_count fl - 1\<rparr>) s else Some s);
          fl1 \<leftarrow> files s1 f;
          if f_ref_count fl1 = 0 then
            do { s2 \<leftarrow> (case f_node fl1 of
                        None \<Rightarrow> Some s1
                      | Some n \<Rightarrow>
                          do { s3 \<leftarrow> node_close n s1;
                               s4 \<leftarrow> upd_node n (\<lambda>nd. nd\<lparr>n_open_count := n_open_count nd - 1\<rparr>) s3;
                               vfs_node_unref (Some n) s4 });
                 Some (s2\<lparr>files := (files s2)(f := None)\<rparr>) }
          else Some s1 }"

definition zero_entry :: fd_entry where
  "zero_entry = \<lparr>e_file = None, e_flags = 0\<rparr>"

definition fd_table_create :: "fs \<Rightarrow> ptr \<times> fs" where
  "fd_table_create s =
     (case new_object s of
        (None, s1) \<Rightarrow> (None, s1)
      | (Some t, s1) \<Rightarrow>
          (Some t, s1\<lparr>tables := (tables s1)(t \<mapsto> \<lparr>entries = (\<lambda>i. zero_entry), t_ref_count = 1\<rparr>)\<rparr>))"

definition fdt_set_file :: "nat \<Rightarrow> ptr \<Rightarrow> fd_table \<Rightarrow> fd_table" where
  "fdt_set_file i f t = t\<lparr>entries := (entries t)(i := (entries t i)\<lparr>e_file := f\<rparr>)\<rparr>"

definition fdt_set :: "nat \<Rightarrow> fd_entry \<Rightarrow> fd_table \<Rightarrow> fd_table" where
  "fdt_set i e t = t\<lparr>entries := (entries t)(i := e)\<rparr>"

definition destroy_entry :: "nat \<Rightarrow> nat \<Rightarrow> fs \<Rightarrow> fs option" where
  "destroy_entry fdt i s =
     do { t \<leftarrow> tables s fdt;
          case e_file (entries t i) of
            None \<Rightarrow> Some s
          | Some f \<Rightarrow> do { s1 \<leftarrow> upd_table fdt (fdt_set_file i None) s; drop_file f s1 } }"

definition fd_table_destroy :: "ptr \<Rightarrow> fs \<Rightarrow> fs option" where
  "fd_table_destroy fdtp s =
     (case fdtp of
        None \<Rightarrow> Some s
      | Some fdt \<Rightarrow>
          do { s1 \<leftarrow> upd_table fdt (\<lambda>t. t\<lparr>t_ref_count := t_ref_count t - 1\<rparr>) s;
               t \<leftarrow> tables s1 fdt;
               if 0 < t_ref_count t then Some s1
               else do { s2 \<leftarrow> for_each (destroy_entry fdt) [0..<nat FD_MAX] s1;
                         Some (s2\<lparr>tables := (tables s2)(fdt := None)\<rparr>) } })"

definition clone_entry :: "nat \<Rightarrow> nat \<Rightarrow> nat \<Rightarrow> fs \<Rightarrow> fs option" where
  "clone_entry src dst i s =
     do { t \<leftarrow> tables s src;
          case e_file (entries t i) of
            None \<Rightarrow> Some s
          | Some f \<Rightarrow>
              do { s1 \<leftarrow> upd_table dst (fdt_set i \<lparr>e_file = Some f, e_flags = e_flags (entries t i)\<rparr>) s;
                   s2 \<leftarrow> upd_file f (\<lambda>fl. fl\<lparr>f_ref_count := f_ref_count fl + 1\<rparr>) s1;
                   fl \<leftarrow> files s2 f;
                   vfs_node_ref (f_node fl) s2 } }"

definition fd_table_clone :: "ptr \<Rightarrow> fs \<Rightarrow> (ptr \<times> fs) option" where
  "fd_table_clone srcp s =
     (case srcp of
        None \<Rightarrow> Some (fd_table_create s)
      | Some src \<Rightarrow>
          (case fd_table_create s of
             (None, s1) \<Rightarrow> Some (None, s1)
           | (Some dst, s1) \<Rightarrow>
               do { s2 \<leftarrow> for_each (clone_entry src dst) [0..<nat FD_MAX] s1; Some (Some dst, s2) }))"

definition fd_table_free :: "ptr \<Rightarrow> int \<Rightarrow> fs \<Rightarrow> (ptr \<times> fs) option" where
  "fd_table_free fdtp fd s =
     (case fdtp of
        None \<Rightarrow> Some (None, s)
      | Some fdt \<Rightarrow>
          if fd < 0 \<or> FD_MAX \<le> fd then Some (None, s)
          else do { t \<leftarrow> tables s fdt;
                    s1 \<leftarrow> upd_table fdt (fdt_set (nat fd) zero_entry) s;
                    Some (e_file (entries t (nat fd)), s1) })"

definition cloexec_entry :: "nat \<Rightarrow> nat \<Rightarrow> fs \<Rightarrow> fs option" where
  "cloexec_entry fdt i s =
     do { t \<leftarrow> tables s fdt;
          if e_file (entries t i) \<noteq> None \<and> test_flag (e_flags (entries t i)) FD_CLOEXEC then
            do { (fp, s1) \<leftarrow> fd_table_free (Some fdt) (int i) s;
                 case fp of None \<Rightarrow> Some s1 | Some f \<Rightarrow> drop_file f s1 }
          else Some s }"

definition fd_table_close_cloexec :: "ptr \<Rightarrow> fs \<Rightarrow> fs option" where
  "fd_table_close_cloexec fdtp s =
     (case fdtp of
        None \<Rightarrow> Some s
      | Some fdt \<Rightarrow> for_each (cloexec_entry fdt) [0..<nat FD_MAX] s)"

text \<open>The limit is a 64-bit number that the check converts to \<open>int\<close>.\<close>

definition rlimit_as_int :: "u64 \<Rightarrow> int" where
  "rlimit_as_int l = sint (ucast l :: u32)"

definition open_count :: "fd_table \<Rightarrow> nat" where
  "open_count t = length (filter (\<lambda>i. e_file (entries t i) \<noteq> None) [0..<nat FD_MAX])"

definition limit_exceeded :: "fd_table \<Rightarrow> fs \<Rightarrow> bool" where
  "limit_exceeded t s \<longleftrightarrow>
     (case current s of None \<Rightarrow> False | Some pr \<Rightarrow> rlimit_as_int (pr_nofile pr) \<le> int (open_count t))"

definition fd_table_alloc :: "ptr \<Rightarrow> ptr \<Rightarrow> u32 \<Rightarrow> fs \<Rightarrow> (int \<times> fs) option" where
  "fd_table_alloc fdtp fp flags s =
     (case (fdtp, fp) of
        (Some fdt, Some f) \<Rightarrow>
          do { t \<leftarrow> tables s fdt;
               if limit_exceeded t s then Some (-1, s)
               else
                 (case List.find (\<lambda>i. e_file (entries t i) = None) [0..<nat FD_MAX] of
                    None \<Rightarrow> Some (-1, s)
                  | Some i \<Rightarrow>
                      do { s1 \<leftarrow> upd_table fdt (fdt_set i \<lparr>e_file = Some f, e_flags = flags\<rparr>) s;
                           Some (int i, s1) }) }
      | _ \<Rightarrow> Some (-1, s))"

definition fd_table_alloc_at :: "ptr \<Rightarrow> int \<Rightarrow> ptr \<Rightarrow> u32 \<Rightarrow> fs \<Rightarrow> (int \<times> fs) option" where
  "fd_table_alloc_at fdtp fd fp flags s =
     (case (fdtp, fp) of
        (Some fdt, Some f) \<Rightarrow>
          if fd < 0 \<or> FD_MAX \<le> fd then Some (-1, s)
          else
            do { t \<leftarrow> tables s fdt;
                 if e_file (entries t (nat fd)) \<noteq> None then Some (-1, s)
                 else
                   do { s1 \<leftarrow> upd_table fdt (fdt_set (nat fd) \<lparr>e_file = Some f, e_flags = flags\<rparr>) s;
                        Some (fd, s1) } }
      | _ \<Rightarrow> Some (-1, s))"

definition fd_table_get :: "ptr \<Rightarrow> int \<Rightarrow> fs \<Rightarrow> ptr option" where
  "fd_table_get fdtp fd s =
     (case fdtp of
        None \<Rightarrow> Some None
      | Some fdt \<Rightarrow>
          if fd < 0 \<or> FD_MAX \<le> fd then Some None
          else do { t \<leftarrow> tables s fdt; Some (e_file (entries t (nat fd))) })"

definition fd_table_get_flags :: "ptr \<Rightarrow> int \<Rightarrow> fs \<Rightarrow> int option" where
  "fd_table_get_flags fdtp fd s =
     (case fdtp of
        None \<Rightarrow> Some (-1)
      | Some fdt \<Rightarrow>
          if fd < 0 \<or> FD_MAX \<le> fd then Some (-1)
          else do { t \<leftarrow> tables s fdt;
                    if e_file (entries t (nat fd)) = None then Some (-1)
                    else Some (sint (e_flags (entries t (nat fd)))) })"

definition fd_table_set_flags :: "ptr \<Rightarrow> int \<Rightarrow> u32 \<Rightarrow> fs \<Rightarrow> (int \<times> fs) option" where
  "fd_table_set_flags fdtp fd flags s =
     (case fdtp of
        None \<Rightarrow> Some (-1, s)
      | Some fdt \<Rightarrow>
          if fd < 0 \<or> FD_MAX \<le> fd then Some (-1, s)
          else do { t \<leftarrow> tables s fdt;
                    if e_file (entries t (nat fd)) = None then Some (-1, s)
                    else do { s1 \<leftarrow> upd_table fdt
                                (\<lambda>t. fdt_set (nat fd) ((entries t (nat fd))\<lparr>e_flags := flags\<rparr>) t) s;
                              Some (0, s1) } })"

section \<open>Creating a pipe\<close>

definition new_pipe :: pipe where
  "new_pipe = \<lparr>p_buffer = (\<lambda>i. 0), p_read_pos = 0, p_write_pos = 0, p_count = 0, p_readers = 1, p_writers = 1\<rparr>"

definition pipe_node :: "node_ops \<Rightarrow> u32 \<Rightarrow> nat \<Rightarrow> vfs_node \<Rightarrow> vfs_node" where
  "pipe_node ops perm pp nd =
     nd\<lparr>n_name := ''pipe'', n_type := VFS_PIPE, n_ops := Some ops, n_private := Some pp,
        n_permissions := perm, n_ref_count := 1\<rparr>"

definition zero_file :: file_t where
  "zero_file = \<lparr>f_node = None, f_offset = 0, f_flags = 0, f_ref_count = 0, f_dir_index = 0\<rparr>"

definition free_file :: "ptr \<Rightarrow> fs \<Rightarrow> fs" where
  "free_file fp s = (case fp of None \<Rightarrow> s | Some f \<Rightarrow> s\<lparr>files := (files s)(f := None)\<rparr>)"

definition free_pipe :: "nat \<Rightarrow> fs \<Rightarrow> fs" where
  "free_pipe pp s = s\<lparr>pipes := (pipes s)(pp := None)\<rparr>"

text \<open>The last part of \<open>pipe_create\<close>: both descriptors, or none of the five objects stays allocated.\<close>

definition pipe_install :: "ptr \<Rightarrow> nat \<Rightarrow> nat \<Rightarrow> nat \<Rightarrow> nat \<Rightarrow> nat \<Rightarrow> fs \<Rightarrow> (int \<times> (int \<times> int) \<times> fs) option" where
  "pipe_install fdt pp rn wn rfile wfile s =
     (let undo = (\<lambda>s. do { let s1 = free_file (Some rfile) (free_file (Some wfile) s);
                           s2 \<leftarrow> vfs_node_free (Some wn) s1;
                           s3 \<leftarrow> vfs_node_free (Some rn) s2;
                           Some (free_pipe pp s3) }) in
      do { (rfd, s1) \<leftarrow> fd_table_alloc fdt (Some rfile) 0 s;
           if rfd < 0 then do { s2 \<leftarrow> undo s1; Some (- VFS_EMFILE, (-1, -1), s2) }
           else
             do { (wfd, s3) \<leftarrow> fd_table_alloc fdt (Some wfile) 0 s1;
                  if wfd < 0 then
                    do { (_, s4) \<leftarrow> fd_table_free fdt rfd s3;
                         s5 \<leftarrow> undo s4;
                         Some (- VFS_EMFILE, (-1, -1), s5) }
                  else Some (0, (rfd, wfd), s3) } })"

definition pipe_create :: "fs \<Rightarrow> (int \<times> (int \<times> int) \<times> fs) option" where
  "pipe_create s =
     (case current s of
        None \<Rightarrow> Some (- VFS_EINVAL, (-1, -1), s)
      | Some pr \<Rightarrow>
          if pr_fd_table pr = None then Some (- VFS_EINVAL, (-1, -1), s)
          else
            (case new_object s of
               (None, s1) \<Rightarrow> Some (- VFS_ENOMEM, (-1, -1), s1)
             | (Some pp, s1) \<Rightarrow>
                 let s2 = s1\<lparr>pipes := (pipes s1)(pp \<mapsto> new_pipe)\<rparr> in
                 (case vfs_node_alloc s2 of
                    (None, s3) \<Rightarrow> Some (- VFS_ENOMEM, (-1, -1), free_pipe pp s3)
                  | (Some rn, s3) \<Rightarrow>
                      do { s4 \<leftarrow> upd_node rn (pipe_node pipe_read_ops 4 pp) s3;
                           case vfs_node_alloc s4 of
                             (None, s5) \<Rightarrow>
                               do { s6 \<leftarrow> vfs_node_free (Some rn) s5;
                                    Some (- VFS_ENOMEM, (-1, -1), free_pipe pp s6) }
                           | (Some wn, s5) \<Rightarrow>
                               do { s6 \<leftarrow> upd_node wn (pipe_node pipe_write_ops 2 pp) s5;
                                    case new_object s6 of
                                      (rptr, s7) \<Rightarrow>
                                    (case new_object s7 of
                                       (wptr, s8) \<Rightarrow>
                                    (case (rptr, wptr) of
                                       (Some rfile, Some wfile) \<Rightarrow>
                                         pipe_install (pr_fd_table pr) pp rn wn rfile wfile
                                           (s8\<lparr>files := (files s8)
                                             (rfile \<mapsto> zero_file\<lparr>f_node := Some rn, f_flags := O_RDONLY, f_ref_count := 1\<rparr>,
                                              wfile \<mapsto> zero_file\<lparr>f_node := Some wn, f_flags := O_WRONLY, f_ref_count := 1\<rparr>)\<rparr>)
                                     | _ \<Rightarrow>
                                         do { let s9 = free_file wptr (free_file rptr s8);
                                              s10 \<leftarrow> vfs_node_free (Some wn) s9;
                                              s11 \<leftarrow> vfs_node_free (Some rn) s10;
                                              Some (- VFS_ENOMEM, (-1, -1), free_pipe pp s11) })) } })))"

end
