(* ===== verification/Vfs.thy ===== *)
theory Vfs
  imports Fd_Table Ramfs
begin

text \<open>
  \<^verbatim>\<open>kernel/fs/vfs.c\<close> over ramfs and pipes: registration, mounting, path resolution, the file, directory and
  ownership operations.  Paths are the characters before the terminator; the check for a NULL path that opens
  each operation, and the one for the marker \<open>(file_t *)1\<close>, which nothing stores, have no counterpart.  Calls through the operation tables
  go to the operations of ramfs and pipes; the \<open>mount\<close> and \<open>unmount\<close> functions of the registered file
  systems are arguments of \<open>vfs_mount\<close> and \<open>vfs_unmount\<close>.
\<close>

section \<open>Registration and mounting\<close>

definition vfs_init :: "fs \<Rightarrow> fs" where
  "vfs_init s =
     s\<lparr>registered_fs := [], mount_list := None, vfs_root := None, kernel_fds := (\<lambda>i. None)\<rparr>"

definition vfs_register_fs :: "string option \<Rightarrow> fs \<Rightarrow> int \<times> fs" where
  "vfs_register_fs fsname s =
     (case fsname of
        None \<Rightarrow> (VFS_EINVAL, s)
      | Some name \<Rightarrow>
          if name \<in> set (registered_fs s) then (VFS_EEXIST, s)
          else if VFS_MAX_FS \<le> length (registered_fs s) then (VFS_ENOMEM, s)
          else (VFS_OK, s\<lparr>registered_fs := registered_fs s @ [name]\<rparr>))"

definition vfs_unregister_fs :: "string option \<Rightarrow> fs \<Rightarrow> int \<times> fs" where
  "vfs_unregister_fs fsname s =
     (case fsname of
        None \<Rightarrow> (VFS_EINVAL, s)
      | Some name \<Rightarrow>
          if name \<in> set (registered_fs s)
          then (VFS_OK, s\<lparr>registered_fs := remove1 name (registered_fs s)\<rparr>)
          else (VFS_ENOENT, s))"

definition vfs_find_fs :: "string \<Rightarrow> fs \<Rightarrow> string option" where
  "vfs_find_fs name s = List.find (\<lambda>n. n = name) (registered_fs s)"

definition vfs_mount_op :: "(string \<Rightarrow> fs \<Rightarrow> (ptr \<times> fs) option) \<Rightarrow> string \<Rightarrow> string \<Rightarrow> fs \<Rightarrow> (int \<times> fs) option" where
  "vfs_mount_op mount_op target fstype s =
     (case vfs_find_fs fstype s of
        None \<Rightarrow> Some (VFS_EINVAL, s)
      | Some name \<Rightarrow>
          (case new_object s of
             (None, s1) \<Rightarrow> Some (VFS_ENOMEM, s1)
           | (Some m, s1) \<Rightarrow>
               do { (rp, s2) \<leftarrow> mount_op name s1;
                    case rp of
                      None \<Rightarrow> Some (VFS_EIO, s2)
                    | Some root \<Rightarrow>
                        do { s3 \<leftarrow> upd_node root (\<lambda>nd. nd\<lparr>n_mount := Some m\<rparr>) s2;
                             let s4 = (if target = ''/'' then s3\<lparr>vfs_root := Some root\<rparr> else s3);
                             Some (VFS_OK, s4\<lparr>mounts := (mounts s4)(m \<mapsto>
                                \<lparr>m_path = take (VFS_PATH_MAX - 1) target, m_root = Some root, m_fs = name,
                                 m_next = mount_list s4\<rparr>), mount_list := Some m\<rparr>) } }))"

text \<open>The search for a mount point, with the element before it.\<close>

partial_function (option) find_mount :: "fs \<Rightarrow> ptr \<Rightarrow> ptr \<Rightarrow> string \<Rightarrow> (ptr \<times> nat) option option" where
  "find_mount s prv mp target =
     (case mp of
        None \<Rightarrow> Some None
      | Some m \<Rightarrow>
          do { mnt \<leftarrow> mounts s m;
               if m_path mnt = target then Some (Some (prv, m)) else find_mount s (Some m) (m_next mnt) target })"

definition vfs_unmount :: "(string \<Rightarrow> nat \<Rightarrow> fs \<Rightarrow> fs option) \<Rightarrow> string \<Rightarrow> fs \<Rightarrow> (int \<times> fs) option" where
  "vfs_unmount unmount_op target s =
     do { r \<leftarrow> find_mount s None (mount_list s) target;
          case r of
            None \<Rightarrow> Some (VFS_ENOENT, s)
          | Some (prv, m) \<Rightarrow>
              do { mnt \<leftarrow> mounts s m;
                   s1 \<leftarrow> (case prv of
                           None \<Rightarrow> Some (s\<lparr>mount_list := m_next mnt\<rparr>)
                         | Some p \<Rightarrow>
                             do { pm \<leftarrow> mounts s p;
                                  Some (s\<lparr>mounts := (mounts s)(p \<mapsto> pm\<lparr>m_next := m_next mnt\<rparr>)\<rparr>) });
                   s2 \<leftarrow> unmount_op (m_fs mnt) m s1;
                   let s3 = (if target = ''/'' then s2\<lparr>vfs_root := None\<rparr> else s2);
                   Some (VFS_OK, s3\<lparr>mounts := (mounts s3)(m := None)\<rparr>) } }"

section \<open>Path resolution\<close>

definition lookup_in_dir :: "nat \<Rightarrow> string \<Rightarrow> fs \<Rightarrow> (ptr \<times> fs) option" where
  "lookup_in_dir dir name s =
     do { nd \<leftarrow> nodes s dir;
          if n_type nd \<noteq> VFS_DIR then Some (None, s)
          else if name = ''.'' then do { s1 \<leftarrow> vfs_node_ref (Some dir) s; Some (Some dir, s1) }
          else if name = ''..'' then
            (let parent = (case n_parent nd of Some p \<Rightarrow> p | None \<Rightarrow> dir) in
             do { s1 \<leftarrow> vfs_node_ref (Some parent) s; Some (Some parent, s1) })
          else if n_ops nd = Some ramfs_dir_ops then ramfs_dir_finddir dir name s
          else Some (None, s) }"

lemma skip_component_shorter:
  assumes "q = dropWhile (\<lambda>c. c = CHR ''/'') p" "q \<noteq> []"
  shows "length (drop (length (take VFS_NAME_MAX (takeWhile (\<lambda>c. c \<noteq> CHR ''/'') q))) q) < length p"
proof -
  define a where "a = length (take VFS_NAME_MAX (takeWhile (\<lambda>c. c \<noteq> CHR ''/'') q))"
  have "hd q \<noteq> CHR ''/''" using assms hd_dropWhile [of "\<lambda>c. c = CHR ''/''" p] by auto
  then have "0 < a"
    using assms(2) by (cases q) (auto simp: a_def VFS_NAME_MAX_def)
  moreover have "length q \<le> length p" using assms(1) length_dropWhile_le by simp
  moreover have "0 < length q" using assms(2) by simp
  ultimately have "length (drop a q) < length p" unfolding length_drop by linarith
  then show ?thesis by (simp add: a_def)
qed

function lookup_loop :: "nat \<Rightarrow> string \<Rightarrow> fs \<Rightarrow> (ptr \<times> fs) option" where
  "lookup_loop cur p s =
     (let q = dropWhile (\<lambda>c. c = CHR ''/'') p in
      if q = [] then Some (Some cur, s)
      else
        let name = take VFS_NAME_MAX (takeWhile (\<lambda>c. c \<noteq> CHR ''/'') q) in
        do { (nx, s1) \<leftarrow> lookup_in_dir cur name s;
             s2 \<leftarrow> vfs_node_unref (Some cur) s1;
             case nx of
               None \<Rightarrow> Some (None, s2)
             | Some n \<Rightarrow> lookup_loop n (drop (length name) q) s2 })"
  by pat_completeness auto
termination
  by (relation "measure (\<lambda>(cur, p, s). length p)") (use skip_component_shorter in force)+

declare lookup_loop.simps [simp del]

definition vfs_lookup :: "string \<Rightarrow> fs \<Rightarrow> (ptr \<times> fs) option" where
  "vfs_lookup path s =
     (case vfs_root s of
        None \<Rightarrow> Some (None, s)
      | Some root \<Rightarrow>
          do { s1 \<leftarrow> vfs_node_ref (Some root) s;
               if path = [] \<or> path = ''/'' then Some (Some root, s1)
               else lookup_loop root (if hd path = CHR ''/'' then tl path else path) s1 })"

text \<open>\<open>strrchr (path, '/')\<close>: what comes before and after the last slash.\<close>

definition split_last_slash :: "string \<Rightarrow> (string \<times> string) option" where
  "split_last_slash path =
     (if CHR ''/'' \<in> set path then
        let after = rev (takeWhile (\<lambda>c. c \<noteq> CHR ''/'') (rev path))
        in Some (take (length path - length after - 1) path, after)
      else None)"

definition vfs_lookup_parent :: "string \<Rightarrow> nat \<Rightarrow> fs \<Rightarrow> (ptr \<times> string \<times> fs) option" where
  "vfs_lookup_parent path name_size s =
     (case split_last_slash path of
        None \<Rightarrow> do { (p, s1) \<leftarrow> vfs_lookup ''/'' s; Some (p, take (name_size - 1) path, s1) }
      | Some (before, after) \<Rightarrow>
          if before = [] then do { (p, s1) \<leftarrow> vfs_lookup ''/'' s; Some (p, take (name_size - 1) after, s1) }
          else do { (p, s1) \<leftarrow> vfs_lookup (take (VFS_PATH_MAX - 1) before) s;
                    Some (p, take (name_size - 1) after, s1) })"

section \<open>Descriptors\<close>

definition get_current_fd_table :: "fs \<Rightarrow> ptr" where
  "get_current_fd_table s = (case current s of None \<Rightarrow> None | Some pr \<Rightarrow> pr_fd_table pr)"

definition alloc_fd :: "nat \<Rightarrow> fs \<Rightarrow> (int \<times> fs) option" where
  "alloc_fd f s =
     (case get_current_fd_table s of
        Some fdt \<Rightarrow> fd_table_alloc (Some fdt) (Some f) 0 s
      | None \<Rightarrow>
          (case List.find (\<lambda>i. kernel_fds s i = None) [0..<nat VFS_MAX_FDS] of
             None \<Rightarrow> Some (-1, s)
           | Some i \<Rightarrow> Some (int i, s\<lparr>kernel_fds := (kernel_fds s)(i := Some f)\<rparr>)))"

definition free_fd :: "int \<Rightarrow> fs \<Rightarrow> fs option" where
  "free_fd fd s =
     (if fd < 0 \<or> VFS_MAX_FDS \<le> fd then Some s
      else
        (case get_current_fd_table s of
           Some fdt \<Rightarrow> do { (_, s1) \<leftarrow> fd_table_free (Some fdt) fd s; Some s1 }
         | None \<Rightarrow> Some (s\<lparr>kernel_fds := (kernel_fds s)(nat fd := None)\<rparr>)))"

definition get_file :: "int \<Rightarrow> fs \<Rightarrow> ptr option" where
  "get_file fd s =
     (if fd < 0 \<or> VFS_MAX_FDS \<le> fd then Some None
      else
        (case get_current_fd_table s of
           Some fdt \<Rightarrow> fd_table_get (Some fdt) fd s
         | None \<Rightarrow> Some (kernel_fds s (nat fd))))"

text \<open>The common start of the operations on descriptors: the open file and its node, or an error.\<close>

definition fd_node :: "int \<Rightarrow> fs \<Rightarrow> (nat \<times> file_t \<times> nat \<times> vfs_node) option option" where
  "fd_node fd s =
     do { fp \<leftarrow> get_file fd s;
          case fp of
            None \<Rightarrow> Some None
          | Some f \<Rightarrow>
              do { fl \<leftarrow> files s f;
                   case f_node fl of
                     None \<Rightarrow> Some None
                   | Some n \<Rightarrow> do { nd \<leftarrow> nodes s n; Some (Some (f, fl, n, nd)) } } }"

section \<open>Permissions\<close>

definition required_access :: "u32 \<Rightarrow> u32" where
  "required_access access_mode =
     (if test_flag access_mode O_RDWR then 6 else if test_flag access_mode O_WRONLY then 2 else 4)"

definition vfs_check_permission :: "vfs_node \<Rightarrow> u32 \<Rightarrow> fs \<Rightarrow> int" where
  "vfs_check_permission nd access_mode s =
     (if n_type nd = VFS_CHARDEV \<or> n_type nd = VFS_BLKDEV \<or> n_type nd = VFS_DIR then VFS_OK
      else
        (case current s of
           None \<Rightarrow> VFS_OK
         | Some pr \<Rightarrow>
             let required = required_access access_mode in
             if pr_euid pr = 0 then VFS_OK
             else if pr_euid pr = n_uid nd then
               (if (drop_bit 6 (n_permissions nd) AND 7) AND required = required then VFS_OK else -13)
             else if pr_egid pr = n_gid nd then
               (if (drop_bit 3 (n_permissions nd) AND 7) AND required = required then VFS_OK else -13)
             else if (n_permissions nd AND 7) AND required = required then VFS_OK else -13))"

section \<open>Files\<close>

text \<open>The node of a path, created first when it does not exist and \<open>O_CREAT\<close> asks for it; \<open>Inl\<close> is an error.\<close>

definition open_node :: "string \<Rightarrow> u32 \<Rightarrow> fs \<Rightarrow> ((int + nat) \<times> fs) option" where
  "open_node path flags s =
     do { (np, s1) \<leftarrow> vfs_lookup path s;
          case np of
            Some n \<Rightarrow> Some (Inr n, s1)
          | None \<Rightarrow>
              if \<not> test_flag flags O_CREAT then Some (Inl VFS_ENOENT, s1)
              else
                do { (pp, name, s2) \<leftarrow> vfs_lookup_parent path (VFS_NAME_MAX + 1) s1;
                     case pp of
                       None \<Rightarrow> Some (Inl VFS_ENOENT, s2)
                     | Some parent \<Rightarrow>
                         do { pnd \<leftarrow> nodes s2 parent;
                              if n_type pnd \<noteq> VFS_DIR then
                                do { s3 \<leftarrow> vfs_node_unref (Some parent) s2; Some (Inl VFS_ENOTDIR, s3) }
                              else if n_ops pnd = Some ramfs_dir_ops then
                                do { (err, s3) \<leftarrow> ramfs_dir_create parent name VFS_FILE s2;
                                     s4 \<leftarrow> vfs_node_unref (Some parent) s3;
                                     if err \<noteq> VFS_OK then Some (Inl err, s4)
                                     else
                                       do { (np2, s5) \<leftarrow> vfs_lookup path s4;
                                            case np2 of
                                              None \<Rightarrow> Some (Inl VFS_ENOENT, s5)
                                            | Some n \<Rightarrow> Some (Inr n, s5) } }
                              else do { s3 \<leftarrow> vfs_node_unref (Some parent) s2; Some (Inl VFS_EIO, s3) } } } }"

definition vfs_open :: "string \<Rightarrow> u32 \<Rightarrow> fs \<Rightarrow> (int \<times> fs) option" where
  "vfs_open path flags s =
     do { (r, s1) \<leftarrow> open_node path flags s;
          case r of
            Inl err \<Rightarrow> Some (err, s1)
          | Inr n \<Rightarrow>
              do { nd \<leftarrow> nodes s1 n;
                   if test_flag flags O_DIRECTORY \<and> n_type nd \<noteq> VFS_DIR then
                     do { s2 \<leftarrow> vfs_node_unref (Some n) s1; Some (VFS_ENOTDIR, s2) }
                   else
                     let perm_err = vfs_check_permission nd (flags AND O_ACCMODE) s1 in
                     if perm_err \<noteq> VFS_OK then
                       do { s2 \<leftarrow> vfs_node_unref (Some n) s1; Some (perm_err, s2) }
                     else
                       (case new_object s1 of
                          (None, s2) \<Rightarrow> do { s3 \<leftarrow> vfs_node_unref (Some n) s2; Some (VFS_ENOMEM, s3) }
                        | (Some f, s2) \<Rightarrow>
                            let s3 = s2\<lparr>files := (files s2)
                                  (f \<mapsto> zero_file\<lparr>f_node := Some n, f_flags := flags, f_ref_count := 1\<rparr>)\<rparr> in
                            do { (fd, s4) \<leftarrow> alloc_fd f s3;
                                 if fd < 0 then
                                   do { s5 \<leftarrow> vfs_node_unref (Some n) (free_file (Some f) s4); Some (VFS_EMFILE, s5) }
                                 else
                                   do { s5 \<leftarrow> upd_node n (\<lambda>nd. nd\<lparr>n_open_count := n_open_count nd + 1\<rparr>) s4;
                                        s6 \<leftarrow> (if test_flag flags O_TRUNC \<and> n_type nd = VFS_FILE \<and>
                                                  n_ops nd = Some ramfs_file_ops
                                               then do { (_, s7) \<leftarrow> ramfs_file_truncate n 0 s5; Some s7 }
                                               else Some s5);
                                        nd6 \<leftarrow> nodes s6 n;
                                        s8 \<leftarrow> (if test_flag flags O_APPEND
                                               then upd_file f (\<lambda>fl. fl\<lparr>f_offset := n_size nd6\<rparr>) s6
                                               else Some s6);
                                        Some (fd, s8) } }) } }"

definition vfs_close :: "int \<Rightarrow> fs \<Rightarrow> fs option" where
  "vfs_close fd s =
     do { fp \<leftarrow> get_file fd s;
          case fp of
            None \<Rightarrow> Some s
          | Some f \<Rightarrow>
              do { fl \<leftarrow> files s f;
                   s1 \<leftarrow> (case f_node fl of
                           None \<Rightarrow> Some s
                         | Some n \<Rightarrow>
                             do { s2 \<leftarrow> node_close n s;
                                  s3 \<leftarrow> upd_node n (\<lambda>nd. nd\<lparr>n_open_count := n_open_count nd - 1\<rparr>) s2;
                                  vfs_node_unref (Some n) s3 });
                   free_fd fd (free_file (Some f) s1) } }"

text \<open>\<open>node->ops->read\<close> and \<open>node->ops->write\<close>; \<open>None\<close> inside is a missing operation.\<close>

definition node_read :: "node_ops \<Rightarrow> nat \<Rightarrow> u64 \<Rightarrow> u64 \<Rightarrow> fs \<Rightarrow> (int \<times> u8 list \<times> fs) option option" where
  "node_read ops n sz offset s =
     (case ops of
        ramfs_file_ops \<Rightarrow> Some (do { (r, bs) \<leftarrow> ramfs_file_read n sz offset s; Some (r, bs, s) })
      | pipe_read_ops \<Rightarrow> Some (pipe_read n (unat sz) s)
      | _ \<Rightarrow> None)"

definition node_write :: "node_ops \<Rightarrow> nat \<Rightarrow> u8 list \<Rightarrow> u64 \<Rightarrow> fs \<Rightarrow> (int \<times> fs) option option" where
  "node_write ops n src offset s =
     (case ops of
        ramfs_file_ops \<Rightarrow> Some (ramfs_file_write n src offset s)
      | pipe_write_ops \<Rightarrow> Some (pipe_write n src s)
      | _ \<Rightarrow> None)"

definition has_write :: "node_ops \<Rightarrow> bool" where
  "has_write ops \<longleftrightarrow> ops = ramfs_file_ops \<or> ops = pipe_write_ops"

definition advance :: "nat \<Rightarrow> int \<Rightarrow> fs \<Rightarrow> fs option" where
  "advance f bytes s =
     (if 0 < bytes then upd_file f (\<lambda>fl. fl\<lparr>f_offset := f_offset fl + word_of_int bytes\<rparr>) s else Some s)"

definition vfs_read :: "int \<Rightarrow> bool \<Rightarrow> u64 \<Rightarrow> fs \<Rightarrow> (int \<times> u8 list \<times> fs) option" where
  "vfs_read fd has_buf sz s =
     (if \<not> has_buf then do { _ \<leftarrow> get_file fd s; Some (VFS_EBADF, [], s) }
      else
        do { r \<leftarrow> fd_node fd s;
             case r of
               None \<Rightarrow> Some (VFS_EBADF, [], s)
             | Some (f, fl, n, nd) \<Rightarrow>
                 if f_flags fl AND O_ACCMODE = O_WRONLY then Some (VFS_EBADF, [], s)
                 else if n_type nd = VFS_DIR then Some (VFS_EISDIR, [], s)
                 else
                   (case n_ops nd of
                      None \<Rightarrow> Some (VFS_EIO, [], s)
                    | Some ops \<Rightarrow>
                        (case node_read ops n sz (f_offset fl) s of
                           None \<Rightarrow> Some (VFS_EIO, [], s)
                         | Some res \<Rightarrow>
                             do { (bytes, data, s1) \<leftarrow> res; s2 \<leftarrow> advance f bytes s1; Some (bytes, data, s2) })) })"

definition vfs_write :: "int \<Rightarrow> u8 list option \<Rightarrow> fs \<Rightarrow> (int \<times> fs) option" where
  "vfs_write fd buf s =
     (case buf of
        None \<Rightarrow> do { _ \<leftarrow> get_file fd s; Some (VFS_EBADF, s) }
      | Some src \<Rightarrow>
          do { r \<leftarrow> fd_node fd s;
               case r of
                 None \<Rightarrow> Some (VFS_EBADF, s)
               | Some (f, fl, n, nd) \<Rightarrow>
                   if f_flags fl AND O_ACCMODE = O_RDONLY then Some (VFS_EBADF, s)
                   else if n_type nd = VFS_DIR then Some (VFS_EISDIR, s)
                   else
                     (case n_ops nd of
                        None \<Rightarrow> Some (VFS_EIO, s)
                      | Some ops \<Rightarrow>
                          if \<not> has_write ops then Some (VFS_EIO, s)
                          else
                            do { s0 \<leftarrow> (if test_flag (f_flags fl) O_APPEND
                                        then upd_file f (\<lambda>fl. fl\<lparr>f_offset := n_size nd\<rparr>) s else Some s);
                                 fl0 \<leftarrow> files s0 f;
                                 res \<leftarrow> node_write ops n src (f_offset fl0) s0;
                                 (bytes, s1) \<leftarrow> res;
                                 s2 \<leftarrow> advance f bytes s1;
                                 Some (bytes, s2) }) })"

text \<open>Offsets are 64-bit numbers, added with wrap-around and read as signed.\<close>

definition vfs_seek :: "int \<Rightarrow> u64 \<Rightarrow> int \<Rightarrow> fs \<Rightarrow> (int \<times> fs) option" where
  "vfs_seek fd offset whence s =
     do { r \<leftarrow> fd_node fd s;
          case r of
            None \<Rightarrow> Some (VFS_EBADF, s)
          | Some (f, fl, n, nd) \<Rightarrow>
              if whence \<noteq> 0 \<and> whence \<noteq> 1 \<and> whence \<noteq> 2 then Some (VFS_EINVAL, s)
              else
                let new_offset = (if whence = 0 then offset else if whence = 1 then f_offset fl + offset
                                  else n_size nd + offset) in
                if sint new_offset < 0 then Some (VFS_EINVAL, s)
                else do { s1 \<leftarrow> upd_file f (\<lambda>fl. fl\<lparr>f_offset := new_offset\<rparr>) s; Some (sint new_offset, s1) } }"

record vfs_stat_t =
  st_size :: u64
  st_type :: u32
  st_permissions :: u32
  st_uid :: u32
  st_gid :: u32
  st_nlink :: u32
  st_dev :: u32
  st_rdev :: u32
  st_ino :: nat
  st_atime :: u64
  st_mtime :: u64
  st_ctime :: u64

definition stat_of :: "nat \<Rightarrow> vfs_node \<Rightarrow> vfs_stat_t" where
  "stat_of n nd =
     \<lparr>st_size = n_size nd, st_type = n_type nd, st_permissions = n_permissions nd, st_uid = n_uid nd,
      st_gid = n_gid nd, st_nlink = n_nlink nd, st_dev = 0, st_rdev = n_rdev nd, st_ino = n,
      st_atime = n_atime nd, st_mtime = n_mtime nd, st_ctime = n_ctime nd\<rparr>"

definition vfs_stat :: "string \<Rightarrow> fs \<Rightarrow> (int \<times> vfs_stat_t option \<times> fs) option" where
  "vfs_stat path s =
     do { (np, s1) \<leftarrow> vfs_lookup path s;
          case np of
            None \<Rightarrow> Some (VFS_ENOENT, None, s1)
          | Some n \<Rightarrow>
              do { nd \<leftarrow> nodes s1 n;
                   s2 \<leftarrow> vfs_node_unref (Some n) s1;
                   Some (VFS_OK, Some (stat_of n nd), s2) } }"

definition vfs_fstat :: "int \<Rightarrow> fs \<Rightarrow> (int \<times> vfs_stat_t option) option" where
  "vfs_fstat fd s =
     do { r \<leftarrow> fd_node fd s;
          case r of
            None \<Rightarrow> Some (VFS_EBADF, None)
          | Some (f, fl, n, nd) \<Rightarrow> Some (VFS_OK, Some (stat_of n nd)) }"

definition vfs_truncate :: "string \<Rightarrow> u64 \<Rightarrow> fs \<Rightarrow> (int \<times> fs) option" where
  "vfs_truncate path sz s =
     do { (np, s1) \<leftarrow> vfs_lookup path s;
          case np of
            None \<Rightarrow> Some (VFS_ENOENT, s1)
          | Some n \<Rightarrow>
              do { nd \<leftarrow> nodes s1 n;
                   if n_type nd \<noteq> VFS_FILE then do { s2 \<leftarrow> vfs_node_unref (Some n) s1; Some (VFS_EISDIR, s2) }
                   else
                     do { (err, s2) \<leftarrow> (if n_ops nd = Some ramfs_file_ops then ramfs_file_truncate n sz s1
                                        else Some (VFS_EIO, s1));
                          s3 \<leftarrow> vfs_node_unref (Some n) s2;
                          Some (err, s3) } } }"

text \<open>Neither ramfs nor pipes have an \<open>ioctl\<close> operation.\<close>

definition vfs_ioctl :: "int \<Rightarrow> fs \<Rightarrow> int option" where
  "vfs_ioctl fd s = do { r \<leftarrow> fd_node fd s; Some (if r = None then VFS_EBADF else VFS_EINVAL) }"

section \<open>Duplicating descriptors\<close>

definition share_file :: "nat \<Rightarrow> fs \<Rightarrow> fs option" where
  "share_file f s =
     do { s1 \<leftarrow> upd_file f (\<lambda>fl. fl\<lparr>f_ref_count := f_ref_count fl + 1\<rparr>) s;
          fl \<leftarrow> files s1 f;
          vfs_node_ref (f_node fl) s1 }"

definition unshare_file :: "nat \<Rightarrow> fs \<Rightarrow> fs option" where
  "unshare_file f s =
     do { s1 \<leftarrow> upd_file f (\<lambda>fl. fl\<lparr>f_ref_count := f_ref_count fl - 1\<rparr>) s;
          fl \<leftarrow> files s1 f;
          vfs_node_unref (f_node fl) s1 }"

definition vfs_dup :: "int \<Rightarrow> fs \<Rightarrow> (int \<times> fs) option" where
  "vfs_dup oldfd s =
     do { fp \<leftarrow> get_file oldfd s;
          case fp of
            None \<Rightarrow> Some (VFS_EBADF, s)
          | Some f \<Rightarrow>
              do { s1 \<leftarrow> share_file f s;
                   (newfd, s2) \<leftarrow> alloc_fd f s1;
                   if newfd < 0 then do { s3 \<leftarrow> unshare_file f s2; Some (VFS_EMFILE, s3) }
                   else Some (newfd, s2) } }"

definition vfs_dup2 :: "int \<Rightarrow> int \<Rightarrow> fs \<Rightarrow> (int \<times> fs) option" where
  "vfs_dup2 oldfd newfd s =
     (if oldfd < 0 \<or> VFS_MAX_FDS \<le> oldfd \<or> newfd < 0 \<or> VFS_MAX_FDS \<le> newfd then Some (VFS_EBADF, s)
      else
        do { fp \<leftarrow> get_file oldfd s;
             case fp of
               None \<Rightarrow> Some (VFS_EBADF, s)
             | Some f \<Rightarrow>
                 if oldfd = newfd then Some (newfd, s)
                 else
                   do { op \<leftarrow> get_file newfd s;
                        s1 \<leftarrow> (case op of None \<Rightarrow> Some s | Some _ \<Rightarrow> vfs_close newfd s);
                        s2 \<leftarrow> share_file f s1;
                        case get_current_fd_table s2 of
                          Some fdt \<Rightarrow>
                            do { (r, s3) \<leftarrow> fd_table_alloc_at (Some fdt) newfd (Some f) 0 s2;
                                 if r < 0 then do { s4 \<leftarrow> unshare_file f s3; Some (VFS_EBADF, s4) }
                                 else Some (newfd, s3) }
                        | None \<Rightarrow> Some (newfd, s2\<lparr>kernel_fds := (kernel_fds s2)(nat newfd := Some f)\<rparr>) } })"

section \<open>Directories\<close>

text \<open>The common frame of \<open>vfs_mkdir\<close>, \<open>vfs_rmdir\<close> and \<open>vfs_unlink\<close>.\<close>

definition in_parent :: "(nat \<Rightarrow> string \<Rightarrow> fs \<Rightarrow> (int \<times> fs) option) \<Rightarrow> string \<Rightarrow> fs \<Rightarrow> (int \<times> fs) option" where
  "in_parent op path s =
     do { (pp, name, s1) \<leftarrow> vfs_lookup_parent path (VFS_NAME_MAX + 1) s;
          case pp of
            None \<Rightarrow> Some (VFS_ENOENT, s1)
          | Some parent \<Rightarrow>
              do { pnd \<leftarrow> nodes s1 parent;
                   if n_type pnd \<noteq> VFS_DIR then do { s2 \<leftarrow> vfs_node_unref (Some parent) s1; Some (VFS_ENOTDIR, s2) }
                   else
                     do { (err, s2) \<leftarrow> (if n_ops pnd = Some ramfs_dir_ops then op parent name s1 else Some (VFS_EIO, s1));
                          s3 \<leftarrow> vfs_node_unref (Some parent) s2;
                          Some (err, s3) } } }"

definition vfs_mkdir :: "string \<Rightarrow> fs \<Rightarrow> (int \<times> fs) option" where
  "vfs_mkdir = in_parent ramfs_dir_mkdir"

definition vfs_rmdir :: "string \<Rightarrow> fs \<Rightarrow> (int \<times> fs) option" where
  "vfs_rmdir = in_parent ramfs_dir_rmdir"

definition vfs_unlink :: "string \<Rightarrow> fs \<Rightarrow> (int \<times> fs) option" where
  "vfs_unlink = in_parent ramfs_dir_unlink"

definition vfs_rename :: "string \<Rightarrow> string \<Rightarrow> fs \<Rightarrow> (int \<times> fs) option" where
  "vfs_rename oldpath newpath s =
     do { (opp, old_name, s1) \<leftarrow> vfs_lookup_parent oldpath (VFS_NAME_MAX + 1) s;
          case opp of
            None \<Rightarrow> Some (VFS_ENOENT, s1)
          | Some old_parent \<Rightarrow>
              do { (npp, new_name, s2) \<leftarrow> vfs_lookup_parent newpath (VFS_NAME_MAX + 1) s1;
                   case npp of
                     None \<Rightarrow> do { s3 \<leftarrow> vfs_node_unref (Some old_parent) s2; Some (VFS_ENOENT, s3) }
                   | Some new_parent \<Rightarrow>
                       do { ond \<leftarrow> nodes s2 old_parent;
                            nnd \<leftarrow> nodes s2 new_parent;
                            (err, s3) \<leftarrow>
                              (if n_type ond \<noteq> VFS_DIR \<or> n_type nnd \<noteq> VFS_DIR then Some (VFS_ENOTDIR, s2)
                               else if n_ops ond = Some ramfs_dir_ops
                               then ramfs_dir_rename old_parent old_name new_parent new_name s2
                               else Some (VFS_EIO, s2));
                            s4 \<leftarrow> vfs_node_unref (Some old_parent) s3;
                            s5 \<leftarrow> vfs_node_unref (Some new_parent) s4;
                            Some (err, s5) } } }"

definition vfs_readdir :: "int \<Rightarrow> fs \<Rightarrow> (int \<times> dirent option \<times> fs) option" where
  "vfs_readdir fd s =
     do { r \<leftarrow> fd_node fd s;
          case r of
            None \<Rightarrow> Some (VFS_EBADF, None, s)
          | Some (f, fl, n, nd) \<Rightarrow>
              if n_type nd \<noteq> VFS_DIR then Some (VFS_ENOTDIR, None, s)
              else if n_ops nd \<noteq> Some ramfs_dir_ops then Some (VFS_EIO, None, s)
              else
                do { (err, dent) \<leftarrow> ramfs_dir_readdir n (f_dir_index fl) s;
                     if err = VFS_OK then
                       do { s1 \<leftarrow> upd_file f (\<lambda>fl. fl\<lparr>f_dir_index := f_dir_index fl + 1\<rparr>) s; Some (err, dent, s1) }
                     else Some (err, dent, s) } }"

text \<open>The type of a device node from the file type bits of the mode.\<close>

definition mknod_type :: "u32 \<Rightarrow> u32 option" where
  "mknod_type mode =
     (let file_type = mode AND 0xF000 in
      if file_type = 0x2000 then Some VFS_CHARDEV
      else if file_type = 0x6000 then Some VFS_BLKDEV
      else if file_type = 0x8000 then Some VFS_FILE
      else if file_type = 0x1000 then Some VFS_PIPE
      else None)"

definition vfs_mknod :: "string \<Rightarrow> u32 \<Rightarrow> u32 \<Rightarrow> fs \<Rightarrow> (int \<times> fs) option" where
  "vfs_mknod path mode dev s =
     do { (pp, name, s1) \<leftarrow> vfs_lookup_parent path (VFS_NAME_MAX + 1) s;
          case pp of
            None \<Rightarrow> Some (VFS_ENOENT, s1)
          | Some parent \<Rightarrow>
              do { pnd \<leftarrow> nodes s1 parent;
                   if n_type pnd \<noteq> VFS_DIR then do { s2 \<leftarrow> vfs_node_unref (Some parent) s1; Some (VFS_ENOTDIR, s2) }
                   else
                     do { (ep, s2) \<leftarrow> lookup_in_dir parent name s1;
                          case ep of
                            Some e \<Rightarrow>
                              do { s3 \<leftarrow> vfs_node_unref (Some e) s2;
                                   s4 \<leftarrow> vfs_node_unref (Some parent) s3;
                                   Some (VFS_EEXIST, s4) }
                          | None \<Rightarrow>
                              (case mknod_type mode of
                                 None \<Rightarrow> do { s3 \<leftarrow> vfs_node_unref (Some parent) s2; Some (VFS_EINVAL, s3) }
                               | Some vfs_type \<Rightarrow>
                                   (case vfs_node_alloc s2 of
                                      (None, s3) \<Rightarrow>
                                        do { s4 \<leftarrow> vfs_node_unref (Some parent) s3; Some (VFS_ENOMEM, s4) }
                                    | (Some n, s3) \<Rightarrow>
                                        do { p3 \<leftarrow> nodes s3 parent;
                                             s4 \<leftarrow> upd_node n (\<lambda>nd. nd\<lparr>n_name := take VFS_NAME_MAX name,
                                                     n_type := vfs_type, n_permissions := mode AND 0x1FF,
                                                     n_rdev := dev, n_uid := 0, n_gid := 0,
                                                     n_parent := Some parent, n_next := n_children p3\<rparr>) s3;
                                             s5 \<leftarrow> (case n_children p3 of
                                                     None \<Rightarrow> Some s4
                                                   | Some c \<Rightarrow> upd_node c (\<lambda>nd. nd\<lparr>n_prev := Some n\<rparr>) s4);
                                             s6 \<leftarrow> upd_node parent (\<lambda>nd. nd\<lparr>n_children := Some n\<rparr>) s5;
                                             s7 \<leftarrow> vfs_node_unref (Some parent) s6;
                                             Some (VFS_OK, s7) })) } } }"

text \<open>Ramfs has no \<open>symlink\<close> and no \<open>readlink\<close> operation.\<close>

definition vfs_symlink :: "string \<Rightarrow> fs \<Rightarrow> (int \<times> fs) option" where
  "vfs_symlink linkpath s =
     do { (pp, name, s1) \<leftarrow> vfs_lookup_parent linkpath (VFS_NAME_MAX + 1) s;
          case pp of
            None \<Rightarrow> Some (VFS_ENOENT, s1)
          | Some parent \<Rightarrow>
              do { pnd \<leftarrow> nodes s1 parent;
                   if n_type pnd \<noteq> VFS_DIR then do { s2 \<leftarrow> vfs_node_unref (Some parent) s1; Some (VFS_ENOTDIR, s2) }
                   else
                     do { (ep, s2) \<leftarrow> lookup_in_dir parent name s1;
                          s3 \<leftarrow> vfs_node_unref ep s2;
                          s4 \<leftarrow> vfs_node_unref (Some parent) s3;
                          Some (if ep \<noteq> None then VFS_EEXIST else VFS_EIO, s4) } } }"

definition vfs_readlink :: "string \<Rightarrow> nat \<Rightarrow> fs \<Rightarrow> (int \<times> fs) option" where
  "vfs_readlink path sz s =
     (if sz = 0 then Some (VFS_EINVAL, s)
      else
        do { (np, s1) \<leftarrow> vfs_lookup path s;
             case np of
               None \<Rightarrow> Some (VFS_ENOENT, s1)
             | Some n \<Rightarrow>
                 do { nd \<leftarrow> nodes s1 n;
                      s2 \<leftarrow> vfs_node_unref (Some n) s1;
                      Some (if n_type nd \<noteq> VFS_SYMLINK then VFS_EINVAL else VFS_EIO, s2) } })"

section \<open>Mode and owner\<close>

definition change_path :: "(vfs_node \<Rightarrow> vfs_node) \<Rightarrow> string \<Rightarrow> fs \<Rightarrow> (int \<times> fs) option" where
  "change_path f path s =
     do { (np, s1) \<leftarrow> vfs_lookup path s;
          case np of
            None \<Rightarrow> Some (VFS_ENOENT, s1)
          | Some n \<Rightarrow>
              do { s2 \<leftarrow> upd_node n f s1; s3 \<leftarrow> vfs_node_unref (Some n) s2; Some (VFS_OK, s3) } }"

definition change_fd :: "(vfs_node \<Rightarrow> vfs_node) \<Rightarrow> int \<Rightarrow> fs \<Rightarrow> (int \<times> fs) option" where
  "change_fd g fd s =
     do { r \<leftarrow> fd_node fd s;
          case r of
            None \<Rightarrow> Some (VFS_EBADF, s)
          | Some (f, fl, n, nd) \<Rightarrow> do { s1 \<leftarrow> upd_node n g s; Some (VFS_OK, s1) } }"

definition vfs_chmod :: "string \<Rightarrow> u32 \<Rightarrow> fs \<Rightarrow> (int \<times> fs) option" where
  "vfs_chmod path mode = change_path (\<lambda>nd. nd\<lparr>n_permissions := mode AND 0xFFF\<rparr>) path"

definition vfs_fchmod :: "int \<Rightarrow> u32 \<Rightarrow> fs \<Rightarrow> (int \<times> fs) option" where
  "vfs_fchmod fd mode = change_fd (\<lambda>nd. nd\<lparr>n_permissions := mode AND 0xFFF\<rparr>) fd"

definition vfs_chown :: "string \<Rightarrow> u32 \<Rightarrow> u32 \<Rightarrow> fs \<Rightarrow> (int \<times> fs) option" where
  "vfs_chown path uid gid = change_path (\<lambda>nd. nd\<lparr>n_uid := uid, n_gid := gid\<rparr>) path"

definition vfs_fchown :: "int \<Rightarrow> u32 \<Rightarrow> u32 \<Rightarrow> fs \<Rightarrow> (int \<times> fs) option" where
  "vfs_fchown fd uid gid = change_fd (\<lambda>nd. nd\<lparr>n_uid := uid, n_gid := gid\<rparr>) fd"

definition vfs_sync :: int where
  "vfs_sync = VFS_OK"

definition vfs_fsync :: "int \<Rightarrow> fs \<Rightarrow> int option" where
  "vfs_fsync fd s = do { fp \<leftarrow> get_file fd s; Some (if fp = None then VFS_EBADF else VFS_OK) }"

end
