(* ===== verification/Vfs_Correct.thy ===== *)
theory Vfs_Correct
  imports Vfs Ramfs_Files
begin

text \<open>
  Properties of the virtual file system layer: path resolution against a reference definition, descriptors,
  permissions, seeking, and the composition of descriptors with ramfs files.
\<close>

section \<open>Path components\<close>

text \<open>The reference: the non-empty pieces between slashes, looked up one after the other.\<close>

lemma component_shorter:
  assumes "q = dropWhile (\<lambda>c. c = CHR ''/'') p" "q \<noteq> []"
  shows "length (dropWhile (\<lambda>c. c \<noteq> CHR ''/'') q) < length p"
proof -
  have "hd q \<noteq> CHR ''/''" using assms hd_dropWhile [of "\<lambda>c. c = CHR ''/''" p] by auto
  then have "length (dropWhile (\<lambda>c. c \<noteq> CHR ''/'') q) < length q"
    using assms(2) length_dropWhile_le [of "\<lambda>c. c \<noteq> CHR ''/''" "tl q"] by (cases q) (auto simp: less_Suc_eq_le)
  moreover have "length q \<le> length p" using assms(1) length_dropWhile_le by simp
  ultimately show ?thesis by simp
qed

function components :: "string \<Rightarrow> string list" where
  "components p =
     (let q = dropWhile (\<lambda>c. c = CHR ''/'') p in
      if q = [] then []
      else takeWhile (\<lambda>c. c \<noteq> CHR ''/'') q # components (dropWhile (\<lambda>c. c \<noteq> CHR ''/'') q))"
  by pat_completeness auto
termination
  by (relation "measure length") (use component_shorter in force)+

declare components.simps [simp del]

fun walk :: "nat \<Rightarrow> string list \<Rightarrow> fs \<Rightarrow> (ptr \<times> fs) option" where
  "walk cur [] s = Some (Some cur, s)"
| "walk cur (name # names) s =
     do { (nx, s1) \<leftarrow> lookup_in_dir cur name s;
          s2 \<leftarrow> vfs_node_unref (Some cur) s1;
          case nx of None \<Rightarrow> Some (None, s2) | Some n \<Rightarrow> walk n names s2 }"

lemma lookup_loop_walk:
  assumes "\<forall>c \<in> set (components p). length c \<le> VFS_NAME_MAX"
  shows "lookup_loop cur p s = walk cur (components p) s"
  using assms
proof (induction p arbitrary: cur s rule: components.induct)
  case (1 p)
  define q where "q = dropWhile (\<lambda>c. c = CHR ''/'') p"
  show ?case
  proof (cases "q = []")
    case True
    then show ?thesis by (simp add: lookup_loop.simps [of cur p] components.simps [of p] q_def)
  next
    case False
    let ?name = "takeWhile (\<lambda>c. c \<noteq> CHR ''/'') q" and ?rest = "dropWhile (\<lambda>c. c \<noteq> CHR ''/'') q"
    have c: "components p = ?name # components ?rest"
      using False by (subst components.simps) (simp add: q_def [symmetric] Let_def)
    then have "length ?name \<le> VFS_NAME_MAX" "\<forall>c \<in> set (components ?rest). length c \<le> VFS_NAME_MAX"
      using 1(2) by simp_all
    moreover from this have "take VFS_NAME_MAX ?name = ?name" "drop (length ?name) q = ?rest"
      by (simp_all add: dropWhile_eq_drop)
    moreover have "lookup_loop cur' ?rest s' = walk cur' (components ?rest) s'" for cur' s'
      using 1(1) [of q cur' s'] False calculation(2) by (simp add: q_def)
    ultimately show ?thesis
      using False unfolding c by (subst lookup_loop.simps) (simp add: q_def [symmetric] Let_def cong: option.case_cong)
  qed
qed

lemma split_last_slash_spec:
  assumes "split_last_slash path = Some (before, after)"
  shows "path = before @ CHR ''/'' # after" "CHR ''/'' \<notin> set after"
proof -
  have slash: "CHR ''/'' \<in> set path" and after: "after = rev (takeWhile (\<lambda>c. c \<noteq> CHR ''/'') (rev path))"
      and before: "before = take (length path - length after - 1) path"
    using assms by (auto simp: split_last_slash_def Let_def split: if_splits)
  obtain xs ys where p: "path = xs @ CHR ''/'' # ys" "CHR ''/'' \<notin> set ys" using split_list_last [OF slash] by blast
  have "takeWhile (\<lambda>c. c \<noteq> CHR ''/'') (rev ys @ CHR ''/'' # rev xs) = rev ys"
    using p(2) by (intro takeWhile_tail [THEN trans] ) (auto simp: takeWhile_append2)
  then have "after = ys" using after p(1) by simp
  moreover from this have "before = xs" using before p(1) by simp
  ultimately show "path = before @ CHR ''/'' # after" "CHR ''/'' \<notin> set after" using p by simp_all
qed

section \<open>Descriptors\<close>

lemma find_lowest:
  "List.find P [0..<n] = Some i \<longleftrightarrow> i < n \<and> P i \<and> (\<forall>j < i. \<not> P j)"
  by (auto simp: find_Some_iff)

lemma fd_table_alloc_spec:
  assumes "tables s fdt = Some t"
  shows "\<exists>fd s'. fd_table_alloc (Some fdt) (Some f) flags s = Some (fd, s') \<and>
    (if limit_exceeded t s \<or> (\<forall>i < 256. e_file (entries t i) \<noteq> None) then fd = -1 \<and> s' = s
     else \<exists>i < 256. fd = int i \<and> e_file (entries t i) = None \<and> (\<forall>j < i. e_file (entries t j) \<noteq> None) \<and>
       s' = s\<lparr>tables := (tables s)(fdt \<mapsto> fdt_set i \<lparr>e_file = Some f, e_flags = flags\<rparr> t)\<rparr>)"
proof (cases "List.find (\<lambda>i. e_file (entries t i) = None) [0..<nat FD_MAX]")
  case None
  then have "\<forall>i < 256. e_file (entries t i) \<noteq> None" by (auto simp: find_None_iff FD_MAX_def)
  then show ?thesis using assms None by (simp add: fd_table_alloc_def)
next
  case (Some i)
  then have i: "i < 256" "e_file (entries t i) = None" "\<forall>j < i. e_file (entries t j) \<noteq> None"
    unfolding find_lowest by (simp_all add: FD_MAX_def)
  then have nf: "\<not> (\<forall>i < 256. e_file (entries t i) \<noteq> None)" by blast
  show ?thesis
  proof (cases "limit_exceeded t s")
    case True
    then show ?thesis using assms by (simp add: fd_table_alloc_def)
  next
    case False
    then show ?thesis using assms Some i nf by (auto simp: fd_table_alloc_def upd_table_def)
  qed
qed

lemma rlimit_infinity: "rlimit_as_int 0xFFFFFFFFFFFFFFFF = -1"
  by (simp add: rlimit_as_int_def)

section \<open>Permissions\<close>

text \<open>The class of permission bits that applies to a process, by the position of its lowest bit.\<close>

definition perm_class :: "proc \<Rightarrow> vfs_node \<Rightarrow> nat" where
  "perm_class pr nd = (if pr_euid pr = n_uid nd then 6 else if pr_egid pr = n_gid nd then 3 else 0)"

lemma and_subset_iff: "x AND r = r \<longleftrightarrow> (\<forall>i. bit r i \<longrightarrow> bit x i)" for x r :: "'a::len word"
  by (auto simp: bit_eq_iff bit_and_iff dest: bit_imp_le_length)

lemma bit_required: "bit (required_access m) i \<longleftrightarrow>
    (i = 2 \<and> (bit m 1 \<or> \<not> bit m 0)) \<or> (i = 1 \<and> (bit m 1 \<or> bit m 0))"
proof -
  have "test_flag m 2 \<longleftrightarrow> bit m 1" for m :: u32
    using and_exp_eq_0_iff_not_bit [of m 1] by (simp add: test_flag_def)
  moreover have "test_flag m 1 \<longleftrightarrow> bit m 0" for m :: u32
    using and_exp_eq_0_iff_not_bit [of m 0] by (simp add: test_flag_def)
  moreover have "bit (6 :: u32) i \<longleftrightarrow> i = 2 \<or> i = 1" "bit (2 :: u32) i \<longleftrightarrow> i = 1" "bit (4 :: u32) i \<longleftrightarrow> i = 2" for i
    by (auto simp: bit_numeral_rec bit_Suc bit_1_iff split: nat.splits)
  ultimately show ?thesis by (auto simp: required_access_def)
qed

lemma class_bits:
  "(drop_bit c p AND 7) AND r = r \<longleftrightarrow> (\<forall>i. bit r i \<longrightarrow> i < 3 \<and> bit p (c + i))" for p r :: u32
proof -
  have "bit (7 :: u32) i \<longleftrightarrow> i < 3" for i
    using bit_mask_iff [of 3 i, where ?'a = "32 word"] by (auto simp: mask_eq_decr_exp)
  then have "bit (drop_bit c p AND 7) i \<longleftrightarrow> i < 3 \<and> bit p (c + i)" for i
    by (auto simp: bit_and_iff bit_drop_bit_eq)
  then show ?thesis unfolding and_subset_iff by blast
qed

lemma class_bits_required:
  "(drop_bit c p AND 7) AND required_access m = required_access m \<longleftrightarrow>
    ((bit m 1 \<or> \<not> bit m 0) \<longrightarrow> bit p (c + 2)) \<and> ((bit m 1 \<or> bit m 0) \<longrightarrow> bit p (c + 1))"
  unfolding class_bits bit_required by auto

section \<open>A sample file system\<close>

text \<open>A kernel without processes: descriptor 0 is open on file 1 for reading and writing.\<close>

definition open_fs :: fs where
  "open_fs = empty_file_fs\<lparr>files := [5 \<mapsto> zero_file\<lparr>f_node := Some 1, f_offset := 4095, f_flags := O_RDWR, f_ref_count := 1\<rparr>],
     kernel_fds := (\<lambda>i. if i = 0 then Some 5 else None)\<rparr>"

section \<open>Properties\<close>

text \<open>C16. Path resolution agrees with its reference: the non-empty components between slashes, looked up from left to
  right, with a reference taken on each directory and dropped when it is left; for components of at most 255
  characters.  In particular the parsing loop ends.\<close>

theorem vfs_lookup_walks_components:
  assumes "vfs_root s = Some root" and "\<forall>c \<in> set (components path). length c \<le> VFS_NAME_MAX"
  shows "vfs_lookup path s = do { s1 \<leftarrow> vfs_node_ref (Some root) s; walk root (components path) s1 }"
proof -
  have "components (if hd path = CHR ''/'' then tl path else path) = components path" if ne: "path \<noteq> []"
  proof (cases "hd path = CHR ''/''")
    case True
    then obtain p where "path = CHR ''/'' # p" using ne by (cases path) auto
    then show ?thesis by (simp add: components.simps [of "CHR ''/'' # p"] components.simps [of p])
  qed simp
  moreover have "components [] = []" "components ''/'' = []" by (simp_all add: components.simps)
  moreover have "lookup_loop root p s1 = walk root (components p) s1" if "components p = components path" for p s1
    using lookup_loop_walk [of p root s1] assms(2) that by simp
  ultimately show ?thesis using assms(1) by (cases "path = []"; cases "path = ''/''") (simp_all add: vfs_lookup_def)
qed

definition root_fs :: fs where
  "root_fs = blank_fs\<lparr>nodes := [1 \<mapsto> zero_node\<lparr>n_type := VFS_DIR, n_ops := Some ramfs_dir_ops, n_ref_count := 1\<rparr>], vfs_root := Some 1\<rparr>"

lemma sample_components: "components ''//a/bc'' = [''a'', ''bc'']"
  by (simp add: components.simps)

theorem vfs_lookup_walks_components_witness:
  "vfs_lookup ''//a/bc'' root_fs = do { s1 \<leftarrow> vfs_node_ref (Some 1) root_fs; walk 1 [''a'', ''bc''] s1 }"
  using vfs_lookup_walks_components [of root_fs 1 "''//a/bc''"]
  unfolding sample_components by (simp add: root_fs_def VFS_NAME_MAX_def)

text \<open>A defect of path resolution: a component longer than 255 characters is not refused but cut in two, so the rest of
  the name is looked up as if it followed a slash.\<close>

theorem vfs_lookup_splits_long_names:
  assumes "length name = 255" and "CHR ''/'' \<notin> set name" and "CHR ''/'' \<notin> set rest" and "rest \<noteq> []" and "length rest \<le> 255"
  shows "lookup_loop cur (name @ rest) s = lookup_loop cur (name @ CHR ''/'' # rest) s"
proof -
  have tw: "takeWhile (\<lambda>c. c \<noteq> CHR ''/'') (name @ rest) = name @ rest" using assms(2,3) by (subst takeWhile_eq_all_conv) auto
  have tw2: "takeWhile (\<lambda>c. c \<noteq> CHR ''/'') (name @ CHR ''/'' # rest) = name" using assms(2) by (subst takeWhile_append2) auto
  have ne: "name \<noteq> []" using assms(1) by auto
  have dw: "dropWhile (\<lambda>c. c = CHR ''/'') (name @ xs) = name @ xs" for xs
    using assms(2) ne by (cases name) auto
  have "dropWhile (\<lambda>c. c = CHR ''/'') (CHR ''/'' # rest) = dropWhile (\<lambda>c. c = CHR ''/'') rest" by simp
  then have skip: "lookup_loop c (CHR ''/'' # rest) t = lookup_loop c rest t" for c t
    by (simp add: lookup_loop.simps [of c "CHR ''/'' # rest"] lookup_loop.simps [of c rest])
  show ?thesis
    using assms(1) ne
    by (simp add: lookup_loop.simps [of cur "name @ rest"] lookup_loop.simps [of cur "name @ CHR ''/'' # rest"]
        dw tw tw2 VFS_NAME_MAX_def skip cong: option.case_cong)
qed

theorem vfs_lookup_splits_long_names_witness:
  "lookup_loop 1 (replicate 255 CHR ''a'' @ ''b'') root_fs = lookup_loop 1 (replicate 255 CHR ''a'' @ CHR ''/'' # ''b'') root_fs"
  by (rule vfs_lookup_splits_long_names) simp_all

text \<open>The last component of a path: \<open>vfs_lookup_parent\<close> cuts at the last slash, and putting the two parts together
  gives the path back.\<close>

theorem split_last_slash_roundtrip:
  "split_last_slash path = Some (before, after) \<longleftrightarrow> path = before @ CHR ''/'' # after \<and> CHR ''/'' \<notin> set after"
proof
  assume "path = before @ CHR ''/'' # after \<and> CHR ''/'' \<notin> set after"
  moreover from this obtain b a where s: "split_last_slash path = Some (b, a)"
    by (auto simp: split_last_slash_def Let_def)
  ultimately have "before @ CHR ''/'' # after = b @ CHR ''/'' # a" "CHR ''/'' \<notin> set a" "CHR ''/'' \<notin> set after"
    using split_last_slash_spec [OF s] by simp_all
  then have "before = b \<and> after = a" by (auto simp: append_eq_append_conv2 append_eq_Cons_conv Cons_eq_append_conv)
  then show "split_last_slash path = Some (before, after)" using s by simp
qed (use split_last_slash_spec in blast)

text \<open>C19. A descriptor is the lowest free slot of the table; without a free slot, or with as many open files as the limit
  allows, the result is -1 and nothing changes.\<close>

theorem fd_table_alloc_lowest:
  assumes "tables s fdt = Some t"
  shows "\<exists>fd s'. fd_table_alloc (Some fdt) (Some f) flags s = Some (fd, s') \<and>
    (if limit_exceeded t s \<or> (\<forall>i < 256. e_file (entries t i) \<noteq> None) then fd = -1 \<and> s' = s
     else \<exists>i < 256. fd = int i \<and> e_file (entries t i) = None \<and> (\<forall>j < i. e_file (entries t j) \<noteq> None) \<and>
       s' = s\<lparr>tables := (tables s)(fdt \<mapsto> fdt_set i \<lparr>e_file = Some f, e_flags = flags\<rparr> t)\<rparr>)"
  using assms by (rule fd_table_alloc_spec)

theorem fd_table_alloc_lowest_witness:
  "\<exists>fd s'. fd_table_alloc (Some 7) (Some 5) 0
      (blank_fs\<lparr>tables := [7 \<mapsto> \<lparr>entries = (\<lambda>i. zero_entry), t_ref_count = 1\<rparr>]\<rparr>) = Some (fd, s')"
  using fd_table_alloc_lowest [of "blank_fs\<lparr>tables := [7 \<mapsto> \<lparr>entries = (\<lambda>i. zero_entry), t_ref_count = 1\<rparr>]\<rparr>" 7 _ 5 0]
  by fastforce

text \<open>A defect of the limit check: the limit is converted to \<open>int\<close>, so \<open>RLIM_INFINITY\<close> becomes -1 and a process
  without a limit cannot open any file.\<close>

theorem unlimited_process_cannot_open:
  assumes "tables s fdt = Some t" and "current s = Some pr" and "pr_nofile pr = 0xFFFFFFFFFFFFFFFF"
  shows "fd_table_alloc (Some fdt) (Some f) flags s = Some (-1, s)"
  using assms rlimit_infinity by (simp add: fd_table_alloc_def limit_exceeded_def)

theorem unlimited_process_cannot_open_witness:
  "fd_table_alloc (Some 7) (Some 5) 0
     (blank_fs\<lparr>tables := [7 \<mapsto> \<lparr>entries = (\<lambda>i. zero_entry), t_ref_count = 1\<rparr>],
       current := Some \<lparr>pr_fd_table = Some 7, pr_euid = 0, pr_egid = 0, pr_nofile = 0xFFFFFFFFFFFFFFFF\<rparr>\<rparr>) =
   Some (-1, blank_fs\<lparr>tables := [7 \<mapsto> \<lparr>entries = (\<lambda>i. zero_entry), t_ref_count = 1\<rparr>],
       current := Some \<lparr>pr_fd_table = Some 7, pr_euid = 0, pr_egid = 0, pr_nofile = 0xFFFFFFFFFFFFFFFF\<rparr>\<rparr>)"
  by (rule unlimited_process_cannot_open, simp, simp, simp)

text \<open>C18. Access to a file that is not a device or directory, by a process that is not root, is granted exactly when the
  permission class of the process (owner before group before others) has the read bit if the open mode reads
  and the write bit if it writes.\<close>

theorem vfs_check_permission_correct:
  assumes "n_type nd \<notin> {VFS_CHARDEV, VFS_BLKDEV, VFS_DIR}" and "current s = Some pr" and "pr_euid pr \<noteq> 0"
  shows "vfs_check_permission nd mode s =
    (if ((bit mode 1 \<or> \<not> bit mode 0) \<longrightarrow> bit (n_permissions nd) (perm_class pr nd + 2)) \<and>
        ((bit mode 1 \<or> bit mode 0) \<longrightarrow> bit (n_permissions nd) (perm_class pr nd + 1)) then 0 else -13)"
  using assms class_bits_required [of 6 "n_permissions nd" mode] class_bits_required [of 3 "n_permissions nd" mode]
    class_bits_required [of 0 "n_permissions nd" mode]
  by (auto simp: vfs_check_permission_def perm_class_def Let_def)

theorem vfs_check_permission_correct_witness:
  "vfs_check_permission (zero_node\<lparr>n_type := VFS_FILE, n_uid := 1000, n_permissions := 0x1A4\<rparr>) 1
     (blank_fs\<lparr>current := Some \<lparr>pr_fd_table = None, pr_euid = 1001, pr_egid = 5, pr_nofile = 8\<rparr>\<rparr>) = -13"
  using vfs_check_permission_correct [of "zero_node\<lparr>n_type := VFS_FILE, n_uid := 1000, n_permissions := 0x1A4\<rparr>"
      "blank_fs\<lparr>current := Some \<lparr>pr_fd_table = None, pr_euid = 1001, pr_egid = 5, pr_nofile = 8\<rparr>\<rparr>" _ 1]
  by (simp add: VFS_FILE_def VFS_CHARDEV_def VFS_BLKDEV_def VFS_DIR_def perm_class_def zero_node_def)

section \<open>Sharing an open file\<close>

text \<open>What decides which open file a descriptor stands for.\<close>

definition fds :: "fs \<Rightarrow> (nat \<Rightarrow> fd_table option) \<times> (nat \<Rightarrow> ptr) \<times> proc option" where
  "fds s = (tables s, kernel_fds s, current s)"

lemma get_file_fds: "fds s = fds s' \<Longrightarrow> get_file fd s = get_file fd s'"
  by (auto simp: fds_def get_file_def get_current_fd_table_def fd_table_get_def split: option.splits)

lemma fds_frame:
  "upd_node n g s = Some s' \<Longrightarrow> fds s' = fds s"
  "upd_file n h s = Some s' \<Longrightarrow> fds s' = fds s"
  "vfs_node_free np s = Some s' \<Longrightarrow> fds s' = fds s"
  "fds (free_file fp s) = fds s"
  by (auto simp: upd_node_def upd_file_def vfs_node_free_def free_file_def fds_def
      split: Option.bind_splits option.splits)

lemma fds_ref: "vfs_node_ref np s = Some s' \<Longrightarrow> fds s' = fds s"
  by (auto simp: vfs_node_ref_def fds_frame split: option.splits)

lemma fds_unref: "vfs_node_unref np s = Some s' \<Longrightarrow> fds s' = fds s"
  by (auto simp: vfs_node_unref_def split: option.splits Option.bind_splits if_splits dest!: fds_frame(1,3))

lemma fds_share: "share_file f s = Some s' \<Longrightarrow> fds s' = fds s"
  by (auto simp: share_file_def split: Option.bind_splits dest!: fds_frame(2) fds_ref)

lemma fds_node_close: "node_close n s = Some s' \<Longrightarrow> fds s' = fds s"
  by (auto simp: node_close_def pipe_close_def upd_node_def fds_def Let_def
      split: Option.bind_splits option.splits if_splits)

lemma get_file_alloc:
  assumes "alloc_fd f s = Some (fd, s')" and "0 \<le> fd"
  shows "get_file fd s = Some None" "get_file fd' s' = (if fd' = fd then Some (Some f) else get_file fd' s)"
  using assms
  by (auto simp: alloc_fd_def get_file_def get_current_fd_table_def fd_table_alloc_def fd_table_get_def upd_table_def
      fdt_set_def find_Some_iff FD_MAX_def VFS_MAX_FDS_def
      split: option.splits Option.bind_splits if_splits)

lemma get_file_free:
  assumes "free_fd fd s = Some s'" and "fd' \<noteq> fd" and "0 \<le> fd"
  shows "get_file fd' s' = get_file fd' s"
  using assms
  by (auto simp: free_fd_def get_file_def get_current_fd_table_def fd_table_free_def fd_table_get_def upd_table_def
      fdt_set_def FD_MAX_def VFS_MAX_FDS_def nat_eq_iff
      split: option.splits Option.bind_splits if_splits)

lemma free_fd_files: "free_fd fd s = Some s' \<Longrightarrow> files s' = files s"
  by (auto simp: free_fd_def fd_table_free_def upd_table_def split: option.splits Option.bind_splits if_splits)

lemma vfs_close_frees:
  assumes c: "vfs_close fd s = Some s'" and f: "get_file fd s = Some (Some f)" and fd: "0 \<le> fd" "fd' \<noteq> fd"
  shows "files s' f = None" "get_file fd' s' = get_file fd' s"
proof -
  obtain s1 where s1: "fds s1 = fds s" and fr: "free_fd fd (free_file (Some f) s1) = Some s'"
    using c f unfolding vfs_close_def
    by (auto split: Option.bind_splits option.splits dest!: fds_node_close fds_frame(1) fds_unref)
  show "files s' f = None" using free_fd_files [OF fr] by (simp add: free_file_def)
  show "get_file fd' s' = get_file fd' s"
    using get_file_free [OF fr fd(2,1)] get_file_fds [of "free_file (Some f) s1" s fd'] s1 by (simp add: fds_frame)
qed

text \<open>C20. A defect of \<open>vfs_close\<close>: it frees the open file whatever its reference count.  After \<open>vfs_dup\<close>, closing
  the new descriptor frees the file that the old one still stands for, and reading or writing through the old
  one touches freed memory.\<close>

theorem vfs_close_after_dup:
  assumes "get_file oldfd s = Some (Some f)" and "vfs_dup oldfd s = Some (newfd, s1)" and "0 \<le> newfd"
    and "vfs_close newfd s1 = Some s2"
  shows "get_file oldfd s2 = Some (Some f) \<and> files s2 f = None \<and> vfs_read oldfd True n s2 = None \<and>
    vfs_write oldfd (Some src) s2 = None"
proof -
  obtain s0 where sh: "share_file f s = Some s0" and al: "alloc_fd f s0 = Some (newfd, s1)"
    using assms(1,2,3) by (auto simp: vfs_dup_def split: Option.bind_splits if_splits)
  note ga = get_file_alloc [OF al assms(3)]
  have old: "get_file oldfd s0 = Some (Some f)" using get_file_fds [OF fds_share [OF sh]] assms(1) by simp
  then have ne: "oldfd \<noteq> newfd" using ga(1) by auto
  have new: "get_file newfd s1 = Some (Some f)" and old1: "get_file oldfd s1 = Some (Some f)" using ga(2) old ne by simp_all
  have "get_file oldfd s2 = Some (Some f)" and "files s2 f = None"
    using vfs_close_frees [OF assms(4) new assms(3) ne] old1 by simp_all
  then show ?thesis by (simp add: vfs_read_def vfs_write_def fd_node_def)
qed

theorem vfs_close_after_dup_witness:
  "\<exists>newfd s1 s2. vfs_dup 0 open_fs = Some (newfd, s1) \<and> vfs_close newfd s1 = Some s2 \<and> vfs_read 0 True 1 s2 = None"
proof -
  have f: "get_file 0 open_fs = Some (Some 5)"
    by (simp add: get_file_def open_fs_def empty_file_fs_def get_current_fd_table_def blank_fs_def VFS_MAX_FDS_def)
  obtain s1 where d: "vfs_dup 0 open_fs = Some (1, s1)" and c: "vfs_close 1 s1 \<noteq> None"
    by (simp add: vfs_dup_def get_file_def share_file_def upd_file_def vfs_node_ref_def upd_node_def alloc_fd_def
        open_fs_def empty_file_fs_def get_current_fd_table_def blank_fs_def VFS_MAX_FDS_def upt_conv_Cons
        zero_file_def file_node_def zero_node_def vfs_close_def node_close_def vfs_node_unref_def free_fd_def
        free_file_def)
  then obtain s2 where "vfs_close 1 s1 = Some s2" by blast
  then show ?thesis using d vfs_close_after_dup [OF f d] by fastforce
qed

section \<open>Files through descriptors\<close>

text \<open>What writing a file leaves alone: the open files and the descriptors.\<close>

definition handles :: "fs \<Rightarrow> (nat \<Rightarrow> file_t option) \<times> (nat \<Rightarrow> fd_table option) \<times> (nat \<Rightarrow> ptr) \<times> proc option" where
  "handles s = (files s, fds s)"

lemma handles_new: "new_object s = (p, s') \<Longrightarrow> handles s' = handles s"
  by (auto simp: new_object_def handles_def fds_def split: prod.splits)

lemma handles_ensure: "ramfs_ensure_blocks di k s = Some (e, s') \<Longrightarrow> handles s' = handles s"
  by (auto simp: ramfs_ensure_blocks_def Let_def handles_def fds_def
      split: Option.bind_splits prod.splits option.splits if_splits dest!: handles_new)

lemma handles_need: "need_block di i s = Some r \<Longrightarrow> handles (case r of Inl s' \<Rightarrow> s' | Inr (b, s') \<Rightarrow> s') = handles s"
  by (auto simp: need_block_def Let_def handles_def fds_def
      split: Option.bind_splits prod.splits option.splits if_splits dest!: handles_new)

lemma handles_write_loop: "write_loop di pos src s = Some (ok, k, s') \<Longrightarrow> handles s' = handles s"
proof (induction di pos src s arbitrary: ok k s' rule: write_loop.induct)
  case (1 di pos src s)
  show ?case
  proof (cases "src = []")
    case True
    then show ?thesis using 1(2) by (simp add: write_loop.simps)
  next
    case False
    obtain r where r: "need_block di (block_index pos) s = Some r"
      using 1(2) False unfolding write_loop.simps [of di pos src s] by (auto simp: Let_def split: Option.bind_splits)
    show ?thesis
    proof (cases r)
      case (Inl s1)
      then show ?thesis
        using 1(2) False r handles_need [OF r] unfolding write_loop.simps [of di pos src s] by (auto simp: Let_def)
    next
      case (Inr bs)
      obtain b s1 where bs: "bs = (b, s1)" by fastforce
      then show ?thesis
        using 1(2) False r handles_need [OF r] Inr unfolding write_loop.simps [of di pos src s]
        by (auto simp: Let_def handles_def fds_def split: Option.bind_splits
            dest!: 1(1) [OF False refl r Inr bs [symmetric]])
    qed
  qed
qed

lemma handles_write: "ramfs_file_write n src offset s = Some (r, s') \<Longrightarrow> handles s' = handles s"
  by (auto simp: ramfs_file_write_def set_size_def upd_node_def Let_def
      split: Option.bind_splits option.splits if_splits dest!: handles_ensure handles_write_loop)
    (auto simp: handles_def fds_def)

lemma read_loop_files: "read_loop (s\<lparr>files := x\<rparr>) d pos k = read_loop s d pos k"
proof (induction s d pos k rule: read_loop.induct)
  case (1 s d pos k)
  show ?case
  proof (cases "k = 0")
    case False
    have "read_chunk (s\<lparr>files := x\<rparr>) d pos = read_chunk s d pos"
      by (simp add: fun_eq_iff read_chunk_def)
    then show ?thesis
      using 1 [OF False refl] False unfolding read_loop.simps [of _ d pos k] by (simp add: Let_def cong: Option.bind_cong)
  qed (simp add: read_loop.simps)
qed

lemma ramfs_file_read_files: "ramfs_file_read n k off (s\<lparr>files := x\<rparr>) = ramfs_file_read n k off s"
  unfolding ramfs_file_read_def read_loop_files by (simp cong: option.case_cong)

lemma fd_node_eq:
  "fd_node fd s = Some (Some (f, fl, n, nd)) \<longleftrightarrow>
    get_file fd s = Some (Some f) \<and> files s f = Some fl \<and> f_node fl = Some n \<and> nodes s n = Some nd"
  unfolding fd_node_def
  by (cases "get_file fd s") (auto simp: bind_eq_Some_conv split: option.splits)

lemma get_file_handles: "handles s = handles s' \<Longrightarrow> get_file fd s = get_file fd s'"
  by (rule get_file_fds) (simp add: handles_def)

lemma get_file_files [simp]: "get_file fd (s\<lparr>files := x\<rparr>) = get_file fd s"
  by (rule get_file_fds) (simp add: fds_def)

text \<open>A write through a descriptor that reports all its bytes, in terms of the file operation.\<close>

lemma vfs_write_file:
  assumes fd: "fd_node fd s = Some (Some (f, fl, n, nd))" and "f_flags fl AND 3 = O_RDWR"
    and "\<not> test_flag (f_flags fl) O_APPEND" and "n_type nd \<noteq> VFS_DIR" and "n_ops nd = Some ramfs_file_ops"
    and "src \<noteq> []" and w: "vfs_write fd (Some src) s = Some (int (length src), s1)"
  obtains s' where "ramfs_file_write n src (f_offset fl) s = Some (int (length src), s')"
    "s1 = s'\<lparr>files := (files s)(f \<mapsto> fl\<lparr>f_offset := f_offset fl + of_nat (length src)\<rparr>)\<rparr>" "handles s' = handles s"
proof -
  have f: "files s f = Some fl" using fd by (simp add: fd_node_eq)
  obtain s' where s': "ramfs_file_write n src (f_offset fl) s = Some (int (length src), s')"
      and ad: "advance f (int (length src)) s' = Some s1"
    using w assms(2-5) fd f by (auto simp: vfs_write_def has_write_def node_write_def split: Option.bind_splits)
  have h: "handles s' = handles s" using s' by (rule handles_write)
  then have "files s' = files s" by (simp add: handles_def)
  then have "s1 = s'\<lparr>files := (files s)(f \<mapsto> fl\<lparr>f_offset := f_offset fl + of_nat (length src)\<rparr>)\<rparr>"
    using ad f assms(6) by (auto simp: advance_def upd_file_def)
  then show thesis using that s' h by blast
qed

text \<open>C17. Writing, seeking back and reading through one descriptor: after a write that reports all its bytes, \<open>vfs_seek\<close> to the
  old offset and \<open>vfs_read\<close> of as many bytes return the bytes written, and the offset is past them again.\<close>

theorem vfs_write_seek_read:
  assumes fd: "fd_node fd s = Some (Some (f, fl, n, nd))" and fl: "f_flags fl AND 3 = O_RDWR"
    and ap: "\<not> test_flag (f_flags fl) O_APPEND" and ty: "n_type nd \<noteq> VFS_DIR" and ops: "n_ops nd = Some ramfs_file_ops"
    and d: "n_private nd = Some di" "datas s di = Some d" "data_ok s d"
    and sz: "unat (f_offset fl) + length src \<le> 2 ^ 43" "unat (n_size nd) \<le> 2 ^ 43" and ne: "src \<noteq> []"
    and w: "vfs_write fd (Some src) s = Some (int (length src), s1)"
  shows "\<exists>s2 s3. vfs_seek fd (f_offset fl) 0 s1 = Some (uint (f_offset fl), s2) \<and>
    vfs_read fd True (of_nat (length src)) s2 = Some (int (length src), src, s3) \<and>
    map_option f_offset (files s3 f) = Some (f_offset fl + of_nat (length src))"
proof -
  obtain s' where s': "ramfs_file_write n src (f_offset fl) s = Some (int (length src), s')"
      and s1: "s1 = s'\<lparr>files := (files s)(f \<mapsto> fl\<lparr>f_offset := f_offset fl + of_nat (length src)\<rparr>)\<rparr>"
      and h: "handles s' = handles s"
    using vfs_write_file [OF fd fl ap ty ops ne w] .
  have nd: "nodes s n = Some nd" using fd by (simp add: fd_node_eq)
  obtain sz' where n': "nodes s' n = Some (nd\<lparr>n_size := sz'\<rparr>)"
    using ramfs_file_write_spec [OF nd d sz(1)] s' by auto
  have rd: "ramfs_file_read n (of_nat (length src)) (f_offset fl) s' = Some (int (length src), src)"
    using write_then_read [OF nd d sz s'] .
  have sint: "sint (f_offset fl) = uint (f_offset fl)" using sint_small [of "f_offset fl"] sz(1) by simp
  define s2 where "s2 = s1\<lparr>files := (files s1)(f \<mapsto> fl)\<rparr>"
  have g: "get_file fd s' = Some (Some f)" and f: "f_node fl = Some n"
    using get_file_handles [OF h] fd by (simp_all add: fd_node_eq)
  have fd1: "fd_node fd s1 = Some (Some (f, fl\<lparr>f_offset := f_offset fl + of_nat (length src)\<rparr>, n, nd\<lparr>n_size := sz'\<rparr>))"
    unfolding fd_node_eq s1 using g f n' by simp
  have fd2: "fd_node fd s2 = Some (Some (f, fl, n, nd\<lparr>n_size := sz'\<rparr>))"
    unfolding fd_node_eq s1 s2_def using g f n' by simp
  have rd2: "ramfs_file_read n (of_nat (length src)) (f_offset fl) s2 = Some (int (length src), src)"
    unfolding s1 s2_def ramfs_file_read_files by (rule rd)
  have "upd_file f (\<lambda>x. x\<lparr>f_offset := f_offset fl\<rparr>) s1 = Some s2" by (simp add: upd_file_def s1 s2_def)
  then have "vfs_seek fd (f_offset fl) 0 s1 = Some (uint (f_offset fl), s2)"
    using fd1 sint by (simp add: vfs_seek_def)
  moreover have "files s2 f = Some fl" by (simp add: s2_def)
  then have "vfs_read fd True (of_nat (length src)) s2 =
      Some (int (length src), src, s2\<lparr>files := (files s2)(f \<mapsto> fl\<lparr>f_offset := f_offset fl + of_nat (length src)\<rparr>)\<rparr>)"
    using fd2 rd2 fl ty ops ne by (simp add: vfs_read_def node_read_def advance_def upd_file_def)
  ultimately show ?thesis by simp
qed

theorem vfs_write_seek_read_witness:
  "\<exists>s1 s2 s3. vfs_write 0 (Some [7, 8]) open_fs = Some (2, s1) \<and> vfs_seek 0 4095 0 s1 = Some (4095, s2) \<and>
    vfs_read 0 True 2 s2 = Some (2, [7, 8], s3)"
proof -
  let ?fl = "zero_file\<lparr>f_node := Some 1, f_offset := 4095, f_flags := O_RDWR, f_ref_count := 1\<rparr>"
  have fd: "fd_node 0 open_fs = Some (Some (5, ?fl, 1, file_node 0))"
    by (simp add: fd_node_def get_file_def open_fs_def empty_file_fs_def get_current_fd_table_def blank_fs_def
        VFS_MAX_FDS_def)
  obtain s1 where w: "vfs_write 0 (Some [7, 8]) open_fs = Some (int (length [7, 8 :: u8]), s1)"
    by (simp add: vfs_write_def fd_node_def get_file_def get_current_fd_table_def VFS_MAX_FDS_def has_write_def node_write_def
        VFS_FILE_def VFS_DIR_def test_flag_def zero_file_def advance_def upd_file_def open_fs_def
        ramfs_file_write_def ramfs_ensure_blocks_def empty_file_fs_def file_node_def zero_data_def
        RAMFS_BLOCK_SIZE_def RAMFS_INITIAL_BLOCKS_def grow_capacity.simps new_object_def pool_alloc_def blank_fs_def
        write_loop.simps set_size_def upd_node_def zero_node_def need_block_def chunk_size_def block_index_def
        block_offset_def set_slot_def get_slot_def put_bytes_def)
  have d: "n_private (file_node 0) = Some 2" "datas open_fs 2 = Some zero_data" "data_ok open_fs zero_data"
    by (simp_all add: open_fs_def empty_file_fs_def file_node_def data_ok_def zero_data_def get_slot_def)
  have "\<exists>s2 s3. vfs_seek 0 4095 0 s1 = Some (4095, s2) \<and> vfs_read 0 True 2 s2 = Some (2, [7, 8], s3)"
    using vfs_write_seek_read [OF fd _ _ _ _ d _ _ _ w]
    by (auto simp: file_node_def zero_node_def test_flag_def VFS_FILE_def VFS_DIR_def)
  then show ?thesis using w by auto
qed

end
