(* ===== verification/Vma.thy ===== *)
theory Vma
  imports Object_Pool
begin

text \<open>
  \<^verbatim>\<open>kernel/mm/vma.c\<close>: the memory areas of an address space, a doubly linked list sorted by address.  Areas and
  lists live in stores of their own; one that is not in its store has been freed, and using it is a fault.
\<close>

section \<open>Structures\<close>

record vma =
  v_start :: u64
  v_end :: u64
  v_flags :: u32
  v_prot :: u32
  v_next :: ptr
  v_prev :: ptr
  v_file :: ptr
  v_file_offset :: u64

record vma_list =
  vl_head :: ptr
  vl_tail :: ptr
  vl_count :: u32

record vm_areas =
  va_pool :: pool
  areas :: "nat \<Rightarrow> vma option"
  vlists :: "nat \<Rightarrow> vma_list option"

definition new_area_object :: "vm_areas \<Rightarrow> ptr \<times> vm_areas" where
  "new_area_object s = (case pool_alloc (va_pool s) of (p, pl) \<Rightarrow> (p, s\<lparr>va_pool := pl\<rparr>))"

definition upd_area :: "nat \<Rightarrow> (vma \<Rightarrow> vma) \<Rightarrow> vm_areas \<Rightarrow> vm_areas option" where
  "upd_area x f s = do { v \<leftarrow> areas s x; Some (s\<lparr>areas := (areas s)(x \<mapsto> f v)\<rparr>) }"

definition upd_vlist :: "nat \<Rightarrow> (vma_list \<Rightarrow> vma_list) \<Rightarrow> vm_areas \<Rightarrow> vm_areas option" where
  "upd_vlist l f s = do { v \<leftarrow> vlists s l; Some (s\<lparr>vlists := (vlists s)(l \<mapsto> f v)\<rparr>) }"

section \<open>Lists\<close>

definition vma_list_create :: "vm_areas \<Rightarrow> ptr \<times> vm_areas" where
  "vma_list_create s =
     (case new_area_object s of
        (None, s1) \<Rightarrow> (None, s1)
      | (Some l, s1) \<Rightarrow> (Some l, s1\<lparr>vlists := (vlists s1)(l \<mapsto> \<lparr>vl_head = None, vl_tail = None, vl_count = 0\<rparr>)\<rparr>))"

partial_function (option) free_areas :: "ptr \<Rightarrow> vm_areas \<Rightarrow> vm_areas option" where
  "free_areas vp s =
     (case vp of
        None \<Rightarrow> Some s
      | Some x \<Rightarrow> do { v \<leftarrow> areas s x; free_areas (v_next v) (s\<lparr>areas := (areas s)(x := None)\<rparr>) })"

definition vma_list_destroy :: "ptr \<Rightarrow> vm_areas \<Rightarrow> vm_areas option" where
  "vma_list_destroy lp s =
     (case lp of
        None \<Rightarrow> Some s
      | Some l \<Rightarrow>
          do { L \<leftarrow> vlists s l;
               s1 \<leftarrow> free_areas (vl_head L) s;
               Some (s1\<lparr>vlists := (vlists s1)(l := None)\<rparr>) })"

section \<open>Searching\<close>

partial_function (option) find_walk :: "vm_areas \<Rightarrow> ptr \<Rightarrow> u64 \<Rightarrow> ptr option" where
  "find_walk s vp addr =
     (case vp of
        None \<Rightarrow> Some None
      | Some x \<Rightarrow>
          do { v \<leftarrow> areas s x;
               if v_start v \<le> addr \<and> addr < v_end v then Some (Some x)
               else if addr < v_start v then Some None
               else find_walk s (v_next v) addr })"

definition vma_find :: "ptr \<Rightarrow> u64 \<Rightarrow> vm_areas \<Rightarrow> ptr option" where
  "vma_find lp addr s =
     (case lp of None \<Rightarrow> Some None | Some l \<Rightarrow> do { L \<leftarrow> vlists s l; find_walk s (vl_head L) addr })"

partial_function (option) next_walk :: "vm_areas \<Rightarrow> ptr \<Rightarrow> u64 \<Rightarrow> ptr option" where
  "next_walk s vp addr =
     (case vp of
        None \<Rightarrow> Some None
      | Some x \<Rightarrow> do { v \<leftarrow> areas s x; if addr < v_end v then Some (Some x) else next_walk s (v_next v) addr })"

definition vma_find_or_next :: "ptr \<Rightarrow> u64 \<Rightarrow> vm_areas \<Rightarrow> ptr option" where
  "vma_find_or_next lp addr s =
     (case lp of None \<Rightarrow> Some None | Some l \<Rightarrow> do { L \<leftarrow> vlists s l; next_walk s (vl_head L) addr })"

partial_function (option) overlaps_walk :: "vm_areas \<Rightarrow> ptr \<Rightarrow> u64 \<Rightarrow> u64 \<Rightarrow> bool option" where
  "overlaps_walk s vp start end' =
     (case vp of
        None \<Rightarrow> Some False
      | Some x \<Rightarrow>
          do { v \<leftarrow> areas s x;
               if start < v_end v \<and> v_start v < end' then Some True
               else if end' \<le> v_start v then Some False
               else overlaps_walk s (v_next v) start end' })"

definition vma_overlaps :: "ptr \<Rightarrow> u64 \<Rightarrow> u64 \<Rightarrow> vm_areas \<Rightarrow> bool option" where
  "vma_overlaps lp start end' s =
     (case lp of None \<Rightarrow> Some False | Some l \<Rightarrow> do { L \<leftarrow> vlists s l; overlaps_walk s (vl_head L) start end' })"

section \<open>Inserting and removing\<close>

text \<open>The insertion point: the last area that starts before the new one, and the first that does not.\<close>

partial_function (option) insert_point :: "vm_areas \<Rightarrow> ptr \<Rightarrow> ptr \<Rightarrow> u64 \<Rightarrow> (ptr \<times> ptr) option" where
  "insert_point s prev cur start =
     (case cur of
        None \<Rightarrow> Some (prev, None)
      | Some x \<Rightarrow>
          do { v \<leftarrow> areas s x; if v_start v < start then insert_point s (Some x) (v_next v) start else Some (prev, Some x) })"

definition vma_insert :: "nat \<Rightarrow> nat \<Rightarrow> vm_areas \<Rightarrow> vm_areas option" where
  "vma_insert l x s =
     do { L \<leftarrow> vlists s l;
          v \<leftarrow> areas s x;
          (prev, cur) \<leftarrow> insert_point s None (vl_head L) (v_start v);
          s1 \<leftarrow> upd_area x (\<lambda>v. v\<lparr>v_prev := prev, v_next := cur\<rparr>) s;
          s2 \<leftarrow> (case prev of
                  Some p \<Rightarrow> upd_area p (\<lambda>v. v\<lparr>v_next := Some x\<rparr>) s1
                | None \<Rightarrow> upd_vlist l (\<lambda>L. L\<lparr>vl_head := Some x\<rparr>) s1);
          s3 \<leftarrow> (case cur of
                  Some c \<Rightarrow> upd_area c (\<lambda>v. v\<lparr>v_prev := Some x\<rparr>) s2
                | None \<Rightarrow> upd_vlist l (\<lambda>L. L\<lparr>vl_tail := Some x\<rparr>) s2);
          upd_vlist l (\<lambda>L. L\<lparr>vl_count := vl_count L + 1\<rparr>) s3 }"

definition vma_create :: "ptr \<Rightarrow> u64 \<Rightarrow> u64 \<Rightarrow> u32 \<Rightarrow> u32 \<Rightarrow> vm_areas \<Rightarrow> (ptr \<times> vm_areas) option" where
  "vma_create lp start0 end0 flags prot s =
     (case lp of
        None \<Rightarrow> Some (None, s)
      | Some l \<Rightarrow>
          let start = ALIGN_DOWN start0 PAGE_SIZE;
              end' = ALIGN_UP end0 PAGE_SIZE in
          if end' \<le> start then Some (None, s)
          else
            do { o' \<leftarrow> vma_overlaps (Some l) start end' s;
                 if o' then Some (None, s)
                 else
                   (case new_area_object s of
                      (None, s1) \<Rightarrow> Some (None, s1)
                    | (Some x, s1) \<Rightarrow>
                        do { s2 \<leftarrow> vma_insert l x (s1\<lparr>areas := (areas s1)(x \<mapsto>
                               \<lparr>v_start = start, v_end = end', v_flags = flags, v_prot = prot, v_next = None, v_prev = None,
                                v_file = None, v_file_offset = 0\<rparr>)\<rparr>);
                             Some (Some x, s2) }) })"

definition vma_destroy :: "ptr \<Rightarrow> ptr \<Rightarrow> vm_areas \<Rightarrow> vm_areas option" where
  "vma_destroy lp vp s =
     (case (lp, vp) of
        (Some l, Some x) \<Rightarrow>
          do { v \<leftarrow> areas s x;
               s1 \<leftarrow> (case v_prev v of
                       Some p \<Rightarrow> upd_area p (\<lambda>w. w\<lparr>v_next := v_next v\<rparr>) s
                     | None \<Rightarrow> upd_vlist l (\<lambda>L. L\<lparr>vl_head := v_next v\<rparr>) s);
               s2 \<leftarrow> (case v_next v of
                       Some n \<Rightarrow> upd_area n (\<lambda>w. w\<lparr>v_prev := v_prev v\<rparr>) s1
                     | None \<Rightarrow> upd_vlist l (\<lambda>L. L\<lparr>vl_tail := v_prev v\<rparr>) s1);
               s3 \<leftarrow> upd_vlist l (\<lambda>L. L\<lparr>vl_count := vl_count L - 1\<rparr>) s2;
               Some (s3\<lparr>areas := (areas s3)(x := None)\<rparr>) }
      | _ \<Rightarrow> Some s)"

section \<open>Copying\<close>

text \<open>The loop of \<open>vma_list_clone\<close>; the result is \<open>False\<close> when an area could not be created.\<close>

partial_function (option) clone_walk :: "nat \<Rightarrow> ptr \<Rightarrow> vm_areas \<Rightarrow> (bool \<times> vm_areas) option" where
  "clone_walk dst vp s =
     (case vp of
        None \<Rightarrow> Some (True, s)
      | Some x \<Rightarrow>
          do { v \<leftarrow> areas s x;
               (np, s1) \<leftarrow> vma_create (Some dst) (v_start v) (v_end v) (v_flags v) (v_prot v) s;
               case np of
                 None \<Rightarrow> Some (False, s1)
               | Some n \<Rightarrow>
                   do { v1 \<leftarrow> areas s1 x;
                        s2 \<leftarrow> upd_area n (\<lambda>w. w\<lparr>v_file := v_file v1, v_file_offset := v_file_offset v1\<rparr>) s1;
                        v2 \<leftarrow> areas s2 x;
                        clone_walk dst (v_next v2) s2 } })"

definition vma_list_clone :: "ptr \<Rightarrow> vm_areas \<Rightarrow> (ptr \<times> vm_areas) option" where
  "vma_list_clone srcp s =
     (case srcp of
        None \<Rightarrow> Some (None, s)
      | Some src \<Rightarrow>
          (case vma_list_create s of
             (None, s1) \<Rightarrow> Some (None, s1)
           | (Some dst, s1) \<Rightarrow>
               do { L \<leftarrow> vlists s1 src;
                    (ok, s2) \<leftarrow> clone_walk dst (vl_head L) s1;
                    if ok then Some (Some dst, s2)
                    else do { s3 \<leftarrow> vma_list_destroy (Some dst) s2; Some (None, s3) } }))"

section \<open>Finding free space\<close>

definition SPACE_START :: u64 where
  "SPACE_START = 0x400000"

definition SPACE_END :: u64 where
  "SPACE_END = 0x7FFFFFFFFFFF"

text \<open>The loop over the gaps: \<open>Inr\<close> is an address to return, \<open>Inl\<close> the end of the last area.\<close>

partial_function (option) gap_walk :: "vm_areas \<Rightarrow> ptr \<Rightarrow> u64 \<Rightarrow> u64 \<Rightarrow> (u64 + u64) option" where
  "gap_walk s vp sz search_start =
     (case vp of
        None \<Rightarrow> Some (Inl search_start)
      | Some x \<Rightarrow>
          do { v \<leftarrow> areas s x;
               if search_start + sz \<le> v_start v then Some (Inr search_start)
               else gap_walk s (v_next v) sz (if search_start < v_end v then v_end v else search_start) })"

definition find_gap :: "nat \<Rightarrow> u64 \<Rightarrow> vm_areas \<Rightarrow> u64 option" where
  "find_gap l sz s =
     do { L \<leftarrow> vlists s l;
          r \<leftarrow> gap_walk s (vl_head L) sz SPACE_START;
          case r of
            Inr a \<Rightarrow> Some a
          | Inl search_start \<Rightarrow> Some (if search_start + sz \<le> SPACE_END then search_start else 0) }"

definition vma_find_free :: "ptr \<Rightarrow> u64 \<Rightarrow> u64 \<Rightarrow> vm_areas \<Rightarrow> u64 option" where
  "vma_find_free lp size0 hint0 s =
     (case lp of
        None \<Rightarrow> Some 0
      | Some l \<Rightarrow>
          let sz = ALIGN_UP size0 PAGE_SIZE;
              hint = ALIGN_UP hint0 PAGE_SIZE in
          if hint0 \<noteq> 0 \<and> SPACE_START \<le> hint \<and> hint + sz \<le> SPACE_END then
            do { o' \<leftarrow> vma_overlaps (Some l) hint (hint + sz) s;
                 if \<not> o' then Some hint else find_gap l sz s }
          else find_gap l sz s)"

end
