(* ===== verification/Vma_List.thy ===== *)
theory Vma_List
  imports Vma Dll
begin

text \<open>
  The list of memory areas as a sorted sequence of disjoint, page-aligned ranges: its invariant, and what searching,
  inserting, creating and removing do to the sequence.
\<close>

section \<open>The fields of areas\<close>

definition anxt :: "vm_areas \<Rightarrow> nat \<Rightarrow> ptr" where
  "anxt s x = (case areas s x of None \<Rightarrow> None | Some v \<Rightarrow> v_next v)"

definition aprv :: "vm_areas \<Rightarrow> nat \<Rightarrow> ptr" where
  "aprv s x = (case areas s x of None \<Rightarrow> None | Some v \<Rightarrow> v_prev v)"

text \<open>What linking leaves alone.\<close>

definition payload :: "vm_areas \<Rightarrow> nat \<Rightarrow> vma option" where
  "payload s x = map_option (\<lambda>v. v\<lparr>v_next := None, v_prev := None\<rparr>) (areas s x)"

definition lo :: "vm_areas \<Rightarrow> nat \<Rightarrow> u64" where
  "lo s x = (case payload s x of None \<Rightarrow> 0 | Some v \<Rightarrow> v_start v)"

definition hi :: "vm_areas \<Rightarrow> nat \<Rightarrow> u64" where
  "hi s x = (case payload s x of None \<Rightarrow> 0 | Some v \<Rightarrow> v_end v)"

lemma area_fields [simp]:
  assumes "areas s x = Some v"
  shows "anxt s x = v_next v" "aprv s x = v_prev v" "lo s x = v_start v" "hi s x = v_end v"
  using assms by (simp_all add: anxt_def aprv_def lo_def hi_def payload_def)

lemma payload_None [simp]: "payload s x = None \<longleftrightarrow> areas s x = None"
  by (simp add: payload_def)

lemma lo_hi_cong: "payload s' x = payload s x \<Longrightarrow> lo s' x = lo s x \<and> hi s' x = hi s x \<and> (areas s' x = None \<longleftrightarrow> areas s x = None)"
  using payload_None [of s' x] payload_None [of s x] by (simp add: lo_def hi_def)

section \<open>The invariant\<close>

definition area_ok :: "vm_areas \<Rightarrow> nat \<Rightarrow> bool" where
  "area_ok s x \<longleftrightarrow> areas s x \<noteq> None \<and> lo s x < hi s x \<and> 4096 dvd unat (lo s x) \<and> 4096 dvd unat (hi s x)"

definition head_ok :: "vm_areas \<Rightarrow> nat \<Rightarrow> nat list \<Rightarrow> bool" where
  "head_ok s l xs \<longleftrightarrow> vlists s l = Some \<lparr>vl_head = first_of xs, vl_tail = last_of xs, vl_count = of_nat (length xs)\<rparr>"

definition list_ok :: "vm_areas \<Rightarrow> nat \<Rightarrow> nat list \<Rightarrow> bool" where
  "list_ok s l xs \<longleftrightarrow> head_ok s l xs \<and> dll (anxt s) (aprv s) None xs \<and> (\<forall>x \<in> set xs. area_ok s x) \<and>
     sorted_wrt (\<lambda>x y. hi s x \<le> lo s y) xs"

definition fresh_areas :: "vm_areas \<Rightarrow> bool" where
  "fresh_areas s \<longleftrightarrow> (\<forall>x \<ge> requests (va_pool s). areas s x = None \<and> vlists s x = None)"

lemma list_okD:
  assumes "list_ok s l xs"
  shows "head_ok s l xs" "dll (anxt s) (aprv s) None xs" "x \<in> set xs \<Longrightarrow> area_ok s x"
    "sorted_wrt (\<lambda>x y. hi s x \<le> lo s y) xs" "distinct xs"
  using assms dll_distinct by (auto simp: list_ok_def)

lemma area_okD: "area_ok s x \<Longrightarrow> areas s x \<noteq> None" "area_ok s x \<Longrightarrow> lo s x < hi s x"
  by (simp_all add: area_ok_def)

lemma area_ok_cong: "payload s' x = payload s x \<Longrightarrow> area_ok s' x = area_ok s x"
  using lo_hi_cong [of s' x s] by (simp add: area_ok_def)

text \<open>A list whose areas are not touched.\<close>

lemma list_frame:
  assumes "list_ok s l xs" and "vlists s' l = vlists s l"
    and "\<And>x. x \<in> set xs \<Longrightarrow> anxt s' x = anxt s x \<and> aprv s' x = aprv s x \<and> payload s' x = payload s x"
  shows "list_ok s' l xs"
proof -
  have eq: "lo s' x = lo s x" "hi s' x = hi s x" "area_ok s' x" if "x \<in> set xs" for x
    using assms(3) [OF that] lo_hi_cong [of s' x s] area_ok_cong [of s' x s] list_okD(3) [OF assms(1) that] by simp_all
  have "dll (anxt s') (aprv s') None xs" using assms(3) by (intro dll_frame [OF list_okD(2) [OF assms(1)]]) simp_all
  moreover have "sorted_wrt (\<lambda>x y. hi s' x \<le> lo s' y) xs"
    using list_okD(4) [OF assms(1)] by (rule sorted_wrt_mono_rel [rotated]) (simp add: eq)
  ultimately show ?thesis
    using eq(3) assms(2) list_okD(1) [OF assms(1)] by (simp add: list_ok_def head_ok_def)
qed

lemma list_frame_areas:
  assumes "list_ok s l xs" "vlists s' l = vlists s l" "\<And>x. x \<in> set xs \<Longrightarrow> areas s' x = areas s x"
  shows "list_ok s' l xs"
  using assms(3) by (intro list_frame [OF assms(1,2)]) (simp add: anxt_def aprv_def payload_def)

section \<open>Searching\<close>

lemma find_walk_list:
  assumes "dll (anxt s) (aprv s) p xs" "\<forall>x \<in> set xs. area_ok s x" "sorted_wrt (\<lambda>x y. hi s x \<le> lo s y) xs"
  shows "find_walk s (first_of xs) addr = Some (List.find (\<lambda>x. lo s x \<le> addr \<and> addr < hi s x) xs)"
  using assms
proof (induction xs arbitrary: p)
  case Nil
  then show ?case by (simp add: find_walk.simps)
next
  case (Cons x xs)
  then obtain v where v: "areas s x = Some v" "v_start v < v_end v" by (auto simp: area_ok_def)
  have nx: "v_next v = first_of xs" using Cons.prems(1) v by simp
  have IH: "find_walk s (first_of xs) addr = Some (List.find (\<lambda>x. lo s x \<le> addr \<and> addr < hi s x) xs)"
    using Cons.IH [of "Some x"] Cons.prems by simp
  have "List.find (\<lambda>x. lo s x \<le> addr \<and> addr < hi s x) xs = None" if "addr < v_start v"
    using that Cons.prems(3) v by (fastforce simp: find_None_iff)
  then show ?case using v nx IH by (simp add: find_walk.simps [of s "Some x"])
qed

lemma next_walk_list:
  assumes "dll (anxt s) (aprv s) p xs" "\<forall>x \<in> set xs. area_ok s x"
  shows "next_walk s (first_of xs) addr = Some (List.find (\<lambda>x. addr < hi s x) xs)"
  using assms
proof (induction xs arbitrary: p)
  case Nil
  then show ?case by (simp add: next_walk.simps)
next
  case (Cons x xs)
  then obtain v where v: "areas s x = Some v" by (auto simp: area_ok_def)
  have "v_next v = first_of xs" using Cons.prems(1) v by simp
  then show ?case using v Cons.IH [of "Some x"] Cons.prems by (simp add: next_walk.simps [of s "Some x"])
qed

lemma overlaps_walk_list:
  assumes "dll (anxt s) (aprv s) p xs" "\<forall>x \<in> set xs. area_ok s x" "sorted_wrt (\<lambda>x y. hi s x \<le> lo s y) xs"
  shows "overlaps_walk s (first_of xs) a b = Some (\<exists>x \<in> set xs. a < hi s x \<and> lo s x < b)"
  using assms
proof (induction xs arbitrary: p)
  case Nil
  then show ?case by (simp add: overlaps_walk.simps)
next
  case (Cons x xs)
  then obtain v where v: "areas s x = Some v" "v_start v < v_end v" by (auto simp: area_ok_def)
  have nx: "v_next v = first_of xs" using Cons.prems(1) v by simp
  have IH: "overlaps_walk s (first_of xs) a b = Some (\<exists>x \<in> set xs. a < hi s x \<and> lo s x < b)"
    using Cons.IH [of "Some x"] Cons.prems by simp
  have "\<not> lo s y < b" if "b \<le> v_start v" "y \<in> set xs" for y
    using that Cons.prems(3) v by fastforce
  then show ?case using v nx IH by (auto simp: overlaps_walk.simps [of s "Some x"])
qed

lemma insert_point_list:
  assumes "dll (anxt s) (aprv s) p xs" "\<forall>x \<in> set xs. area_ok s x"
  shows "insert_point s q (first_of xs) a =
    Some (case last_of (takeWhile (\<lambda>x. lo s x < a) xs) of None \<Rightarrow> q | Some y \<Rightarrow> Some y, first_of (dropWhile (\<lambda>x. lo s x < a) xs))"
  using assms
proof (induction xs arbitrary: p q)
  case Nil
  then show ?case by (simp add: insert_point.simps)
next
  case (Cons x xs)
  then obtain v where v: "areas s x = Some v" by (auto simp: area_ok_def)
  have "v_next v = first_of xs" using Cons.prems(1) v by simp
  then show ?case
    using v Cons.IH [of "Some x" "Some x"] Cons.prems
    by (cases "takeWhile (\<lambda>x. lo s x < a) xs") (simp_all add: insert_point.simps [of s q "Some x"] last_of_def)
qed

lemma list_head: "list_ok s l xs \<Longrightarrow> \<exists>L. vlists s l = Some L \<and> vl_head L = first_of xs"
  by (auto simp: list_ok_def head_ok_def)

lemma vma_overlaps_list:
  "list_ok s l xs \<Longrightarrow> vma_overlaps (Some l) a b s = Some (\<exists>x \<in> set xs. a < hi s x \<and> lo s x < b)"
  using list_head [of s l xs] overlaps_walk_list [of s None xs a b] by (auto simp: vma_overlaps_def list_ok_def)
section \<open>Linking and unlinking\<close>

lemma neighbours:
  assumes "list_ok s l (ys @ zs)"
  shows "last_of ys = Some q \<Longrightarrow> \<exists>w. areas s q = Some w" "first_of zs = Some r \<Longrightarrow> \<exists>w. areas s r = Some w"
    "last_of ys = Some q \<Longrightarrow> first_of zs = Some r \<Longrightarrow> q \<noteq> r"
proof -
  have ok: "area_ok s x" if "x \<in> set ys \<union> set zs" for x using list_okD(3) [OF assms, of x] that by auto
  show "last_of ys = Some q \<Longrightarrow> \<exists>w. areas s q = Some w" using ok [of q] last_of_in_set [of ys q] by (auto simp: area_ok_def)
  show "first_of zs = Some r \<Longrightarrow> \<exists>w. areas s r = Some w" using ok [of r] first_of_in_set [of zs r] by (auto simp: area_ok_def)
  show "last_of ys = Some q \<Longrightarrow> first_of zs = Some r \<Longrightarrow> q \<noteq> r"
    using list_okD(5) [OF assms] last_of_in_set [of ys q] first_of_in_set [of zs r] by auto
qed

lemma last_of_Cons: "last_of (x # xs) = (if xs = [] then Some x else last_of xs)"
  by (simp add: last_of_def)

lemma ne_of_first: "first_of xs = Some x \<Longrightarrow> xs \<noteq> []" "last_of xs = Some x \<Longrightarrow> xs \<noteq> []"
  by auto

text \<open>The store after linking \<open>x\<close> between two neighbours, and after linking two neighbours past an area.\<close>

definition link_areas :: "(nat \<Rightarrow> vma option) \<Rightarrow> ptr \<Rightarrow> ptr \<Rightarrow> ptr \<Rightarrow> ptr \<Rightarrow> nat \<Rightarrow> vma option" where
  "link_areas m q r nq pr =
     (let m1 = (case q of Some y \<Rightarrow> m(y \<mapsto> (the (m y))\<lparr>v_next := nq\<rparr>) | None \<Rightarrow> m)
      in case r of Some y \<Rightarrow> m1(y \<mapsto> (the (m1 y))\<lparr>v_prev := pr\<rparr>) | None \<Rightarrow> m1)"

lemma insert_run:
  assumes ok: "list_ok s l (ys @ zs)" and x: "areas s x = Some v" "x \<notin> set ys" "x \<notin> set zs"
    and pt: "insert_point s None (first_of (ys @ zs)) (v_start v) = Some (last_of ys, first_of zs)"
  shows "vma_insert l x s = Some (s\<lparr>
      areas := link_areas ((areas s)(x \<mapsto> v\<lparr>v_prev := last_of ys, v_next := first_of zs\<rparr>)) (last_of ys) (first_of zs) (Some x) (Some x),
      vlists := (vlists s)(l \<mapsto> \<lparr>vl_head = first_of (ys @ x # zs), vl_tail = last_of (ys @ x # zs),
        vl_count = of_nat (length (ys @ x # zs))\<rparr>)\<rparr>)"
proof -
  have L: "vlists s l = Some \<lparr>vl_head = first_of (ys @ zs), vl_tail = last_of (ys @ zs), vl_count = of_nat (length (ys @ zs))\<rparr>"
    using ok by (simp add: list_ok_def head_ok_def)
  note nb = neighbours [OF ok]
  have ne: "last_of ys \<noteq> Some x" "first_of zs \<noteq> Some x" using x last_of_in_set first_of_in_set by fastforce+
  note defs = vma_insert_def upd_area_def upd_vlist_def link_areas_def first_of_append last_of_append last_of_Cons add.commute
  show ?thesis
  proof (cases "last_of ys"; cases "first_of zs")
    assume "last_of ys = None" "first_of zs = None"
    then show ?thesis using L x(1) pt by (simp add: defs)
  next
    fix r assume r: "last_of ys = None" "first_of zs = Some r"
    then obtain w where "areas s r = Some w" "r \<noteq> x" using nb(2) ne(2) by auto
    then show ?thesis using L x(1) pt r ne_of_first(1) [OF r(2)] by (simp add: defs)
  next
    fix q assume q: "last_of ys = Some q" "first_of zs = None"
    then obtain w where "areas s q = Some w" "q \<noteq> x" using nb(1) ne(1) by auto
    then show ?thesis using L x(1) pt q ne_of_first(2) [OF q(1)] by (simp add: defs)
  next
    fix q r assume qr: "last_of ys = Some q" "first_of zs = Some r"
    then obtain w u where "areas s q = Some w" "q \<noteq> x" "areas s r = Some u" "r \<noteq> x" "q \<noteq> r" using nb ne by auto
    then show ?thesis using L x(1) pt qr ne_of_first(2) [OF qr(1)] ne_of_first(1) [OF qr(2)] by (simp add: defs)
  qed
qed

lemma destroy_run:
  assumes ok: "list_ok s l (ys @ x # zs)" and v: "areas s x = Some v"
  shows "vma_destroy (Some l) (Some x) s = Some (s\<lparr>
      areas := (link_areas (areas s) (last_of ys) (first_of zs) (first_of zs) (last_of ys))(x := None),
      vlists := (vlists s)(l \<mapsto> \<lparr>vl_head = first_of (ys @ zs), vl_tail = last_of (ys @ zs), vl_count = of_nat (length (ys @ zs))\<rparr>)\<rparr>)"
proof -
  have cf: "v_next v = first_of zs" "v_prev v = last_of ys" using dll_fields [OF list_okD(2) [OF ok]] v by simp_all
  have L: "vlists s l = Some \<lparr>vl_head = first_of (ys @ x # zs), vl_tail = last_of (ys @ x # zs), vl_count = of_nat (length (ys @ x # zs))\<rparr>"
    using ok by (simp add: list_ok_def head_ok_def)
  have nb: "\<exists>w. areas s q = Some w" if "last_of ys = Some q \<or> first_of zs = Some q" for q
    using that list_okD(3) [OF ok, of q] last_of_in_set [of ys q] first_of_in_set [of zs q] by (auto simp: area_ok_def)
  have sep: "q \<noteq> r" if "last_of ys = Some q" "first_of zs = Some r" for q r
    using that list_okD(5) [OF ok] last_of_in_set [of ys q] first_of_in_set [of zs r] by auto
  note defs = vma_destroy_def upd_area_def upd_vlist_def link_areas_def first_of_append last_of_append last_of_Cons
  show ?thesis
  proof (cases "last_of ys"; cases "first_of zs")
    assume "last_of ys = None" "first_of zs = None"
    then show ?thesis using L v cf by (simp add: defs)
  next
    fix r assume r: "last_of ys = None" "first_of zs = Some r"
    then obtain w where "areas s r = Some w" using nb by blast
    then show ?thesis using L v cf r ne_of_first(1) [OF r(2)] by (simp add: defs)
  next
    fix q assume q: "last_of ys = Some q" "first_of zs = None"
    then obtain w where "areas s q = Some w" using nb by blast
    then show ?thesis using L v cf q ne_of_first(2) [OF q(1)] by (simp add: defs)
  next
    fix q r assume qr: "last_of ys = Some q" "first_of zs = Some r"
    then obtain w u where "areas s q = Some w" "areas s r = Some u" "q \<noteq> r" using nb sep by blast
    then show ?thesis using L v cf qr ne_of_first(2) [OF qr(1)] ne_of_first(1) [OF qr(2)] by (simp add: defs)
  qed
qed

lemma link_fields:
  assumes "areas s' = link_areas (areas s) q r nq pr" and "\<And>y. q = Some y \<or> r = Some y \<Longrightarrow> areas s y \<noteq> None"
    and "\<And>y z. q = Some y \<Longrightarrow> r = Some z \<Longrightarrow> y \<noteq> z"
  shows "payload s' = payload s" "anxt s' = (\<lambda>y. if q = Some y then nq else anxt s y)"
    "aprv s' = (\<lambda>y. if r = Some y then pr else aprv s y)"
proof -
  have l: "\<exists>w. areas s y = Some w" if "q = Some y \<or> r = Some y" for y using assms(2) [OF that] by blast
  have s: "y \<noteq> z" if "q = Some y" "r = Some z" for y z using that by (rule assms(3))
  show "payload s' = payload s" "anxt s' = (\<lambda>y. if q = Some y then nq else anxt s y)"
    "aprv s' = (\<lambda>y. if r = Some y then pr else aprv s y)"
    using l s unfolding payload_def anxt_def aprv_def fun_eq_iff assms(1) link_areas_def
    by (cases q; cases r; fastforce)+
qed

text \<open>Where a range that overlaps nothing belongs in the sequence.\<close>

definition before_of :: "vm_areas \<Rightarrow> u64 \<Rightarrow> nat list \<Rightarrow> nat list" where
  "before_of s a xs = takeWhile (\<lambda>y. lo s y < a) xs"

definition after_of :: "vm_areas \<Rightarrow> u64 \<Rightarrow> nat list \<Rightarrow> nat list" where
  "after_of s a xs = dropWhile (\<lambda>y. lo s y < a) xs"

lemma before_after [simp]: "before_of s a xs @ after_of s a xs = xs"
  by (simp add: before_of_def after_of_def)

lemma sorted_insertion:
  assumes srt: "sorted_wrt (\<lambda>x y. hi s x \<le> lo s y) xs" and ok: "\<forall>y \<in> set xs. lo s y < hi s y" and ab: "a < b"
    and free: "\<forall>y \<in> set xs. \<not> (a < hi s y \<and> lo s y < b)"
  shows "\<forall>y \<in> set (before_of s a xs). hi s y \<le> a" "\<forall>y \<in> set (after_of s a xs). b \<le> lo s y"
proof -
  show "\<forall>y \<in> set (before_of s a xs). hi s y \<le> a"
    using free ab set_takeWhileD [of _ "\<lambda>y. lo s y < a" xs] unfolding before_of_def by (metis less_trans not_le)
  have "a \<le> lo s y" if y: "y \<in> set (after_of s a xs)" for y
  proof -
    obtain z zs where z: "after_of s a xs = z # zs" using y by (cases "after_of s a xs") auto
    then have "\<not> lo s z < a" unfolding after_of_def using hd_dropWhile [of "\<lambda>y. lo s y < a" xs] by simp
    moreover have "sorted_wrt (\<lambda>x y. hi s x \<le> lo s y) (z # zs)"
      using srt before_after [of s a xs] z by (metis sorted_wrt_append)
    moreover have "lo s z < hi s z" using ok z set_dropWhileD [of z "\<lambda>y. lo s y < a" xs] unfolding after_of_def by simp
    ultimately show ?thesis using y z by fastforce
  qed
  then show "\<forall>y \<in> set (after_of s a xs). b \<le> lo s y"
    using free ok set_dropWhileD [of _ "\<lambda>y. lo s y < a" xs] unfolding after_of_def by (metis le_less_trans not_le)
qed

lemma vma_insert_list:
  assumes ok: "list_ok s l xs" and x: "areas s x = Some v" "x \<notin> set xs" "area_ok s x"
    and free: "\<forall>y \<in> set xs. \<not> (v_start v < hi s y \<and> lo s y < v_end v)"
  obtains s' where "vma_insert l x s = Some s'" "payload s' = payload s" "va_pool s' = va_pool s"
    "\<And>k. k \<noteq> l \<Longrightarrow> vlists s' k = vlists s k" "list_ok s' l (before_of s (v_start v) xs @ x # after_of s (v_start v) xs)"
    "\<And>k ys. list_ok s k ys \<Longrightarrow> k \<noteq> l \<Longrightarrow> x \<notin> set ys \<Longrightarrow> set ys \<inter> set xs = {} \<Longrightarrow> list_ok s' k ys"
proof -
  define ys where "ys = before_of s (v_start v) xs"
  define zs where "zs = after_of s (v_start v) xs"
  have xs: "xs = ys @ zs" by (simp add: ys_def zs_def)
  note d = list_okD [OF ok]
  have nx: "x \<notin> set ys" "x \<notin> set zs" using x(2) xs by auto
  have pt: "insert_point s None (first_of (ys @ zs)) (v_start v) = Some (last_of ys, first_of zs)"
    using insert_point_list [OF d(2), of None "v_start v"] d(3) unfolding xs [symmetric] ys_def zs_def before_of_def after_of_def
    by (simp split: option.splits)
  define s1 where "s1 = s\<lparr>areas := (areas s)(x \<mapsto> v\<lparr>v_prev := last_of ys, v_next := first_of zs\<rparr>)\<rparr>"
  define s' where "s' = s\<lparr>areas := link_areas (areas s1) (last_of ys) (first_of zs) (Some x) (Some x),
      vlists := (vlists s)(l \<mapsto> \<lparr>vl_head = first_of (ys @ x # zs), vl_tail = last_of (ys @ x # zs),
        vl_count = of_nat (length (ys @ x # zs))\<rparr>)\<rparr>"
  have run: "vma_insert l x s = Some s'" using insert_run [OF ok [unfolded xs] x(1) nx pt] by (simp add: s'_def s1_def)
  have a1: "payload s1 = payload s" "anxt s1 = (anxt s)(x := first_of zs)" "aprv s1 = (aprv s)(x := last_of ys)"
    using x(1) by (auto simp: s1_def payload_def anxt_def aprv_def fun_eq_iff)
  note nb = neighbours [OF ok [unfolded xs]]
  have a': "payload s' = payload s1" "anxt s' = (\<lambda>y. if last_of ys = Some y then Some x else anxt s1 y)"
    "aprv s' = (\<lambda>y. if first_of zs = Some y then Some x else aprv s1 y)"
    by (rule link_fields [of s' s1 "last_of ys" "first_of zs" "Some x" "Some x"]; use nb in \<open>auto simp: s'_def s1_def\<close>)+
  have pl: "payload s' = payload s" using a'(1) a1(1) by simp
  have ne: "last_of ys \<noteq> Some x" "first_of zs \<noteq> Some x" using nx last_of_in_set first_of_in_set by fastforce+
  have dl: "dll (anxt s') (aprv s') None (ys @ x # zs)"
    by (rule dll_insert [OF d(2) [unfolded xs] nx]) (use ne in \<open>auto simp: a' a1\<close>)
  have eq: "lo s' y = lo s y" "hi s' y = hi s y" "area_ok s' y = area_ok s y" for y
    using lo_hi_cong [of s' y s] area_ok_cong [of s' y s] pl by simp_all
  have vx: "lo s x = v_start v" "hi s x = v_end v" using x(1) by simp_all
  have "\<forall>y \<in> set ys. hi s y \<le> v_start v" "\<forall>y \<in> set zs. v_end v \<le> lo s y"
    using sorted_insertion [OF d(4) _ _ free] d(3) area_okD(2) area_okD(2) [OF x(3)] vx unfolding ys_def zs_def by auto
  then have "sorted_wrt (\<lambda>x y. hi s x \<le> lo s y) (ys @ x # zs)"
    using d(4) vx unfolding xs by (auto simp: sorted_wrt_append intro: order_trans less_imp_le)
  then have "list_ok s' l (ys @ x # zs)"
    using dl d(3) x(3) unfolding list_ok_def head_ok_def eq by (auto simp: s'_def xs)
  moreover have "list_ok s' k es" if k: "list_ok s k es" "k \<noteq> l" "x \<notin> set es" "set es \<inter> set xs = {}" for k es
  proof (rule list_frame [OF k(1)])
    show "vlists s' k = vlists s k" using k(2) by (simp add: s'_def)
    fix y assume "y \<in> set es"
    then have "y \<noteq> x" "last_of ys \<noteq> Some y" "first_of zs \<noteq> Some y"
      using k(3,4) last_of_in_set [of ys y] first_of_in_set [of zs y] by (auto simp: xs)
    then show "anxt s' y = anxt s y \<and> aprv s' y = aprv s y \<and> payload s' y = payload s y" by (simp add: a' a1)
  qed
  ultimately show thesis using that [OF run pl] unfolding ys_def zs_def by (simp add: s'_def)
qed

lemma vma_destroy_list:
  assumes ok: "list_ok s l (ys @ x # zs)"
  obtains s' where "vma_destroy (Some l) (Some x) s = Some s'" "payload s' = (payload s)(x := None)" "va_pool s' = va_pool s"
    "\<And>k. k \<noteq> l \<Longrightarrow> vlists s' k = vlists s k" "list_ok s' l (ys @ zs)"
proof -
  note d = list_okD [OF ok]
  obtain v where v: "areas s x = Some v" using d(3) [of x] by (auto simp: area_ok_def)
  define s1 where "s1 = s\<lparr>areas := link_areas (areas s) (last_of ys) (first_of zs) (first_of zs) (last_of ys)\<rparr>"
  define s' where "s' = s\<lparr>areas := (areas s1)(x := None),
      vlists := (vlists s)(l \<mapsto> \<lparr>vl_head = first_of (ys @ zs), vl_tail = last_of (ys @ zs), vl_count = of_nat (length (ys @ zs))\<rparr>)\<rparr>"
  have run: "vma_destroy (Some l) (Some x) s = Some s'" using destroy_run [OF ok v] by (simp add: s'_def s1_def)
  have l: "areas s y \<noteq> None" if "last_of ys = Some y \<or> first_of zs = Some y" for y
    using that d(3) [of y] last_of_in_set [of ys y] first_of_in_set [of zs y] by (auto simp: area_ok_def)
  have sp: "y \<noteq> z" if "last_of ys = Some y" "first_of zs = Some z" for y z
    using that d(5) last_of_in_set [of ys y] first_of_in_set [of zs z] by auto
  have "areas s1 = link_areas (areas s) (last_of ys) (first_of zs) (first_of zs) (last_of ys)" by (simp add: s1_def)
  note a1 = link_fields [OF this l sp]
  have keep: "anxt s' y = anxt s1 y" "aprv s' y = aprv s1 y" "payload s' y = payload s y" if "y \<noteq> x" for y
    using that fun_cong [OF a1(1), of y] by (simp_all add: s'_def anxt_def aprv_def payload_def)
  have gone: "x \<notin> set (ys @ zs)" using d(5) by auto
  have "dll (anxt s') (aprv s') None (ys @ zs)"
    using d(2) by (rule dll_unlink) (simp_all add: keep a1)
  moreover have eq: "lo s' y = lo s y" "hi s' y = hi s y" "area_ok s' y = area_ok s y" if "y \<in> set (ys @ zs)" for y
    using that gone keep(3) [of y] lo_hi_cong [of s' y s] area_ok_cong [of s' y s] by auto
  moreover have "sorted_wrt (\<lambda>x y. hi s x \<le> lo s y) (ys @ zs)" using d(4) by (simp add: sorted_wrt_append)
  then have "sorted_wrt (\<lambda>x y. hi s' x \<le> lo s' y) (ys @ zs)" by (rule sorted_wrt_mono_rel [rotated]) (simp add: eq)
  ultimately have "list_ok s' l (ys @ zs)"
    using d(3) unfolding list_ok_def head_ok_def by (auto simp: s'_def)
  moreover have "payload s' = (payload s)(x := None)" using keep(3) by (auto simp: s'_def payload_def fun_eq_iff)
  ultimately show thesis using that [OF run] by (simp add: s'_def)
qed

section \<open>Creating\<close>

lemma new_area_cases:
  obtains (fail) s1 where "new_area_object s = (None, s1)" "areas s1 = areas s" "vlists s1 = vlists s"
      "requests (va_pool s1) = Suc (requests (va_pool s))"
  | (ok) s1 where "new_area_object s = (Some (requests (va_pool s)), s1)" "areas s1 = areas s" "vlists s1 = vlists s"
      "requests (va_pool s1) = Suc (requests (va_pool s))" "grants (va_pool s1) = grants (va_pool s)"
proof -
  let ?s = "s\<lparr>va_pool := (va_pool s)\<lparr>requests := Suc (requests (va_pool s))\<rparr>\<rparr>"
  show thesis
    using fail [of ?s] ok [of ?s] by (cases "grants (va_pool s) (requests (va_pool s))") (simp_all add: new_area_object_def pool_alloc_def)
qed

text \<open>The area a successful creation adds.\<close>

definition new_vma :: "u64 \<Rightarrow> u64 \<Rightarrow> u32 \<Rightarrow> u32 \<Rightarrow> vma" where
  "new_vma a b flags prot = \<lparr>v_start = a, v_end = b, v_flags = flags, v_prot = prot, v_next = None, v_prev = None,
     v_file = None, v_file_offset = 0\<rparr>"

definition create_fails :: "vm_areas \<Rightarrow> nat list \<Rightarrow> u64 \<Rightarrow> u64 \<Rightarrow> bool" where
  "create_fails s xs a b \<longleftrightarrow> b \<le> a \<or> (\<exists>y \<in> set xs. a < hi s y \<and> lo s y < b) \<or> fst (new_area_object s) = None"

lemma create_in:
  fixes flags prot :: u32
  assumes ok: "list_ok s l xs" and fr: "fresh_areas s" and ab: "a < b" "4096 dvd unat a" "4096 dvd unat b"
    and free: "\<forall>y \<in> set xs. \<not> (a < hi s y \<and> lo s y < b)"
    and o: "areas s1 = areas s" "vlists s1 = vlists s" "requests (va_pool s1) = Suc (requests (va_pool s))"
  defines "x \<equiv> requests (va_pool s)" and "v \<equiv> new_vma a b flags prot"
  obtains s' where "vma_insert l x (s1\<lparr>areas := (areas s1)(x \<mapsto> v)\<rparr>) = Some s'" "areas s x = None"
    "payload s' = (payload s)(x \<mapsto> v)" "fresh_areas s'"
    "list_ok s' l (before_of s a xs @ x # after_of s a xs)" "\<And>k. k \<noteq> l \<Longrightarrow> vlists s' k = vlists s k"
    "\<And>k ys. list_ok s k ys \<Longrightarrow> k \<noteq> l \<Longrightarrow> set ys \<inter> set xs = {} \<Longrightarrow> list_ok s' k ys"
    "va_pool s' = va_pool s1"
proof -
  define s2 where "s2 = s1\<lparr>areas := (areas s1)(x \<mapsto> v)\<rparr>"
  have xn: "areas s x = None" using fr by (simp add: fresh_areas_def x_def)
  have out: "x \<notin> set es" if "list_ok s k es" for k es
    using list_okD(3) [OF that, of x] xn by (auto simp: area_ok_def)
  have ok2: "list_ok s2 k es" if k: "list_ok s k es" for k es
    using out [OF k] o by (intro list_frame_areas [OF k]) (auto simp: s2_def)
  have pl: "payload s2 = (payload s)(x \<mapsto> v)"
    using o by (auto simp: s2_def payload_def v_def new_vma_def fun_eq_iff)
  have same: "lo s2 y = lo s y" "hi s2 y = hi s y" if "y \<in> set xs" for y
  proof -
    have "payload s2 y = payload s y" using that out [OF ok] by (auto simp: pl)
    then show "lo s2 y = lo s y" "hi s2 y = hi s y" using lo_hi_cong [of s2 y s] by simp_all
  qed
  have ba: "before_of s2 a xs = before_of s a xs" "after_of s2 a xs = after_of s a xs"
    using same by (auto simp: before_of_def after_of_def cong: takeWhile_cong dropWhile_cong)
  have vx: "areas s2 x = Some v" "v_start v = a" "v_end v = b" by (simp_all add: s2_def v_def new_vma_def)
  have "area_ok s2 x" using ab vx by (simp add: area_ok_def)
  moreover have "\<forall>y \<in> set xs. \<not> (v_start v < hi s2 y \<and> lo s2 y < v_end v)" using free same vx by simp
  ultimately obtain s' where s': "vma_insert l x s2 = Some s'" "payload s' = payload s2" "va_pool s' = va_pool s2"
      "\<And>k. k \<noteq> l \<Longrightarrow> vlists s' k = vlists s2 k" "list_ok s' l (before_of s2 a xs @ x # after_of s2 a xs)"
      "\<And>k ys. list_ok s2 k ys \<Longrightarrow> k \<noteq> l \<Longrightarrow> x \<notin> set ys \<Longrightarrow> set ys \<inter> set xs = {} \<Longrightarrow> list_ok s' k ys"
    using vma_insert_list [OF ok2 [OF ok] vx(1) out [OF ok]] vx(2) by metis
  have lx: "vlists s l \<noteq> None" using ok by (simp add: list_ok_def head_ok_def)
  have "fresh_areas s'"
    unfolding fresh_areas_def
  proof (intro allI impI conjI)
    fix y assume y: "requests (va_pool s') \<le> y"
    then have y: "Suc x \<le> y" using s'(3) o(3) by (simp add: s2_def x_def)
    then have no: "areas s y = None" "vlists s y = None" using fr by (simp_all add: fresh_areas_def x_def)
    show "areas s' y = None" using fun_cong [OF s'(2), of y] fun_cong [OF pl, of y] y no(1) payload_None [of s' y] payload_None [of s y]
      by (simp del: payload_None)
    have "y \<noteq> l" using no(2) lx by auto
    then show "vlists s' y = None" using s'(4) no(2) o(2) by (simp add: s2_def)
  qed
  moreover have "vlists s' k = vlists s k" if "k \<noteq> l" for k using s'(4) [OF that] o(2) by (simp add: s2_def)
  ultimately show thesis
    using that [OF s'(1) [unfolded s2_def] xn] s'(2,3,5) s'(6) [OF ok2] pl ba out by (simp add: s2_def)
qed

lemma vma_create_spec:
  fixes start end' :: u64 and flags prot :: u32
  assumes ok: "list_ok s l xs" and fr: "fresh_areas s"
  defines "a \<equiv> ALIGN_DOWN start PAGE_SIZE" and "b \<equiv> ALIGN_UP end' PAGE_SIZE"
  obtains (fails) s' where "create_fails s xs a b" "vma_create (Some l) start end' flags prot s = Some (None, s')"
      "areas s' = areas s" "vlists s' = vlists s" "requests (va_pool s) \<le> requests (va_pool s')"
  | (works) x s' where "\<not> create_fails s xs a b" "vma_create (Some l) start end' flags prot s = Some (Some x, s')"
      "areas s x = None" "payload s' = (payload s)(x \<mapsto> new_vma a b flags prot)" "fresh_areas s'"
      "list_ok s' l (before_of s a xs @ x # after_of s a xs)"
      "\<And>k. k \<noteq> l \<Longrightarrow> vlists s' k = vlists s k"
      "\<And>k ys. list_ok s k ys \<Longrightarrow> k \<noteq> l \<Longrightarrow> set ys \<inter> set xs = {} \<Longrightarrow> list_ok s' k ys"
      "requests (va_pool s') = Suc (requests (va_pool s))" "grants (va_pool s') = grants (va_pool s)"
proof (cases "b \<le> a \<or> (\<exists>y \<in> set xs. a < hi s y \<and> lo s y < b)")
  case True
  then have "create_fails s xs a b" by (auto simp: create_fails_def)
  moreover have "vma_create (Some l) start end' flags prot s = Some (None, s)"
    using True vma_overlaps_list [OF ok, of a b]
    by (simp add: vma_create_def Let_def a_def [symmetric] b_def [symmetric]) blast
  ultimately show thesis using fails [of s] by simp
next
  case False
  then have ab: "a < b" and free: "\<forall>y \<in> set xs. \<not> (a < hi s y \<and> lo s y < b)" by auto
  have run: "vma_create (Some l) start end' flags prot s = (case new_area_object s of
      (None, s1) \<Rightarrow> Some (None, s1)
    | (Some x, s1) \<Rightarrow> do { s2 \<leftarrow> vma_insert l x (s1\<lparr>areas := (areas s1)(x \<mapsto> new_vma a b flags prot)\<rparr>); Some (Some x, s2) })"
  proof -
    have "(\<exists>y \<in> set xs. a < hi s y \<and> lo s y < b) = False" using free by blast
    then have "vma_overlaps (Some l) a b s = Some False" using vma_overlaps_list [OF ok, of a b] by simp
    moreover have "(b \<le> a) = False" using ab by simp
    ultimately show ?thesis unfolding new_vma_def by (simp add: vma_create_def Let_def a_def [symmetric] b_def [symmetric])
  qed
  have al: "4096 dvd unat a" "4096 dvd unat b"
    using unat_ALIGN_UP_page_dvd [of end'] unat_ALIGN_DOWN_page_dvd [of start] by (simp_all add: a_def b_def)
  show thesis
  proof (cases s rule: new_area_cases)
    case (fail s1)
    then show thesis using fails [of s1] run by (simp add: create_fails_def)
  next
    case o: (ok s1)
    have "\<not> create_fails s xs a b" using False o(1) by (simp add: create_fails_def)
    then show thesis
      using works run o(1,4,5) by (rule_tac create_in [OF ok fr ab al free o(2-4), of flags prot]) simp
  qed
qed

end
