(* ===== verification/Vma_Correct.thy ===== *)
theory Vma_Correct
  imports Vma_List
begin

text \<open>
  The operations on whole address spaces: destroying a list frees its areas, a copy has the same areas in a list of
  its own, and the search for free space is first fit.
\<close>

section \<open>Destroying a list\<close>

lemma free_areas_list:
  assumes "dll (anxt s) (aprv s) p xs" "\<forall>x \<in> set xs. areas s x \<noteq> None"
  shows "free_areas (first_of xs) s = Some (s\<lparr>areas := (\<lambda>x. if x \<in> set xs then None else areas s x)\<rparr>)"
  using assms
proof (induction xs arbitrary: s p)
  case Nil
  then show ?case by (simp add: free_areas.simps)
next
  case (Cons x xs)
  then obtain v where v: "areas s x = Some v" by auto
  define s1 where "s1 = s\<lparr>areas := (areas s)(x := None)\<rparr>"
  have nx: "v_next v = first_of xs" "x \<notin> set xs" using Cons.prems(1) v by simp_all
  have "dll (anxt s1) (aprv s1) (Some x) xs"
  proof (rule dll_frame)
    show "dll (anxt s) (aprv s) (Some x) xs" using Cons.prems(1) by simp
    show "anxt s1 y = anxt s y" "aprv s1 y = aprv s y" if "y \<in> set xs" for y
      using that nx(2) by (auto simp: s1_def anxt_def aprv_def)
  qed
  moreover have "\<forall>y \<in> set xs. areas s1 y \<noteq> None" using Cons.prems(2) nx(2) by (auto simp: s1_def)
  ultimately have "free_areas (first_of xs) s1 = Some (s1\<lparr>areas := (\<lambda>y. if y \<in> set xs then None else areas s1 y)\<rparr>)"
    by (rule Cons.IH)
  moreover have "(\<lambda>y. if y \<in> set xs then None else areas s1 y) = (\<lambda>y. if y \<in> set (x # xs) then None else areas s y)"
    by (auto simp: s1_def)
  moreover have "free_areas (Some x) s = free_areas (first_of xs) s1"
    by (subst free_areas.simps) (simp add: v nx(1) s1_def)
  moreover have "s1\<lparr>areas := f\<rparr> = s\<lparr>areas := f\<rparr>" for f by (simp add: s1_def)
  ultimately show ?case by (simp only: first_of_simps)
qed

lemma vma_list_destroy_list:
  assumes "list_ok s l xs"
  obtains s' where "vma_list_destroy (Some l) s = Some s'" "vlists s' = (vlists s)(l := None)"
    "areas s' = (\<lambda>x. if x \<in> set xs then None else areas s x)" "va_pool s' = va_pool s"
proof -
  have "free_areas (first_of xs) s = Some (s\<lparr>areas := (\<lambda>x. if x \<in> set xs then None else areas s x)\<rparr>)"
    using list_okD(2) [OF assms] area_okD(1) [OF list_okD(3) [OF assms]] by (intro free_areas_list [of s None]) simp_all
  moreover obtain L where "vlists s l = Some L" "vl_head L = first_of xs" using list_head [OF assms] by blast
  ultimately have "vma_list_destroy (Some l) s =
      Some (s\<lparr>areas := (\<lambda>x. if x \<in> set xs then None else areas s x), vlists := (vlists s)(l := None)\<rparr>)"
    by (simp add: vma_list_destroy_def)
  then show thesis by (rule that) simp_all
qed

section \<open>Copying\<close>

lemma aligned_page:
  assumes "4096 dvd unat x"
  shows "ALIGN_DOWN x PAGE_SIZE = x" "ALIGN_UP x PAGE_SIZE = x"
proof -
  obtain k where k: "unat x = 4096 * k" using assms by (elim dvdE)
  have "unat x < 2 ^ 64" using unsigned_less [of x] by simp
  then have b: "unat x + 4095 < 2 ^ 64" using k by simp
  show "ALIGN_DOWN x PAGE_SIZE = x" by (simp add: word_unat_eq_iff unat_ALIGN_DOWN_page k)
  show "ALIGN_UP x PAGE_SIZE = x" using unat_ALIGN_UP_page [OF b] by (simp add: word_unat_eq_iff k)
qed

text \<open>Setting the backing file of an area keeps every list.\<close>

lemma set_file:
  assumes "areas s x = Some v"
  obtains s' where "upd_area x (\<lambda>w. w\<lparr>v_file := f, v_file_offset := k\<rparr>) s = Some s'" "vlists s' = vlists s" "va_pool s' = va_pool s"
    "payload s' = (payload s)(x \<mapsto> v\<lparr>v_next := None, v_prev := None, v_file := f, v_file_offset := k\<rparr>)"
    "anxt s' = anxt s" "aprv s' = aprv s" "\<And>l xs. list_ok s l xs \<Longrightarrow> list_ok s' l xs"
    "\<And>y. areas s' y = None \<longleftrightarrow> areas s y = None"
proof -
  define s' where "s' = s\<lparr>areas := (areas s)(x \<mapsto> v\<lparr>v_file := f, v_file_offset := k\<rparr>)\<rparr>"
  have f: "anxt s' = anxt s" "aprv s' = aprv s" "lo s' = lo s" "hi s' = hi s" "\<And>y. areas s' y = None \<longleftrightarrow> areas s y = None"
    using assms by (auto simp: s'_def anxt_def aprv_def lo_def hi_def payload_def fun_eq_iff)
  have "list_ok s' l xs" if "list_ok s l xs" for l xs
    using that unfolding list_ok_def head_ok_def area_ok_def f by (simp add: s'_def)
  moreover have "payload s' = (payload s)(x \<mapsto> v\<lparr>v_next := None, v_prev := None, v_file := f, v_file_offset := k\<rparr>)"
    by (auto simp: s'_def payload_def fun_eq_iff)
  ultimately show thesis using that [of s'] f assms by (simp add: upd_area_def s'_def)
qed

lemma copies_come_first:
  assumes ok: "list_ok s l (xs @ y # ys)" and eq: "map (payload s) ds = map (payload s) xs"
  shows "before_of s (lo s y) ds = ds" "after_of s (lo s y) ds = []"
    "\<forall>d \<in> set ds. \<not> (lo s y < hi s d \<and> lo s d < hi s y)"
proof -
  have b: "hi s d \<le> lo s y \<and> lo s d < lo s y" if "d \<in> set ds" for d
  proof -
    have "payload s d \<in> set (map (payload s) xs)" using that by (simp add: eq [symmetric])
    then obtain x where x: "x \<in> set xs" "payload s d = payload s x" by auto
    then have "hi s x \<le> lo s y" "lo s x < hi s x"
      using list_okD(4) [OF ok] area_okD(2) [OF list_okD(3) [OF ok, of x]] by (simp_all add: sorted_wrt_append)
    moreover have "lo s d = lo s x" "hi s d = hi s x" using x(2) by (simp_all add: lo_def hi_def)
    ultimately show ?thesis by simp
  qed
  show "before_of s (lo s y) ds = ds" "after_of s (lo s y) ds = []"
    using b by (simp_all add: before_of_def after_of_def)
  show "\<forall>d \<in> set ds. \<not> (lo s y < hi s d \<and> lo s d < hi s y)" using b leD by blast
qed

lemma clone_walk_list:
  assumes "list_ok s src (xs @ ys)" "list_ok s dst ds" "dst \<noteq> src" "fresh_areas s" "set ds \<inter> set (xs @ ys) = {}"
    "map (payload s) ds = map (payload s) xs"
  shows "\<exists>ok s' ds'. clone_walk dst (first_of ys) s = Some (ok, s') \<and> fresh_areas s' \<and> list_ok s' src (xs @ ys) \<and>
    list_ok s' dst ds' \<and> set ds' \<inter> set (xs @ ys) = {} \<and> set ds \<subseteq> set ds' \<and>
    (\<forall>z \<in> set ds'. z \<in> set ds \<or> payload s z = None) \<and>
    (\<forall>z. z \<notin> set ds' \<longrightarrow> payload s' z = payload s z) \<and> (\<forall>k. k \<noteq> dst \<longrightarrow> vlists s' k = vlists s k) \<and>
    ((\<forall>n. grants (va_pool s) n) \<longrightarrow> ok) \<and> (ok \<longrightarrow> map (payload s') ds' = map (payload s') (xs @ ys))"
  using assms
proof (induction ys arbitrary: s xs ds)
  case Nil
  then show ?case by (intro exI [of _ True] exI [of _ s] exI [of _ ds]) (simp add: clone_walk.simps)
next
  case (Cons y ys)
  have ny: "area_ok s y" using list_okD(3) [OF Cons.prems(1), of y] by simp
  then obtain v where v: "areas s y = Some v" by (auto simp: area_ok_def)
  have al: "ALIGN_DOWN (v_start v) PAGE_SIZE = lo s y" "ALIGN_UP (v_end v) PAGE_SIZE = hi s y"
    using ny v aligned_page by (simp_all add: area_ok_def)
  note cf = copies_come_first [OF Cons.prems(1,6)]
  show ?case
  proof (rule vma_create_spec [OF Cons.prems(2,4), of "v_start v" "v_end v" "v_flags v" "v_prot v"], goal_cases fails works)
    case (fails s1)
    have "list_ok s1 src (xs @ y # ys)" "list_ok s1 dst ds"
      using fails by (intro list_frame_areas [OF Cons.prems(1)] list_frame_areas [OF Cons.prems(2)]; simp)+
    moreover have "fresh_areas s1" using fails Cons.prems(4) by (simp add: fresh_areas_def)
    moreover have "payload s1 = payload s" using fails by (simp add: payload_def fun_eq_iff)
    moreover have "\<not> (\<forall>n. grants (va_pool s) n)"
      using fails(1) cf(3) area_okD(2) [OF ny] by (auto simp: create_fails_def al new_area_object_def pool_alloc_def split: if_splits)
    ultimately show ?thesis using fails v Cons.prems(5)
      by (intro exI [of _ False] exI [of _ s1] exI [of _ ds]) (simp add: clone_walk.simps [of dst "Some y"])
  next
    case (works x s1)
    have new: "list_ok s1 dst (ds @ [x])" using works(6) cf(1,2) by (simp add: al)
    have old: "list_ok s1 src (xs @ y # ys)" using works(8) [OF Cons.prems(1)] Cons.prems(3,5) by (simp add: Int_commute)
    have xo: "x \<notin> set (xs @ y # ys)" "x \<notin> set ds"
      using works(3) area_okD(1) [OF list_okD(3) [OF Cons.prems(1)]] area_okD(1) [OF list_okD(3) [OF Cons.prems(2)]] by blast+
    have xy: "x \<noteq> y" using xo(1) by auto
    have "payload s1 y = payload s y" using works(4) xy by simp
    then obtain v1 where v1: "areas s1 y = Some v1" "v1\<lparr>v_next := None, v_prev := None\<rparr> = v\<lparr>v_next := None, v_prev := None\<rparr>"
      using v by (auto simp: payload_def)
    have px: "payload s1 x = Some (new_vma (lo s y) (hi s y) (v_flags v) (v_prot v))" using works(4) by (simp add: al)
    then obtain w where w: "areas s1 x = Some w" "w\<lparr>v_next := None, v_prev := None\<rparr> = new_vma (lo s y) (hi s y) (v_flags v) (v_prot v)"
      by (auto simp: payload_def)
    obtain s2 where s2: "upd_area x (\<lambda>w. w\<lparr>v_file := v_file v1, v_file_offset := v_file_offset v1\<rparr>) s1 = Some s2"
        "vlists s2 = vlists s1" "va_pool s2 = va_pool s1"
        "payload s2 = (payload s1)(x \<mapsto> w\<lparr>v_next := None, v_prev := None, v_file := v_file v1, v_file_offset := v_file_offset v1\<rparr>)"
        "\<And>l xs. list_ok s1 l xs \<Longrightarrow> list_ok s2 l xs" "\<And>y. areas s2 y = None \<longleftrightarrow> areas s1 y = None"
      using set_file [OF w(1)] by metis
    have same: "payload s2 z = payload s z" if "z \<noteq> x" for z using that s2(4) works(4) by simp
    have "w\<lparr>v_next := None, v_prev := None, v_file := v_file v1, v_file_offset := v_file_offset v1\<rparr> = v\<lparr>v_next := None, v_prev := None\<rparr>"
      using v v1(2) w(2) by (cases v, cases v1, cases w) (simp add: new_vma_def)
    then have copy: "payload s2 x = payload s y" using s2(4) v by (simp add: payload_def)
    have keep: "map (payload s2) zs = map (payload s) zs" if "x \<notin> set zs" for zs using that by (auto intro!: same)
    have "list_ok s2 src ((xs @ [y]) @ ys)" using s2(5) [OF old] by simp
    moreover have "fresh_areas s2" using works(5) s2(2,3,6) by (simp add: fresh_areas_def)
    moreover have "set (ds @ [x]) \<inter> set ((xs @ [y]) @ ys) = {}" using Cons.prems(5) xo(1) by auto
    moreover have "map (payload s2) (ds @ [x]) = map (payload s2) (xs @ [y])"
      using Cons.prems(6) keep [OF xo(2)] keep [of "xs @ [y]"] xo(1) copy by simp
    ultimately obtain ok s' ds' where ih: "clone_walk dst (first_of ys) s2 = Some (ok, s')" "fresh_areas s'"
        "list_ok s' src ((xs @ [y]) @ ys)" "list_ok s' dst ds'" "set ds' \<inter> set ((xs @ [y]) @ ys) = {}"
        "set (ds @ [x]) \<subseteq> set ds'" "\<forall>z \<in> set ds'. z \<in> set (ds @ [x]) \<or> payload s2 z = None" "\<forall>z. z \<notin> set ds' \<longrightarrow> payload s' z = payload s2 z"
        "\<forall>k. k \<noteq> dst \<longrightarrow> vlists s' k = vlists s2 k" "(\<forall>n. grants (va_pool s2) n) \<longrightarrow> ok"
        "ok \<longrightarrow> map (payload s') ds' = map (payload s') ((xs @ [y]) @ ys)"
      using Cons.IH [OF _ s2(5) [OF new] Cons.prems(3)] by blast
    obtain v2 where "areas s2 y = Some v2" using s2(6) v1(1) by fastforce
    moreover from this have "v_next v2 = first_of ys"
      using dll_fields [OF list_okD(2) [OF s2(5) [OF old]]] by simp
    ultimately have "clone_walk dst (Some y) s = Some (ok, s')"
      using v works(2) v1(1) s2(1) ih(1) by (subst clone_walk.simps) simp
    moreover have "\<forall>z. z \<notin> set ds' \<longrightarrow> payload s' z = payload s z" using ih(6,8) same by fastforce
    moreover have "\<forall>z \<in> set ds'. z \<in> set ds \<or> payload s z = None"
    proof
      fix z assume "z \<in> set ds'"
      then show "z \<in> set ds \<or> payload s z = None" using ih(7) same [of z] works(3) payload_None [of s x]
        by (cases "z = x") (auto simp del: payload_None)
    qed
    moreover have "\<forall>k. k \<noteq> dst \<longrightarrow> vlists s' k = vlists s k" using ih(9) s2(2) works(7) by simp
    ultimately show ?thesis using ih(2-6,10,11) s2(3) works(10) by (intro exI [of _ ok] exI [of _ s'] exI [of _ ds']) simp
  qed
qed

section \<open>Finding free space\<close>

text \<open>The \<open>n\<close> bytes from \<open>a\<close> touch no area of the list.\<close>

definition gap_at :: "vm_areas \<Rightarrow> nat list \<Rightarrow> nat \<Rightarrow> nat \<Rightarrow> bool" where
  "gap_at s xs n a \<longleftrightarrow> (\<forall>x \<in> set xs. a + n \<le> unat (lo s x) \<or> unat (hi s x) \<le> a)"

definition fits :: "vm_areas \<Rightarrow> nat list \<Rightarrow> nat \<Rightarrow> nat \<Rightarrow> bool" where
  "fits s xs n a \<longleftrightarrow> unat SPACE_START \<le> a \<and> a + n \<le> unat SPACE_END \<and> gap_at s xs n a"

lemma unat_add_small:
  fixes a b :: u64
  assumes "a \<le> SPACE_END" "unat b \<le> 2 ^ 63"
  shows "unat (a + b) = unat a + unat b"
proof (rule unat_add_lem [THEN iffD1])
  have "unat a \<le> unat SPACE_END" using assms(1) by (simp add: word_le_nat_alt)
  then show "unat a + unat b < 2 ^ LENGTH(64)" using assms(2) by (simp add: SPACE_END_def)
qed

lemma gap_walk_list:
  fixes sz g :: u64
  assumes "dll (anxt s) (aprv s) p xs" "\<forall>x \<in> set xs. area_ok s x" "sorted_wrt (\<lambda>x y. hi s x \<le> lo s y) xs"
    "\<forall>x \<in> set xs. hi s x \<le> SPACE_END" "g \<le> SPACE_END" "unat sz \<le> 2 ^ 63"
  shows "\<exists>r. gap_walk s (first_of xs) sz g = Some r \<and> (case r of
      Inr a \<Rightarrow> g \<le> a \<and> unat a + unat sz \<le> unat SPACE_END \<and> gap_at s xs (unat sz) (unat a) \<and>
        (\<forall>b. unat g \<le> b \<and> b < unat a \<longrightarrow> \<not> gap_at s xs (unat sz) b)
    | Inl e \<Rightarrow> g \<le> e \<and> e \<le> SPACE_END \<and> (\<forall>x \<in> set xs. hi s x \<le> e) \<and>
        (\<forall>b. unat g \<le> b \<and> b < unat e \<longrightarrow> \<not> gap_at s xs (unat sz) b))"
  using assms
proof (induction xs arbitrary: p g)
  case Nil
  then show ?case by (auto simp: gap_walk.simps)
next
  case (Cons x xs)
  then obtain v where v: "areas s x = Some v" "v_start v < v_end v" "v_end v \<le> SPACE_END" by (auto simp: area_ok_def)
  have nx: "v_next v = first_of xs" using Cons.prems(1) v by simp
  have after: "v_end v \<le> lo s y" "lo s y < hi s y" if "y \<in> set xs" for y
    using Cons.prems(2,3) v(1) that by (auto simp: area_ok_def)
  have sum: "unat (g + sz) = unat g + unat sz" using Cons.prems(5,6) by (rule unat_add_small)
  show ?case
  proof (cases "g + sz \<le> v_start v")
    case True
    have le: "unat g + unat sz \<le> unat (v_start v)" using True sum by (simp add: word_le_nat_alt)
    then have "unat g + unat sz \<le> unat (lo s y)" if "y \<in> set xs" for y
      using after(1) [OF that] v(2) by (simp add: word_le_nat_alt word_less_nat_alt)
    then have "gap_at s (x # xs) (unat sz) (unat g)" using le v(1) by (simp add: gap_at_def)
    then show ?thesis using True le v nx
      by (intro exI [of _ "Inr g"]) (auto simp: gap_walk.simps [of s "Some x"] word_le_nat_alt word_less_nat_alt)
  next
    case False
    define g' where "g' = (if g < v_end v then v_end v else g)"
    have g': "g \<le> g'" "g' \<le> SPACE_END" "v_end v \<le> g'" using Cons.prems(5) v(3) by (auto simp: g'_def)
    obtain r where r: "gap_walk s (first_of xs) sz g' = Some r" "case r of
        Inr a \<Rightarrow> g' \<le> a \<and> unat a + unat sz \<le> unat SPACE_END \<and> gap_at s xs (unat sz) (unat a) \<and>
          (\<forall>b. unat g' \<le> b \<and> b < unat a \<longrightarrow> \<not> gap_at s xs (unat sz) b)
      | Inl e \<Rightarrow> g' \<le> e \<and> e \<le> SPACE_END \<and> (\<forall>x \<in> set xs. hi s x \<le> e) \<and>
          (\<forall>b. unat g' \<le> b \<and> b < unat e \<longrightarrow> \<not> gap_at s xs (unat sz) b)"
      using Cons.IH [of "Some x" g'] Cons.prems g'(2) by auto
    have skip: "\<not> gap_at s (x # xs) (unat sz) b" if "unat g \<le> b" "b < unat g'" for b
      using that False v(1) sum by (auto simp: gap_at_def g'_def word_le_nat_alt word_less_nat_alt split: if_splits)
    have weak: "gap_at s xs (unat sz) b" if "gap_at s (x # xs) (unat sz) b" for b using that by (simp add: gap_at_def)
    have none: "\<forall>b. unat g \<le> b \<and> b < c \<longrightarrow> \<not> gap_at s (x # xs) (unat sz) b"
      if "\<forall>b. unat g' \<le> b \<and> b < c \<longrightarrow> \<not> gap_at s xs (unat sz) b" for c
      using that skip weak by (meson not_le)
    have "gap_walk s (Some x) sz g = Some r"
      using v nx False r(1) by (subst gap_walk.simps) (simp add: g'_def)
    moreover have "g \<le> c \<and> hi s x \<le> c" if "g' \<le> c" for c using that g'(1,3) v(1) by auto
    moreover have "gap_at s (x # xs) (unat sz) (unat a)" if "gap_at s xs (unat sz) (unat a)" "g' \<le> a" for a
      using that g'(3) v(1) by (auto simp: gap_at_def word_le_nat_alt)
    ultimately show ?thesis
      using r(2) none [of "unat (case r of Inl e \<Rightarrow> e | Inr a \<Rightarrow> a)"] by (intro exI [of _ r]) (cases r; simp)
  qed
qed

text \<open>The lowest address of user space where \<open>n\<close> bytes fit, as \<open>vma_find_free\<close> reports it.\<close>

definition first_fit :: "vm_areas \<Rightarrow> nat list \<Rightarrow> nat \<Rightarrow> u64" where
  "first_fit s xs n = (if \<exists>a. fits s xs n a then of_nat (LEAST a. fits s xs n a) else 0)"

lemma first_fitI:
  assumes "fits s xs n (unat a)" "\<forall>b. unat SPACE_START \<le> b \<and> b < unat a \<longrightarrow> \<not> gap_at s xs n b"
  shows "first_fit s xs n = a"
proof -
  have "(LEAST b. fits s xs n b) = unat a"
    using assms by (intro Least_equality) (auto simp: fits_def not_le [symmetric])
  then show ?thesis using assms(1) by (auto simp: first_fit_def)
qed

lemma find_gap_list:
  fixes sz :: u64
  assumes ok: "list_ok s l xs" and user: "\<forall>x \<in> set xs. hi s x \<le> SPACE_END" and sz: "unat sz \<le> 2 ^ 63"
  shows "find_gap l sz s = Some (first_fit s xs (unat sz))"
proof -
  obtain L where L: "vlists s l = Some L" "vl_head L = first_of xs" using list_head [OF ok] by blast
  have "SPACE_START \<le> SPACE_END" by (simp add: SPACE_START_def SPACE_END_def)
  then obtain r where r: "gap_walk s (first_of xs) sz SPACE_START = Some r" "case r of
      Inr a \<Rightarrow> SPACE_START \<le> a \<and> unat a + unat sz \<le> unat SPACE_END \<and> gap_at s xs (unat sz) (unat a) \<and>
        (\<forall>b. unat SPACE_START \<le> b \<and> b < unat a \<longrightarrow> \<not> gap_at s xs (unat sz) b)
    | Inl e \<Rightarrow> SPACE_START \<le> e \<and> e \<le> SPACE_END \<and> (\<forall>x \<in> set xs. hi s x \<le> e) \<and>
        (\<forall>b. unat SPACE_START \<le> b \<and> b < unat e \<longrightarrow> \<not> gap_at s xs (unat sz) b)"
    using gap_walk_list [OF list_okD(2) [OF ok] _ list_okD(4) [OF ok] user _ sz] list_okD(3) [OF ok] by blast
  show ?thesis
  proof (cases r)
    case (Inr a)
    then have "first_fit s xs (unat sz) = a" using r(2) by (intro first_fitI) (simp_all add: fits_def word_le_nat_alt)
    then show ?thesis using L r(1) Inr by (simp add: find_gap_def)
  next
    case (Inl e)
    then have e: "SPACE_START \<le> e" "e \<le> SPACE_END" "\<forall>x \<in> set xs. hi s x \<le> e"
        "\<forall>b. unat SPACE_START \<le> b \<and> b < unat e \<longrightarrow> \<not> gap_at s xs (unat sz) b" using r(2) by simp_all
    have le: "e + sz \<le> SPACE_END \<longleftrightarrow> unat e + unat sz \<le> unat SPACE_END"
      using unat_add_small [OF e(2) sz] by (simp add: word_le_nat_alt)
    have "first_fit s xs (unat sz) = (if e + sz \<le> SPACE_END then e else 0)"
    proof (cases "e + sz \<le> SPACE_END")
      case True
      then have "fits s xs (unat sz) (unat e)" using e le by (auto simp: fits_def gap_at_def word_le_nat_alt)
      then show ?thesis using True first_fitI [OF _ e(4)] by simp
    next
      case False
      then have "\<not> fits s xs (unat sz) b" for b using e(4) le by (cases "b < unat e") (auto simp: fits_def)
      then show ?thesis using False by (simp add: first_fit_def)
    qed
    then show ?thesis using L r(1) Inl by (simp add: find_gap_def)
  qed
qed

section \<open>The list as a map from addresses to areas\<close>

lemma find_SomeD: "List.find P xs = Some x \<Longrightarrow> x \<in> set xs \<and> P x"
  by (induction xs) (auto split: if_splits)

definition covers :: "vm_areas \<Rightarrow> u64 \<Rightarrow> nat \<Rightarrow> bool" where
  "covers s a x \<longleftrightarrow> lo s x \<le> a \<and> a < hi s x"

definition view :: "vm_areas \<Rightarrow> nat list \<Rightarrow> u64 \<Rightarrow> vma option" where
  "view s xs a = (case List.find (covers s a) xs of None \<Rightarrow> None | Some x \<Rightarrow> payload s x)"

lemma vma_find_list: "list_ok s l xs \<Longrightarrow> vma_find (Some l) a s = Some (List.find (covers s a) xs)"
  using list_head [of s l xs] find_walk_list [of s None xs a] by (auto simp: vma_find_def list_ok_def covers_def [abs_def])

lemma vma_find_or_next_list: "list_ok s l xs \<Longrightarrow> vma_find_or_next (Some l) a s = Some (List.find (\<lambda>x. a < hi s x) xs)"
  using list_head [of s l xs] next_walk_list [of s None xs a] by (auto simp: vma_find_or_next_def list_ok_def)

lemma covers_unique:
  assumes ok: "list_ok s l xs" and "x \<in> set xs" "y \<in> set xs" "covers s a x" "covers s a y"
  shows "x = y"
proof -
  have "sorted_wrt (\<lambda>x y. hi s x \<le> lo s y) xs \<Longrightarrow> x \<in> set xs \<Longrightarrow> y \<in> set xs \<Longrightarrow> x = y" for xs
    using assms(4,5) by (induction xs) (auto simp: covers_def)
  then show ?thesis using list_okD(4) [OF ok] assms(2,3) by blast
qed

lemma view_at:
  assumes "list_ok s l xs" "x \<in> set xs" "covers s a x"
  shows "view s xs a = payload s x"
proof (cases "List.find (covers s a) xs")
  case None
  then show ?thesis using assms(2,3) by (auto simp: find_None_iff)
next
  case (Some y)
  then have "y = x" using find_SomeD [OF Some] covers_unique [OF assms(1) _ assms(2) _ assms(3)] by blast
  then show ?thesis using Some by (simp add: view_def)
qed

lemma view_none: "\<forall>x \<in> set xs. \<not> covers s a x \<Longrightarrow> view s xs a = None"
  by (simp add: view_def find_None_iff [THEN iffD2])

lemma view_cong:
  assumes "list_ok s l xs" "list_ok s' l xs'" "\<And>x. covers s a x \<Longrightarrow> x \<in> set xs \<longleftrightarrow> x \<in> set xs'"
    "\<And>x. x \<in> set xs \<union> set xs' \<Longrightarrow> covers s' a x = covers s a x"
    "\<And>x. x \<in> set xs \<Longrightarrow> x \<in> set xs' \<Longrightarrow> payload s' x = payload s x"
  shows "view s' xs' a = view s xs a"
proof (cases "\<exists>x \<in> set xs. covers s a x")
  case True
  then obtain x where x: "x \<in> set xs" "covers s a x" by blast
  then have "x \<in> set xs'" "covers s' a x" using assms(3,4) by auto
  then show ?thesis using view_at [OF assms(1) x] view_at [OF assms(2)] assms(5) x(1) by simp
next
  case False
  then have "\<forall>x \<in> set xs'. \<not> covers s' a x" using assms(3,4) by auto
  then show ?thesis using view_none [of xs s a] view_none [of xs' s' a] False by simp
qed

section \<open>Sequences of operations\<close>

text \<open>Mapping a range, and unmapping the area at an address as \<open>sys_munmap\<close> does; the result says whether a range was mapped.\<close>

datatype area_op = Map u64 u64 u32 u32 | Unmap u64

fun area_step :: "nat \<Rightarrow> area_op \<Rightarrow> vm_areas \<Rightarrow> (bool \<times> vm_areas) option" where
  "area_step l (Map start end' flags prot) s =
     do { (r, s1) \<leftarrow> vma_create (Some l) start end' flags prot s; Some (r \<noteq> None, s1) }"
| "area_step l (Unmap a) s =
     do { r \<leftarrow> vma_find (Some l) a s; s1 \<leftarrow> vma_destroy (Some l) r s; Some (False, s1) }"

fun area_run :: "nat \<Rightarrow> area_op list \<Rightarrow> vm_areas \<Rightarrow> (bool list \<times> vm_areas) option" where
  "area_run l [] s = Some ([], s)"
| "area_run l (x # xs) s =
     do { (b, s1) \<leftarrow> area_step l x s; (bs, s2) \<leftarrow> area_run l xs s1; Some (b # bs, s2) }"

text \<open>What the operations mean for a map from addresses to areas.\<close>

fun map_step :: "area_op \<Rightarrow> bool \<Rightarrow> (u64 \<Rightarrow> vma option) \<Rightarrow> u64 \<Rightarrow> vma option" where
  "map_step (Map start end' flags prot) ok m =
     (let a = ALIGN_DOWN start PAGE_SIZE; b = ALIGN_UP end' PAGE_SIZE in
      if ok then (\<lambda>z. if a \<le> z \<and> z < b then Some (new_vma a b flags prot) else m z) else m)"
| "map_step (Unmap a) ok m =
     (case m a of None \<Rightarrow> m | Some v \<Rightarrow> (\<lambda>z. if v_start v \<le> z \<and> z < v_end v then None else m z))"

fun map_run :: "area_op list \<Rightarrow> bool list \<Rightarrow> (u64 \<Rightarrow> vma option) \<Rightarrow> u64 \<Rightarrow> vma option" where
  "map_run (x # xs) (b # bs) m = map_run xs bs (map_step x b m)"
| "map_run _ _ m = m"

lemma view_create:
  assumes ok: "list_ok s l xs" and ok': "list_ok s' l xs'" and x: "areas s x = None" "set xs' = insert x (set xs)"
    and pl: "payload s' = (payload s)(x \<mapsto> new_vma a b flags prot)"
  shows "view s' xs' = (\<lambda>z. if a \<le> z \<and> z < b then Some (new_vma a b flags prot) else view s xs z)"
proof (rule ext)
  fix z
  have cx: "covers s' z x \<longleftrightarrow> a \<le> z \<and> z < b" using pl by (simp add: covers_def lo_def hi_def new_vma_def)
  have cy: "covers s' z y = covers s z y" if "y \<noteq> x" for y using pl that by (simp add: covers_def lo_def hi_def)
  have nx: "x \<notin> set xs" using x(1) area_okD(1) [OF list_okD(3) [OF ok]] by blast
  have no: "\<not> covers s z x" using x(1) by (simp add: covers_def lo_def hi_def payload_def)
  show "view s' xs' z = (if a \<le> z \<and> z < b then Some (new_vma a b flags prot) else view s xs z)"
  proof (cases "a \<le> z \<and> z < b")
    case True
    then show ?thesis using view_at [OF ok', of x z] x(2) cx pl by simp
  next
    case False
    have "covers s' z y = covers s z y" for y using cx cy no False by (cases "y = x") auto
    then have "view s' xs' z = view s xs z" using x(2) nx no pl by (intro view_cong [OF ok ok']) auto
    then show ?thesis using False by auto
  qed
qed

lemma view_destroy:
  assumes ok: "list_ok s l (ys @ x # zs)" and ok': "list_ok s' l (ys @ zs)" and pl: "payload s' = (payload s)(x := None)"
  shows "view s' (ys @ zs) = (\<lambda>z. if lo s x \<le> z \<and> z < hi s x then None else view s (ys @ x # zs) z)"
proof (rule ext)
  fix z
  have nx: "x \<notin> set (ys @ zs)" using list_okD(5) [OF ok] by simp
  have cy: "covers s' z y = covers s z y" if "y \<noteq> x" for y using pl that by (simp add: covers_def lo_def hi_def)
  show "view s' (ys @ zs) z = (if lo s x \<le> z \<and> z < hi s x then None else view s (ys @ x # zs) z)"
  proof (cases "covers s z x")
    case True
    then have "\<not> covers s z y" if "y \<in> set (ys @ zs)" for y using covers_unique [OF ok, of x y z] that nx by auto
    then have "\<forall>y \<in> set (ys @ zs). \<not> covers s' z y" using cy nx by metis
    then show ?thesis using view_none True by (simp add: covers_def)
  next
    case False
    have "\<not> covers s' z x" using pl by (simp add: covers_def lo_def hi_def)
    then have "covers s' z y = covers s z y" for y using cy False by (cases "y = x") auto
    then have "view s' (ys @ zs) z = view s (ys @ x # zs) z" using False nx pl by (intro view_cong [OF ok ok']) auto
    then show ?thesis using False by (auto simp: covers_def)
  qed
qed

lemma view_payload:
  assumes "payload s' = payload s"
  shows "view s' = view s"
proof -
  have "covers s' = covers s" by (simp add: covers_def lo_def hi_def assms fun_eq_iff)
  then show ?thesis unfolding view_def assms by simp
qed

lemma set_before_after: "set (before_of s a xs @ x # after_of s a xs) = insert x (set xs)"
  by (metis before_after Un_insert_right list.simps(15) set_append)

lemma area_step_view:
  assumes ok: "list_ok s l xs" and fr: "fresh_areas s"
  shows "\<exists>b s' xs'. area_step l op s = Some (b, s') \<and> list_ok s' l xs' \<and> fresh_areas s' \<and> view s' xs' = map_step op b (view s xs)"
proof (cases op)
  case (Map start end' flags prot)
  show ?thesis
  proof (rule vma_create_spec [OF ok fr, of start end' flags prot], goal_cases fails works)
    case (fails s')
    have "list_ok s' l xs" "payload s' = payload s" using fails by (auto intro: list_frame_areas [OF ok] simp: payload_def fun_eq_iff)
    moreover have "view s' = view s" using view_payload [OF calculation(2)] .
    ultimately show ?thesis using Map fails fr
      by (intro exI [of _ False] exI [of _ s'] exI [of _ xs]) (simp add: fresh_areas_def)
  next
    case (works x s')
    show ?thesis
      using Map works(2,5,6) view_create [OF ok works(6) works(3) set_before_after works(4)]
      by (intro exI [of _ True] exI [of _ s'] exI conjI [OF _ conjI [OF works(6)]]) (simp_all add: Let_def)
  qed
next
  case (Unmap a)
  show ?thesis
  proof (cases "List.find (covers s a) xs")
    case None
    then show ?thesis using Unmap vma_find_list [OF ok, of a] ok fr
      by (intro exI [of _ False] exI [of _ s] exI [of _ xs]) (simp add: vma_destroy_def view_def)
  next
    case (Some x)
    then obtain ys zs where xs: "xs = ys @ x # zs" using find_SomeD [OF Some] split_list by fastforce
    obtain s' where s': "vma_destroy (Some l) (Some x) s = Some s'" "payload s' = (payload s)(x := None)" "va_pool s' = va_pool s"
        "\<And>k. k \<noteq> l \<Longrightarrow> vlists s' k = vlists s k" "list_ok s' l (ys @ zs)"
      using vma_destroy_list [OF ok [unfolded xs]] by metis
    obtain v where v: "areas s x = Some v" using area_okD(1) [OF list_okD(3) [OF ok, of x]] xs by auto
    have "view s xs a = payload s x" using Some by (simp add: view_def)
    moreover have "payload s x = Some (v\<lparr>v_next := None, v_prev := None\<rparr>)" using v by (simp add: payload_def)
    ultimately have "map_step (Unmap a) False (view s xs) = (\<lambda>z. if lo s x \<le> z \<and> z < hi s x then None else view s xs z)"
      using v by simp
    then have "view s' (ys @ zs) = map_step (Unmap a) False (view s xs)"
      using view_destroy [OF ok [unfolded xs] s'(5,2)] by (simp only: xs)
    moreover have "fresh_areas s'"
      unfolding fresh_areas_def s'(3)
    proof (intro allI impI)
      fix y assume "requests (va_pool s) \<le> y"
      then have y: "areas s y = None" "vlists s y = None" using fr by (simp_all add: fresh_areas_def)
      have "payload s' y = None" using s'(2) y(1) by (simp add: payload_def)
      moreover have "y \<noteq> l" using list_head [OF ok] y(2) by auto
      ultimately show "areas s' y = None \<and> vlists s' y = None" using s'(4) y(2) by simp
    qed
    ultimately show ?thesis using Unmap vma_find_list [OF ok, of a] Some s'(1,5)
      by (intro exI [of _ False] exI [of _ s'] exI [of _ "ys @ zs"]) (simp del: map_step.simps)
  qed
qed

lemma area_run_view:
  assumes "list_ok s l xs" "fresh_areas s"
  shows "\<exists>bs s' xs'. area_run l ops s = Some (bs, s') \<and> length bs = length ops \<and> list_ok s' l xs' \<and> fresh_areas s' \<and>
    view s' xs' = map_run ops bs (view s xs)"
  using assms
proof (induction ops arbitrary: s xs)
  case Nil
  then show ?case by auto
next
  case (Cons op ops)
  obtain b s1 xs1 where s1: "area_step l op s = Some (b, s1)" "list_ok s1 l xs1" "fresh_areas s1"
      "view s1 xs1 = map_step op b (view s xs)"
    using area_step_view [OF Cons.prems] by metis
  obtain bs s' xs' where "area_run l ops s1 = Some (bs, s')" "length bs = length ops" "list_ok s' l xs'" "fresh_areas s'"
      "view s' xs' = map_run ops bs (view s1 xs1)"
    using Cons.IH [OF s1(2,3)] by metis
  then show ?case using s1(1,4) by (intro exI [of _ "b # bs"] exI [of _ s'] exI [of _ xs']) simp
qed

section \<open>Properties\<close>

text \<open>A list with one area, and room for more.\<close>

definition one_area :: vm_areas where
  "one_area = \<lparr>va_pool = \<lparr>grants = (\<lambda>_. True), requests = 2\<rparr>,
     areas = [1 \<mapsto> \<lparr>v_start = 0x400000, v_end = 0x402000, v_flags = 1, v_prot = 7, v_next = None, v_prev = None,
                     v_file = Some 9, v_file_offset = 4096\<rparr>],
     vlists = [0 \<mapsto> \<lparr>vl_head = Some 1, vl_tail = Some 1, vl_count = 1\<rparr>]\<rparr>"

lemma one_area_ok: "list_ok one_area 0 [1]" "fresh_areas one_area" "\<forall>x \<in> set [1]. hi one_area x \<le> SPACE_END"
  by (simp_all add: list_ok_def head_ok_def area_ok_def fresh_areas_def one_area_def anxt_def aprv_def lo_def hi_def payload_def
      SPACE_END_def)

text \<open>C34. A list of memory areas refines a map from addresses to areas.  Every sequence of requests to map a range or to unmap
  the area at an address runs to its end, and the list it leaves is again sorted, disjoint and page aligned with its count right;
  the map it stands for is the one the requests give, where a range was mapped exactly if the list said so.\<close>

theorem vma_list_is_a_map:
  assumes "list_ok s l xs" "fresh_areas s"
  shows "\<exists>bs s' xs'. area_run l ops s = Some (bs, s') \<and> length bs = length ops \<and> list_ok s' l xs' \<and> fresh_areas s' \<and>
    view s' xs' = map_run ops bs (view s xs)"
  using assms by (rule area_run_view)

theorem vma_list_is_a_map_witness:
  "\<exists>bs s' xs'. area_run 0 [Map 0x1000 0x3000 0 0, Unmap 0x400000] one_area = Some (bs, s') \<and> length bs = 2 \<and> list_ok s' 0 xs'"
  using vma_list_is_a_map [OF one_area_ok(1,2), of "[Map 0x1000 0x3000 0 0, Unmap 0x400000]"] by auto

text \<open>C35. Creating an area either fails or adds exactly that area.  It fails when the page-aligned range is empty, when it overlaps
  an area of the list, or when memory is out, and then no area and no list changes; otherwise a new object holds the aligned range
  with the flags given and no file, linked at the place its address has in the sorted list, and every other area keeps its contents.\<close>

theorem vma_create_correct:
  assumes "list_ok s l xs" "fresh_areas s" "a = ALIGN_DOWN start PAGE_SIZE" "b = ALIGN_UP end' PAGE_SIZE"
  shows "\<exists>r s'. vma_create (Some l) start end' flags prot s = Some (r, s') \<and> (case r of
      None \<Rightarrow> (b \<le> a \<or> (\<exists>y \<in> set xs. a < hi s y \<and> lo s y < b) \<or> \<not> grants (va_pool s) (requests (va_pool s))) \<and>
        areas s' = areas s \<and> vlists s' = vlists s
    | Some x \<Rightarrow> a < b \<and> (\<forall>y \<in> set xs. hi s y \<le> a \<or> b \<le> lo s y) \<and> areas s x = None \<and>
        payload s' = (payload s)(x \<mapsto> new_vma a b flags prot) \<and>
        list_ok s' l (before_of s a xs @ x # after_of s a xs) \<and> (\<forall>k. k \<noteq> l \<longrightarrow> vlists s' k = vlists s k))"
proof (rule vma_create_spec [OF assms(1,2), of start end' flags prot, folded assms(3,4)], goal_cases fails works)
  case (fails s')
  then show ?thesis
    by (intro exI [of _ None] exI [of _ s']) (auto simp: create_fails_def new_area_object_def pool_alloc_def split: if_splits)
next
  case (works x s')
  then have "a < b" "\<forall>y \<in> set xs. hi s y \<le> a \<or> b \<le> lo s y" by (auto simp: create_fails_def)
  then show ?thesis using works(2-4,6,7) by (intro exI [of _ "Some x"] exI [of _ s']) simp
qed

theorem vma_create_correct_witness:
  "\<exists>r s'. vma_create (Some 0) 0x403210 0x403f00 0 0 one_area = Some (r, s') \<and> (\<forall>x. r = Some x \<longrightarrow>
     payload s' x = Some (new_vma 0x403000 0x404000 0 0))"
proof -
  have "(0x403000 :: u64) = ALIGN_DOWN 0x403210 PAGE_SIZE" "(0x404000 :: u64) = ALIGN_UP 0x403f00 PAGE_SIZE"
    by (simp_all add: ALIGN_DOWN_def ALIGN_UP_def PAGE_SIZE_def)
  from vma_create_correct [OF one_area_ok(1,2) this, of 0 0] obtain r s' where
    "vma_create (Some 0) 0x403210 0x403f00 0 0 one_area = Some (r, s')"
    "\<forall>x. r = Some x \<longrightarrow> payload s' = (payload one_area)(x \<mapsto> new_vma 0x403000 0x404000 0 0)"
    by (auto simp del: payload_None split: option.splits)
  then show ?thesis by auto
qed

text \<open>C36. Destroying an area unlinks it, frees it, and changes no other area and no other list; the list stays sorted and its
  count, head and tail are right, wherever in the list the area was.\<close>

theorem vma_destroy_correct:
  assumes "list_ok s l (ys @ x # zs)"
  shows "\<exists>s'. vma_destroy (Some l) (Some x) s = Some s' \<and> list_ok s' l (ys @ zs) \<and> payload s' = (payload s)(x := None) \<and>
    (\<forall>k. k \<noteq> l \<longrightarrow> vlists s' k = vlists s k)"
  using vma_destroy_list [OF assms] by metis

theorem vma_destroy_correct_witness: "\<exists>s'. vma_destroy (Some 0) (Some 1) one_area = Some s' \<and> list_ok s' 0 []"
  using vma_destroy_correct [of one_area 0 "[]" 1 "[]"] one_area_ok(1) by auto

text \<open>C37. The three searches agree with searching the sorted sequence: \<open>vma_find\<close> gives the area that contains the address,
  \<open>vma_find_or_next\<close> the first that ends above it, and \<open>vma_overlaps\<close> says whether an area meets the range, although two of them
  stop early.\<close>

theorem vma_searches_correct:
  assumes "list_ok s l xs"
  shows "vma_find (Some l) a s = Some (List.find (\<lambda>x. lo s x \<le> a \<and> a < hi s x) xs) \<and>
    vma_find_or_next (Some l) a s = Some (List.find (\<lambda>x. a < hi s x) xs) \<and>
    vma_overlaps (Some l) a b s = Some (\<exists>x \<in> set xs. a < hi s x \<and> lo s x < b)"
  using vma_find_list [OF assms, of a] vma_find_or_next_list [OF assms, of a] vma_overlaps_list [OF assms, of a b]
  by (simp add: covers_def [abs_def])

theorem vma_searches_correct_witness: "vma_find (Some 0) 0x401234 one_area = Some (Some 1)"
proof -
  have "lo one_area 1 = 0x400000" "hi one_area 1 = 0x402000" by (simp_all add: one_area_def lo_def hi_def payload_def)
  then show ?thesis using vma_searches_correct [OF one_area_ok(1), of "0x401234"] by simp
qed

text \<open>C38. Copying an address space's list never touches the original.  Either the copy is a list of new areas with the same
  ranges, flags, protections and files, or memory ran out and everything the copy had allocated is freed again.\<close>

theorem vma_list_clone_correct:
  assumes "list_ok s src xs" "fresh_areas s"
  shows "\<exists>r s'. vma_list_clone (Some src) s = Some (r, s') \<and> list_ok s' src xs \<and> (case r of
      None \<Rightarrow> \<not> (\<forall>n. grants (va_pool s) n) \<and> payload s' = payload s \<and> vlists s' = vlists s
    | Some dst \<Rightarrow> \<exists>ds. list_ok s' dst ds \<and> dst \<noteq> src \<and> set ds \<inter> set xs = {} \<and> map (payload s') ds = map (payload s) xs \<and>
        (\<forall>z. z \<notin> set ds \<longrightarrow> payload s' z = payload s z))"
proof (cases s rule: new_area_cases)
  case (fail s1)
  moreover have "\<not> grants (va_pool s) (requests (va_pool s))"
    using fail(1) by (auto simp: new_area_object_def pool_alloc_def split: if_splits)
  ultimately show ?thesis using list_frame_areas [OF assms(1), of s1]
    by (intro exI [of _ None] exI [of _ s1]) (auto simp: vma_list_clone_def vma_list_create_def payload_def fun_eq_iff)
next
  case (ok s1)
  define dst where "dst = requests (va_pool s)"
  define s2 where "s2 = s1\<lparr>vlists := (vlists s1)(dst \<mapsto> \<lparr>vl_head = None, vl_tail = None, vl_count = 0\<rparr>)\<rparr>"
  have no: "vlists s dst = None" using assms(2) by (simp add: fresh_areas_def dst_def)
  then have ne: "dst \<noteq> src" using list_head [OF assms(1)] by auto
  have pl: "payload s2 = payload s" using ok by (simp add: s2_def payload_def fun_eq_iff)
  have src: "list_ok s2 src xs" using ne ok by (intro list_frame_areas [OF assms(1)]) (simp_all add: s2_def)
  have dst: "list_ok s2 dst []" by (simp add: s2_def list_ok_def head_ok_def)
  have fr: "fresh_areas s2" using assms(2) ok by (auto simp: fresh_areas_def s2_def dst_def)
  have gr: "grants (va_pool s2) = grants (va_pool s)" using ok(5) by (simp add: s2_def)
  have "\<exists>b s3 ds. clone_walk dst (first_of xs) s2 = Some (b, s3) \<and> fresh_areas s3 \<and> list_ok s3 src xs \<and> list_ok s3 dst ds \<and>
      set ds \<inter> set xs = {} \<and> (\<forall>z \<in> set ds. payload s z = None) \<and>
      (\<forall>z. z \<notin> set ds \<longrightarrow> payload s3 z = payload s z) \<and> (\<forall>k. k \<noteq> dst \<longrightarrow> vlists s3 k = vlists s2 k) \<and>
      ((\<forall>n. grants (va_pool s) n) \<longrightarrow> b) \<and> (b \<longrightarrow> map (payload s3) ds = map (payload s3) xs)"
    using clone_walk_list [of s2 src "[]" xs dst "[]"] src dst ne fr unfolding pl gr append_Nil by (simp del: payload_None)
  then obtain b s3 ds where w: "clone_walk dst (first_of xs) s2 = Some (b, s3)" "list_ok s3 src xs" "list_ok s3 dst ds"
      "set ds \<inter> set xs = {}" "\<forall>z \<in> set ds. payload s z = None" "\<forall>z. z \<notin> set ds \<longrightarrow> payload s3 z = payload s z"
      "\<forall>k. k \<noteq> dst \<longrightarrow> vlists s3 k = vlists s2 k" "(\<forall>n. grants (va_pool s) n) \<longrightarrow> b"
      "b \<longrightarrow> map (payload s3) ds = map (payload s3) xs"
    by (elim exE conjE) (rule that)
  have run: "vma_list_clone (Some src) s = (if b then Some (Some dst, s3) else do { s4 \<leftarrow> vma_list_destroy (Some dst) s3; Some (None, s4) })"
    using list_head [OF src] w(1) ok(1) by (auto simp: vma_list_clone_def vma_list_create_def s2_def dst_def)
  show ?thesis
  proof (cases b)
    case True
    have "map (payload s3) xs = map (payload s) xs" using w(4,6) by (auto simp del: payload_None)
    then show ?thesis using True run w(2-4,6,9) ne
      by (intro exI [of _ "Some dst"] exI [of _ s3]) (auto simp del: payload_None)
  next
    case False
    obtain s4 where s4: "vma_list_destroy (Some dst) s3 = Some s4" "vlists s4 = (vlists s3)(dst := None)"
        "areas s4 = (\<lambda>x. if x \<in> set ds then None else areas s3 x)"
      using vma_list_destroy_list [OF w(3)] by metis
    have "vlists s4 = vlists s" using s4(2) w(7) no ok(3) by (auto simp: s2_def fun_eq_iff)
    moreover have "payload s4 z = payload s z" for z using s4(3) w(5,6) by (cases "z \<in> set ds") (auto simp: payload_def)
    moreover have "list_ok s4 src xs" using s4(2,3) w(4) ne by (intro list_frame_areas [OF w(2)]) auto
    ultimately show ?thesis using False run s4(1) w(8)
      by (intro exI [of _ None] exI [of _ s4]) (auto simp: fun_eq_iff simp del: payload_None)
  qed
qed

theorem vma_list_clone_correct_witness:
  "\<exists>dst s' ds. vma_list_clone (Some 0) one_area = Some (Some dst, s') \<and> map (payload s') ds = map (payload one_area) [1] \<and> 1 \<notin> set ds"
proof -
  obtain r s' where r: "vma_list_clone (Some 0) one_area = Some (r, s')" "case r of
      None \<Rightarrow> \<not> (\<forall>n. grants (va_pool one_area) n) \<and> payload s' = payload one_area \<and> vlists s' = vlists one_area
    | Some dst \<Rightarrow> \<exists>ds. list_ok s' dst ds \<and> dst \<noteq> 0 \<and> set ds \<inter> set [1] = {} \<and> map (payload s') ds = map (payload one_area) [1] \<and>
        (\<forall>z. z \<notin> set ds \<longrightarrow> payload s' z = payload one_area z)"
    using vma_list_clone_correct [OF one_area_ok(1,2)] by blast
  moreover have "\<forall>n. grants (va_pool one_area) n" by (simp add: one_area_def)
  ultimately obtain dst where dst: "r = Some dst" by (cases r) auto
  then obtain ds where "set ds \<inter> set [1] = {}" "map (payload s') ds = map (payload one_area) [1]"
    using r(2) by (simp only: option.case) blast
  then show ?thesis using r(1) dst by (intro exI [of _ dst] exI [of _ s'] exI [of _ ds]) simp
qed

text \<open>C39. The search for free space is first fit.  While the areas, the size and the hint lie in user space, \<open>vma_find_free\<close>
  returns the hint rounded up to a page when the rounded size fits there, and otherwise the lowest address of user space where
  it fits, or 0 when there is none.\<close>

theorem vma_find_free_first_fit:
  assumes "list_ok s l xs" "\<forall>x \<in> set xs. hi s x \<le> SPACE_END" "size0 \<le> SPACE_END" "hint0 \<le> SPACE_END"
    "n = unat (ALIGN_UP size0 PAGE_SIZE)" "h = ALIGN_UP hint0 PAGE_SIZE"
  shows "vma_find_free (Some l) size0 hint0 s =
    Some (if hint0 \<noteq> 0 \<and> fits s xs n (unat h) then h else first_fit s xs n)"
proof -
  have up: "unat (ALIGN_UP z PAGE_SIZE) \<le> unat SPACE_END + 4095" if "z \<le> SPACE_END" for z :: u64
  proof -
    have z: "unat z \<le> unat SPACE_END" using that by (simp add: word_le_nat_alt)
    then have "unat z + 4095 < 2 ^ 64" by (simp add: SPACE_END_def)
    then show ?thesis using unat_ALIGN_UP_page [of z] z div_times_less_eq_dividend [of "unat z + 4095" 4096] by simp
  qed
  define sz where "sz = ALIGN_UP size0 PAGE_SIZE"
  have sz: "unat sz \<le> 2 ^ 63" "n = unat sz" using up [OF assms(3)] assms(5) by (simp_all add: sz_def SPACE_END_def)
  have sum: "unat (h + sz) = unat h + unat sz"
    using up [OF assms(3)] up [OF assms(4)]
    by (intro unat_add_lem [THEN iffD1]) (simp add: assms(6) sz_def [symmetric] SPACE_END_def)
  have ov: "vma_overlaps (Some l) h (h + sz) s = Some (\<not> gap_at s xs n (unat h))"
    using vma_overlaps_list [OF assms(1)] sum sz(2) by (auto simp: gap_at_def word_le_nat_alt word_less_nat_alt not_le)
  have "fits s xs n (unat h) \<longleftrightarrow> SPACE_START \<le> h \<and> h + sz \<le> SPACE_END \<and> gap_at s xs n (unat h)"
    using sum sz(2) by (simp add: fits_def word_le_nat_alt)
  then show ?thesis
    using ov find_gap_list [OF assms(1,2) sz(1)] sz(2)
    by (simp add: vma_find_free_def Let_def assms(6) [symmetric] sz_def [symmetric])
qed

theorem vma_find_free_first_fit_witness:
  "vma_find_free (Some 0) 100 0 one_area = Some (first_fit one_area [1] (unat (ALIGN_UP 100 PAGE_SIZE :: u64)))"
  using vma_find_free_first_fit [OF one_area_ok(1,3), of 100 0] by (simp add: SPACE_END_def)

text \<open>C40. A defect of the search: the sum of hint and size wraps.  With a hint in the last page of the 64-bit address space and
  a size of two pages the sum is 4096, which passes the check against the end of user space, no area overlaps, and the
  search returns the hint: an address outside user space.\<close>

theorem vma_find_free_hint_wraps:
  assumes "list_ok s l xs" "\<forall>x \<in> set xs. hi s x \<le> SPACE_END"
  shows "vma_find_free (Some l) 0x2000 0xFFFFFFFFFFFFF000 s = Some 0xFFFFFFFFFFFFF000 \<and> SPACE_END < 0xFFFFFFFFFFFFF000"
proof -
  have "\<not> 0xFFFFFFFFFFFFF000 < hi s x" if "x \<in> set xs" for x
    using assms(2) that by (auto simp: SPACE_END_def word_le_nat_alt word_less_nat_alt)
  then have "vma_overlaps (Some l) 0xFFFFFFFFFFFFF000 e s = Some False" for e using vma_overlaps_list [OF assms(1)] by auto
  then show ?thesis
    by (simp add: vma_find_free_def ALIGN_UP_def PAGE_SIZE_def SPACE_START_def SPACE_END_def Let_def)
qed

theorem vma_find_free_hint_wraps_witness: "vma_find_free (Some 0) 0x2000 0xFFFFFFFFFFFFF000 one_area = Some 0xFFFFFFFFFFFFF000"
  using vma_find_free_hint_wraps [OF one_area_ok(1,3)] by simp

end
