(* ===== verification/Spec2Isabelle.thy ===== *)
theory Spec2Isabelle
  imports Slab_Correct Kstring_Correct Byte_Queue Ramfs_Dirs Vfs_Correct Vma_Correct
begin

text \<open>
  A verification development for the Kurios2 kernel (x86_64, C), file names relative to \<^verbatim>\<open>src/\<close>.

  \<^bold>\<open>The parts and how they interact.\<close>  The page allocator hands out physical frames.  The page tables are built
  from such frames and translate virtual addresses.  The kernel heap takes frames, maps them into its window
  and carves objects from them.  The file system layer allocates its objects from the heap: nodes, open files,
  descriptor tables, pipes and data blocks.  The string library serves them all.

  \<^item> \<open>Kurios_Prelude\<close>: integer and pointer types, flag words, the alignment macros of \<^verbatim>\<open>kernel/include/types.h\<close>.
  \<^item> \<open>Dll\<close>: the lists spelled by \<open>next\<close> and \<open>prev\<close> fields, and how pushing and unlinking change them.
  \<^item> \<open>Pmm\<close>, \<open>Pmm_Correct\<close>: \<^verbatim>\<open>kernel/mm/pmm.c\<close>.  The record \<open>mem_info\<close> is the C structure of that name, with
    \<open>page_array\<close> as a function from frame numbers to descriptors.  \<open>pmm_ok\<close> says that the free lists are sound;
    \<open>pmm_free\<close> is the set of free frames.  Allocation removes exactly an aligned block from the set, freeing adds
    it back merged, and allocation fails only when there is no such block.
  \<^item> \<open>Page_Source\<close>: the locale of what a user of frames relies on, interpreted for \<open>alloc_page\<close> and \<open>free_page\<close>.
  \<^item> \<open>Vmm\<close>, \<open>Vmm_Correct\<close>: \<^verbatim>\<open>kernel/mm/vmm.c\<close>.  Tables live in frames, entries are 64-bit words.  The translation
    of an address is the leaf its walk reaches; mapping and unmapping change exactly one page, a range is mapped
    completely or not at all.
  \<^item> \<open>Slab\<close> to \<open>Slab_Correct\<close>: \<^verbatim>\<open>kernel/mm/slab.c\<close>.  \<open>Slab\<close> holds the definitions; \<open>Slab_Pages\<close> and \<open>Slab_Window\<close> the
    pages of the heap, \<open>Slab_Geometry\<close> the layout of slabs, \<open>Slab_Objects\<close> the three slab lists and the free
    chains, \<open>Slab_Correct\<close> the properties.  The abstraction of a cache is the set of its live objects;
    the locale \<open>object_cache\<close> states the contract and is interpreted for the allocation functions.
  \<^item> \<open>Kstring\<close>, \<open>Kstring_Correct\<close>: \<^verbatim>\<open>kernel/lib/string.c\<close> on a byte memory with wrapping addresses, and the formatter
    on a format and a list of arguments.
  \<^item> \<open>Object_Pool\<close>: the contract of the heap as the layers above use it: a request gives an unused object or NULL.
  \<^item> \<open>Vma\<close>, \<open>Vma_List\<close>, \<open>Vma_Correct\<close>: \<^verbatim>\<open>kernel/mm/vma.c\<close>, the memory areas of an address space.  \<open>Vma_List\<close> has the
    invariant (sorted, disjoint, page aligned, links and count right) and what inserting and removing do to it;
    \<open>Vma_Correct\<close> shows that the list refines a map from addresses to areas, that copies are separate and complete,
    and that the search for free space is first fit.
  \<^item> \<open>Fs_State\<close>: the structures of \<^verbatim>\<open>kernel/fs/vfs.h\<close>, \<^verbatim>\<open>fd_table.h\<close>, \<^verbatim>\<open>pipe.h\<close> and \<^verbatim>\<open>ramfs.c\<close>, one store per kind
    of object.  An object absent from its store was freed, and using it is a fault.
  \<^item> \<open>Pipe\<close>, \<open>Byte_Queue\<close>: \<^verbatim>\<open>kernel/fs/pipe.c\<close>.  The locale \<open>byte_queue\<close> is the contract of a bounded queue; the ring
    buffer of a pipe is an interpretation, and a run of any reads and writes preserves the stream of bytes.
  \<^item> \<open>Fd_Table\<close>: \<^verbatim>\<open>kernel/fs/fd_table.c\<close> and the creation of pipes.
  \<^item> \<open>Ramfs\<close>, \<open>Ramfs_Data\<close>, \<open>Ramfs_Files\<close>: \<^verbatim>\<open>kernel/fs/ramfs.c\<close>.  \<open>raw\<close> reads the bytes of a file from its blocks;
    reads and writes are characterised against it.
  \<^item> \<open>Name_Space\<close>, \<open>Ramfs_Dirs\<close>: the locale \<open>name_space\<close> is the contract of a directory as a finite map from names to
    nodes, interpreted for the linked children of a ramfs directory; renaming.
  \<^item> \<open>Vfs\<close>, \<open>Vfs_Correct\<close>: \<^verbatim>\<open>kernel/fs/vfs.c\<close> over ramfs and pipes: path resolution against a reference on the
    components of the path, descriptors, permissions, and files written and read through descriptors.

  \<^bold>\<open>Conventions.\<close>  Machine integers are HOL words of their width.  A pointer is \<open>None\<close> for NULL.  In operations that
  return an option, the outer \<open>None\<close> is an access to memory the program does not own or a loop that does not end;
  theorems that an operation works state that it returns.  List walks and loops that may run forever are
  \<open>partial_function (option)\<close>; no fuel is used.  Spin locks and log output have no counterpart: an operation
  runs as one step.

  \<^bold>\<open>Defects.\<close>  Theorems whose text begins with a defect prove that the code does not do what it is meant to on the
  inputs they describe.

  \<^bold>\<open>Not modelled.\<close>  Boot code, drivers, interrupt handling and multiprocessor start-up are device access and
  privileged instructions.  The disk file systems, the network stack, processes and scheduling, the system call
  layer and interprocess communication are not covered.
\<close>

end
